(* ===== verification/Prelude.thy ===== *)
theory Prelude
  imports
    "HOL-Library.Word"
    "HOL-Library.AList"
    "HOL-Library.Char_ord"
    "HOL-Library.List_Lexorder"
    "HOL-Library.Multiset"
    "HOL-Library.Sublist"
begin

text \<open>
  Shared ground of the development: the type synonyms that name the machine
  integers and the Go containers of the model, the result type of a Go function
  that returns a value and an error, loops that stop at the first error, and the
  generic lemmas on association lists, filters and options that the component
  theories use. The collections \<open>wal_defs\<close>, \<open>router_defs\<close>, \<open>auth_defs\<close>, \<open>sse_defs\<close>
  and \<open>app_defs\<close> hold the definitions a component's proofs unfold together.
\<close>

named_theorems wal_defs
named_theorems router_defs
named_theorems auth_defs
named_theorems sse_defs
named_theorems app_defs

subsection \<open>Machine integers and bytes\<close>

type_synonym u8 = "8 word"
type_synonym u32 = "32 word"
type_synonym lsn = "64 word"

text \<open>A Go \<open>string\<close> or \<open>[]byte\<close> is a list of bytes; \<open>byte c\<close> is the byte's number.\<close>

abbreviation byte :: "char \<Rightarrow> nat" where
  "byte c \<equiv> of_char c"

lemma byte_less_256 [simp]: "byte c < 256"
  by (metis of_char_mod_256 mod_less_divisor zero_less_numeral)

text \<open>The range of a Go \<open>int\<close>, 64 bits on every platform the program is built for.\<close>

definition int_range :: "int \<Rightarrow> bool" where
  "int_range n \<longleftrightarrow> - (2 ^ 63) \<le> n \<and> n < 2 ^ 63"

text \<open>Two's complement wrap-around of \<open>int\<close> and \<open>time.Duration\<close> arithmetic.\<close>

definition wrap_int :: "int \<Rightarrow> int" where
  "wrap_int n = (n + 2 ^ 63) mod 2 ^ 64 - 2 ^ 63"

lemma wrap_int_id [simp]: "int_range n \<Longrightarrow> wrap_int n = n"
  by (simp add: wrap_int_def int_range_def)

text \<open>\<open>time.Second\<close> in nanoseconds.\<close>

definition second_ns :: int where
  "second_ns = 1000000000"

subsection \<open>Results and loops that stop at the first error\<close>

text \<open>A Go function with result \<open>(T, error)\<close> has result type \<open>'e + 'a\<close>: \<open>Inl\<close> is the error.\<close>

fun bind_result :: "'e + 'a \<Rightarrow> ('a \<Rightarrow> 'e + 'b) \<Rightarrow> 'e + 'b" where
  "bind_result (Inl e) f = Inl e"
| "bind_result (Inr x) f = f x"

lemma bind_result_cong [fundef_cong]:
  "r = r' \<Longrightarrow> (\<And>x. r' = Inr x \<Longrightarrow> f x = g x) \<Longrightarrow> bind_result r f = bind_result r' g"
  by (cases r') auto

lemma bind_result_Inr_iff:
  "bind_result r f = Inr y \<longleftrightarrow> (\<exists>x. r = Inr x \<and> f x = Inr y)"
  by (cases r) auto

fun traverse :: "('a \<Rightarrow> 'e + 'b) \<Rightarrow> 'a list \<Rightarrow> 'e + 'b list" where
  "traverse f [] = Inr []"
| "traverse f (x # xs) =
     bind_result (f x) (\<lambda>y. bind_result (traverse f xs) (\<lambda>ys. Inr (y # ys)))"

lemma traverse_cong [fundef_cong]:
  "xs = ys \<Longrightarrow> (\<And>x. x \<in> set ys \<Longrightarrow> f x = g x) \<Longrightarrow> traverse f xs = traverse g ys"
  by (induction ys arbitrary: xs) auto

lemma traverse_map_Inr: "(\<And>x. x \<in> set xs \<Longrightarrow> f x = Inr (g x)) \<Longrightarrow> traverse f xs = Inr (map g xs)"
  by (induction xs) auto

lemma traverse_length: "traverse f xs = Inr ys \<Longrightarrow> length ys = length xs"
  by (induction xs arbitrary: ys) (auto simp: bind_result_Inr_iff)

lemma traverse_Inr_iff:
  "traverse f xs = Inr ys \<longleftrightarrow> list_all2 (\<lambda>x y. f x = Inr y) xs ys"
  by (induction xs arbitrary: ys)
     (auto simp: bind_result_Inr_iff list_all2_Cons1)

subsection \<open>Go maps as association lists\<close>

text \<open>
  A Go map that the code iterates is an association list with distinct keys; the
  order of the list is one of the iteration orders the language allows. A map that
  the code only looks up in is a HOL map.
\<close>

type_synonym ('k, 'v) gomap = "('k \<times> 'v) list"

abbreviation gm_get :: "('k, 'v) gomap \<Rightarrow> 'k \<Rightarrow> 'v option" where
  "gm_get m k \<equiv> map_of m k"

abbreviation gm_set :: "'k \<Rightarrow> 'v \<Rightarrow> ('k, 'v) gomap \<Rightarrow> ('k, 'v) gomap" where
  "gm_set \<equiv> AList.update"

abbreviation gm_del :: "'k \<Rightarrow> ('k, 'v) gomap \<Rightarrow> ('k, 'v) gomap" where
  "gm_del \<equiv> AList.delete"

definition gm_ok :: "('k, 'v) gomap \<Rightarrow> bool" where
  "gm_ok m \<longleftrightarrow> distinct (map fst m)"

lemma gm_ok_Nil [simp]: "gm_ok []"
  by (simp add: gm_ok_def)

lemma gm_ok_set [simp]: "gm_ok m \<Longrightarrow> gm_ok (gm_set k v m)"
  by (simp add: gm_ok_def distinct_update)

lemma gm_ok_del [simp]: "gm_ok m \<Longrightarrow> gm_ok (gm_del k m)"
  by (simp add: gm_ok_def distinct_delete)

lemma gm_ok_filter: "gm_ok m \<Longrightarrow> gm_ok (filter P m)"
  by (simp add: gm_ok_def distinct_map_filter)

lemma gm_get_set [simp]: "gm_get (gm_set k v m) = (gm_get m)(k \<mapsto> v)"
  by (rule update_conv')

lemma gm_get_del [simp]: "gm_get (gm_del k m) = (gm_get m)(k := None)"
  by (rule delete_conv')

lemma gm_mem_iff: "gm_ok m \<Longrightarrow> (k, v) \<in> set m \<longleftrightarrow> gm_get m k = Some v"
  by (simp add: gm_ok_def)

lemma gm_get_filter:
  "gm_ok m \<Longrightarrow> gm_get (filter (\<lambda>(k, v). P k) m) k = (if P k then gm_get m k else None)"
proof (induction m)
  case (Cons kv m)
  obtain k' v where "kv = (k', v)" by (cases kv)
  with Cons show ?case
    by (auto simp: gm_ok_def)
qed simp

lemma gm_filter_keys:
  "fst ` set (filter (\<lambda>(k, v). P k) m) = {k \<in> fst ` set m. P k}"
  by force

text \<open>The sum over a Go map, as a \<open>for\<close> loop that adds up a measure of the values.\<close>

definition gm_sum :: "('v \<Rightarrow> nat) \<Rightarrow> ('k, 'v) gomap \<Rightarrow> nat" where
  "gm_sum f m = sum_list (map (\<lambda>(k, v). f v) m)"

lemma gm_sum_Nil [simp]: "gm_sum f [] = 0"
  by (simp add: gm_sum_def)

lemma gm_sum_set:
  "gm_ok m \<Longrightarrow>
   gm_sum f (gm_set k v m) + (case gm_get m k of None \<Rightarrow> 0 | Some w \<Rightarrow> f w) = gm_sum f m + f v"
proof (induction m)
  case (Cons kv m)
  obtain k' w where "kv = (k', w)" by (cases kv)
  with Cons show ?case by (auto simp: gm_sum_def gm_ok_def)
qed (simp add: gm_sum_def)

lemma gm_del_notin: "k \<notin> fst ` set m \<Longrightarrow> gm_del k m = m"
  by (induction m) (auto simp: AList.delete_eq)

lemma gm_sum_del:
  "gm_ok m \<Longrightarrow>
   gm_sum f (gm_del k m) + (case gm_get m k of None \<Rightarrow> 0 | Some w \<Rightarrow> f w) = gm_sum f m"
proof (induction m)
  case (Cons kv m)
  obtain k' w where [simp]: "kv = (k', w)" by (cases kv)
  show ?case
  proof (cases "k' = k")
    case True
    with Cons.prems have "k \<notin> fst ` set m" by (simp add: gm_ok_def)
    with True show ?thesis by (simp add: gm_sum_def AList.delete_eq gm_del_notin [unfolded AList.delete_eq])
  next
    case False
    with Cons show ?thesis by (simp add: gm_sum_def gm_ok_def AList.delete_eq)
  qed
qed (simp add: gm_sum_def)

subsection \<open>Lists\<close>

lemma remove1_notin_set: "distinct xs \<Longrightarrow> set (remove1 x xs) = set xs - {x}"
  by (rule set_remove1_eq)

lemma length_remove1_in: "x \<in> set xs \<Longrightarrow> Suc (length (remove1 x xs)) = length xs"
  by (induction xs) (auto simp: length_remove1 Suc_pred dest: length_pos_if_in_set)

lemma takeWhile_sep: "d \<notin> set e \<Longrightarrow> t = [] \<or> (\<exists>u. t = d # u) \<Longrightarrow> takeWhile (\<lambda>x. x \<noteq> d) (e @ t) = e"
  by (induction e) auto

lemma dropWhile_sep: "d \<notin> set e \<Longrightarrow> t = [] \<or> (\<exists>u. t = d # u) \<Longrightarrow> dropWhile (\<lambda>x. x \<noteq> d) (e @ t) = t"
  by (induction e) auto

lemma subseq_map_filter: "subseq (map f (filter P xs)) (map f xs)"
  by (intro subseq_map subseq_filter_left)

subsection \<open>Totals over the entries of a map\<close>

text \<open>
  A counter shared by goroutines is compared with the sum of what each of them contributed;
  changing one entry changes the sum by the difference.
\<close>

definition entry :: "('v \<Rightarrow> int) \<Rightarrow> 'v option \<Rightarrow> int" where
  "entry f x = (case x of None \<Rightarrow> 0 | Some v \<Rightarrow> f v)"

lemma entry_simps [simp]: "entry f None = 0" "entry f (Some v) = f v"
  by (simp_all add: entry_def)

definition map_total :: "('v \<Rightarrow> int) \<Rightarrow> ('k \<Rightarrow> 'v option) \<Rightarrow> int" where
  "map_total f m = (\<Sum>k \<in> dom m. entry f (m k))"

lemma map_total_empty [simp]: "map_total f (\<lambda>_. None) = 0"
  by (simp add: map_total_def)

lemma map_total_upd:
  assumes "finite (dom m)"
  shows "map_total f (m(k := x)) = map_total f m - entry f (m k) + entry f x"
proof -
  have split: "map_total f g = entry f (g k) + (\<Sum>j \<in> dom m - {k}. entry f (g j))"
    if "dom g - {k} = dom m - {k}" for g
  proof (cases "g k")
    case None
    then have "dom g - {k} = dom g" by auto
    with None that show ?thesis by (simp add: map_total_def)
  next
    case (Some v)
    then have "dom g = insert k (dom m - {k})" using that by auto
    then show ?thesis using assms by (simp add: map_total_def sum.insert_remove)
  qed
  have "(\<Sum>j \<in> dom m - {k}. entry f ((m(k := x)) j)) = (\<Sum>j \<in> dom m - {k}. entry f (m j))"
    by (rule sum.cong) simp_all
  then show ?thesis using split [of m] split [of "m(k := x)"] by (auto split: if_splits)
qed

lemma map_total_ge:
  assumes "finite (dom m)" and "\<And>v. 0 \<le> f v" and "m k = Some v"
  shows "f v \<le> map_total f m"
proof -
  have "0 \<le> entry f x" for x using assms(2) by (cases x) simp_all
  then have "entry f (m k) \<le> (\<Sum>j \<in> dom m. entry f (m j))"
    using assms(1,3) by (intro member_le_sum) auto
  with assms(3) show ?thesis by (simp add: map_total_def)
qed

lemma map_total_card:
  assumes "finite (dom m)"
  shows "map_total (\<lambda>v. of_bool (P v)) m = int (card {k. \<exists>v. m k = Some v \<and> P v})"
proof -
  have "map_total (\<lambda>v. of_bool (P v)) m = (\<Sum>k \<in> dom m. of_bool (k \<in> {k. \<exists>v. m k = Some v \<and> P v}))"
    unfolding map_total_def by (rule sum.cong) auto
  also have "\<dots> = int (card (dom m \<inter> {k. \<exists>v. m k = Some v \<and> P v}))"
    using assms by (simp add: sum_of_bool_eq [symmetric] Int_def)
  also have "dom m \<inter> {k. \<exists>v. m k = Some v \<and> P v} = {k. \<exists>v. m k = Some v \<and> P v}" by auto
  finally show ?thesis .
qed

end
