(* ===== verification/Go_Strings.thy ===== *)
theory Go_Strings
  imports Prelude
begin

text \<open>
  The part of Go's standard library on strings that the program uses: character
  classes, white space (Unicode white space in UTF-8), \<open>strings\<close> functions,
  \<open>strconv.Atoi\<close> and decimal printing, \<open>encoding/hex\<close>, \<open>encoding/base64\<close> and the
  canonical form of MIME header names. A string is its list of bytes.
\<close>

subsection \<open>Character classes\<close>

definition is_digit :: "char \<Rightarrow> bool" where
  "is_digit c \<longleftrightarrow> 48 \<le> byte c \<and> byte c \<le> 57"

definition is_upper :: "char \<Rightarrow> bool" where
  "is_upper c \<longleftrightarrow> 65 \<le> byte c \<and> byte c \<le> 90"

definition is_lower :: "char \<Rightarrow> bool" where
  "is_lower c \<longleftrightarrow> 97 \<le> byte c \<and> byte c \<le> 122"

definition to_lower_char :: "char \<Rightarrow> char" where
  "to_lower_char c = (if is_upper c then char_of (byte c + 32) else c)"

definition to_upper_char :: "char \<Rightarrow> char" where
  "to_upper_char c = (if is_lower c then char_of (byte c - 32) else c)"

subsection \<open>White space\<close>

text \<open>
  The UTF-8 encodings of the runes for which \<open>unicode.IsSpace\<close> holds. Leading bytes
  and continuation bytes are disjoint, so the longest-first question does not arise
  and a byte-wise scan finds exactly the runes Go's scan finds.
\<close>

definition space_runes :: "string list" where
  "space_runes = [[CHR 0x20], [CHR 0x09], [CHR 0x0A], [CHR 0x0B], [CHR 0x0C], [CHR 0x0D],
     [CHR 0xC2, CHR 0x85], [CHR 0xC2, CHR 0xA0],
     [CHR 0xE1, CHR 0x9A, CHR 0x80],
     [CHR 0xE2, CHR 0x80, CHR 0x80], [CHR 0xE2, CHR 0x80, CHR 0x81],
     [CHR 0xE2, CHR 0x80, CHR 0x82], [CHR 0xE2, CHR 0x80, CHR 0x83],
     [CHR 0xE2, CHR 0x80, CHR 0x84], [CHR 0xE2, CHR 0x80, CHR 0x85],
     [CHR 0xE2, CHR 0x80, CHR 0x86], [CHR 0xE2, CHR 0x80, CHR 0x87],
     [CHR 0xE2, CHR 0x80, CHR 0x88], [CHR 0xE2, CHR 0x80, CHR 0x89],
     [CHR 0xE2, CHR 0x80, CHR 0x8A],
     [CHR 0xE2, CHR 0x80, CHR 0xA8], [CHR 0xE2, CHR 0x80, CHR 0xA9],
     [CHR 0xE2, CHR 0x80, CHR 0xAF], [CHR 0xE2, CHR 0x81, CHR 0x9F],
     [CHR 0xE3, CHR 0x80, CHR 0x80]]"

text \<open>Number of bytes of the white-space encoding from \<open>ws\<close> at the head of \<open>s\<close>, 0 if there is none.\<close>

definition space_len :: "string list \<Rightarrow> string \<Rightarrow> nat" where
  "space_len ws s = (case find (\<lambda>w. prefix w s) ws of None \<Rightarrow> 0 | Some w \<Rightarrow> length w)"

lemma space_len_le: "space_len ws s \<le> length s"
  by (auto simp: space_len_def find_Some_iff prefix_length_le split: option.splits)

lemma space_len_Nil [simp]: "space_len ws [] = 0"
  using space_len_le [of ws "[]"] by simp

function strip_head :: "string list \<Rightarrow> string \<Rightarrow> string" where
  "strip_head ws s = (if space_len ws s = 0 then s else strip_head ws (drop (space_len ws s) s))"
  by pat_completeness auto
termination
proof (relation "measure (\<lambda>(ws, s). length s)", goal_cases)
  case (2 ws s)
  then show ?case using space_len_le [of ws s] by (cases s) auto
qed simp

declare strip_head.simps [simp del]

definition trim_left :: "string \<Rightarrow> string" where
  "trim_left s = strip_head space_runes s"

definition trim_right :: "string \<Rightarrow> string" where
  "trim_right s = rev (strip_head (map rev space_runes) (rev s))"

text \<open>\<open>strings.TrimSpace\<close>.\<close>

definition trim_space :: "string \<Rightarrow> string" where
  "trim_space s = trim_right (trim_left s)"

text \<open>\<open>strings.Fields\<close>: the white-space separated, non-empty pieces; \<open>acc\<close> is the current piece reversed.\<close>

function fields_from :: "string \<Rightarrow> string \<Rightarrow> string list" where
  "fields_from acc [] = (if acc = [] then [] else [rev acc])"
| "fields_from acc (c # cs) =
     (if space_len space_runes (c # cs) = 0 then fields_from (c # acc) cs
      else (if acc = [] then [] else [rev acc])
           @ fields_from [] (drop (space_len space_runes (c # cs)) (c # cs)))"
  by pat_completeness auto
termination
proof (relation "measure (\<lambda>(acc, s). length s)", goal_cases)
  case (3 acc c cs)
  then show ?case using space_len_le [of space_runes "c # cs"] by simp
qed simp_all

definition str_fields :: "string \<Rightarrow> string list" where
  "str_fields s = fields_from [] s"

text \<open>Printable ASCII other than the blank starts no white space.\<close>

definition graph_char :: "char \<Rightarrow> bool" where
  "graph_char c \<longleftrightarrow> 33 \<le> byte c \<and> byte c \<le> 126"

lemma space_runes_not_graph:
  "list_all (\<lambda>w. w \<noteq> [] \<and> \<not> graph_char (hd w) \<and> \<not> graph_char (last w)) space_runes"
  unfolding space_runes_def graph_char_def by simp

lemma space_len_0: "(\<And>w. w \<in> set ws \<Longrightarrow> \<not> prefix w s) \<Longrightarrow> space_len ws s = 0"
  by (auto simp: space_len_def find_None_iff find_Some_iff split: option.splits)

lemma graph_char_not_space:
  assumes "graph_char c"
  shows "space_len space_runes (c # s) = 0"
    and "space_len (map rev space_runes) (c # s) = 0"
proof -
  have *: "w \<noteq> [] \<and> hd w \<noteq> c \<and> last w \<noteq> c" if "w \<in> set space_runes" for w
    using space_runes_not_graph that assms by (auto simp: list_all_iff)
  show "space_len space_runes (c # s) = 0"
    by (intro space_len_0) (auto simp: prefix_Cons dest: *)
  show "space_len (map rev space_runes) (c # s) = 0"
    by (intro space_len_0) (auto simp: prefix_Cons rev_eq_Cons_iff dest: *)
qed

lemma space_len_blank [simp]: "space_len space_runes (CHR '' '' # s) = 1"
  by (simp add: space_len_def space_runes_def)

lemma strip_head_graph: "graph_char c \<Longrightarrow> strip_head space_runes (c # s) = c # s"
  "graph_char c \<Longrightarrow> strip_head (map rev space_runes) (c # s) = c # s"
  by (simp_all add: strip_head.simps graph_char_not_space)

lemma trim_left_graph [simp]: "graph_char c \<Longrightarrow> trim_left (c # s) = c # s"
  by (simp add: trim_left_def strip_head_graph)

lemma trim_right_graph: "graph_char c \<Longrightarrow> trim_right (s @ [c]) = s @ [c]"
  by (simp add: trim_right_def strip_head_graph)

lemma trim_left_Nil [simp]: "trim_left [] = []"
  by (simp add: trim_left_def strip_head.simps)

lemma trim_right_Nil [simp]: "trim_right [] = []"
  by (simp add: trim_right_def strip_head.simps)

lemma trim_space_Nil [simp]: "trim_space [] = []"
  by (simp add: trim_space_def)

lemma trim_space_graph:
  assumes "s \<noteq> []" "graph_char (hd s)" "graph_char (last s)"
  shows "trim_space s = s"
proof -
  have "trim_left s = s" using assms by (cases s) auto
  moreover have "trim_right (butlast s @ [last s]) = butlast s @ [last s]"
    using assms(3) by (rule trim_right_graph)
  ultimately show ?thesis using assms(1) by (simp add: trim_space_def)
qed

lemma trim_space_graphs: "list_all graph_char s \<Longrightarrow> trim_space s = s"
  by (cases "s = []") (auto intro!: trim_space_graph simp: list_all_iff)

lemma trim_space_blank_left: "trim_space (CHR '' '' # s) = trim_space s"
  by (simp add: trim_space_def trim_left_def strip_head.simps [of _ "CHR '' '' # s"])

lemma fields_from_graphs:
  "list_all graph_char w \<Longrightarrow> fields_from acc (w @ s) = fields_from (rev w @ acc) s"
  by (induction w arbitrary: acc) (auto simp: graph_char_not_space)

lemma fields_from_blank:
  "fields_from acc (CHR '' '' # s) = (if acc = [] then [] else [rev acc]) @ fields_from [] s"
  by simp

lemma str_fields_graphs: "list_all graph_char w \<Longrightarrow> w \<noteq> [] \<Longrightarrow> str_fields w = [w]"
  using fields_from_graphs [of w "[]" "[]"] by (simp add: str_fields_def)

subsection \<open>Searching and splitting\<close>

text \<open>\<open>strings.Index\<close>; \<open>None\<close> is -1.\<close>

fun str_index :: "string \<Rightarrow> string \<Rightarrow> nat option" where
  "str_index [] sub = (if sub = [] then Some 0 else None)"
| "str_index (c # cs) sub =
     (if prefix sub (c # cs) then Some 0 else map_option Suc (str_index cs sub))"

lemma str_index_Some:
  "str_index s sub = Some i \<Longrightarrow> prefix sub (drop i s) \<and> i \<le> length s"
  by (induction s arbitrary: i) (auto split: if_splits)

text \<open>\<open>strings.Cut\<close> with a one-byte separator: before, after, found.\<close>

fun str_cut :: "char \<Rightarrow> string \<Rightarrow> string \<times> string \<times> bool" where
  "str_cut d [] = ([], [], False)"
| "str_cut d (c # cs) =
     (if c = d then ([], cs, True)
      else (case str_cut d cs of (b, a, ok) \<Rightarrow> (c # b, a, ok)))"

lemma str_cut_notin: "d \<notin> set s \<Longrightarrow> str_cut d s = (s, [], False)"
  by (induction s) auto

lemma str_cut_append: "d \<notin> set s \<Longrightarrow> str_cut d (s @ d # t) = (s, t, True)"
  by (induction s) auto

lemma str_cut_True: "str_cut d s = (b, a, True) \<Longrightarrow> s = b @ d # a \<and> d \<notin> set b"
  by (induction s arbitrary: b) (auto split: if_splits prod.splits)

text \<open>\<open>strings.CutPrefix\<close>: the rest when the prefix is there.\<close>

definition cut_prefix :: "string \<Rightarrow> string \<Rightarrow> string option" where
  "cut_prefix s p = (if prefix p s then Some (drop (length p) s) else None)"

lemma cut_prefix_append [simp]: "cut_prefix (p @ s) p = Some s"
  by (simp add: cut_prefix_def)

text \<open>\<open>strings.Split\<close> with a one-byte separator.\<close>

fun str_split :: "char \<Rightarrow> string \<Rightarrow> string list" where
  "str_split d [] = [[]]"
| "str_split d (c # cs) =
     (if c = d then [] # str_split d cs
      else (case str_split d cs of [] \<Rightarrow> [[c]] | p # ps \<Rightarrow> (c # p) # ps))"

lemma str_split_ne [simp]: "str_split d s \<noteq> []"
  by (induction s) (auto split: list.splits)

lemma str_split_notin: "d \<notin> set s \<Longrightarrow> str_split d s = [s]"
  by (induction s) auto

lemma str_split_append: "d \<notin> set s \<Longrightarrow> str_split d (s @ d # t) = s # str_split d t"
  by (induction s) auto

text \<open>\<open>strings.SplitN\<close> with a one-byte separator: at most \<open>n\<close> pieces, the last one unsplit.\<close>

fun str_split_n :: "nat \<Rightarrow> char \<Rightarrow> string \<Rightarrow> string list" where
  "str_split_n 0 d s = []"
| "str_split_n (Suc 0) d s = [s]"
| "str_split_n (Suc (Suc n)) d s =
     (case str_cut d s of (b, a, ok) \<Rightarrow> if ok then b # str_split_n (Suc n) d a else [s])"

text \<open>\<open>strings.Join\<close>.\<close>

fun str_join :: "string list \<Rightarrow> string \<Rightarrow> string" where
  "str_join [] sep = []"
| "str_join [s] sep = s"
| "str_join (s # t # ts) sep = s @ sep @ str_join (t # ts) sep"

text \<open>
  \<open>strings.EqualFold\<close> against a pattern whose letters have no non-ASCII case variants:
  ASCII case folding is exact for it.
\<close>

definition equal_fold_ascii :: "string \<Rightarrow> string \<Rightarrow> bool" where
  "equal_fold_ascii s t \<longleftrightarrow> map to_lower_char s = map to_lower_char t"

subsection \<open>Decimal integers\<close>

fun digits_val :: "nat \<Rightarrow> string \<Rightarrow> nat option" where
  "digits_val acc [] = Some acc"
| "digits_val acc (c # cs) =
     (if is_digit c then digits_val (10 * acc + (byte c - 48)) cs else None)"

text \<open>\<open>strconv.Atoi\<close>: an optional sign, then decimal digits; out of range is an error.\<close>

definition atoi :: "string \<Rightarrow> int option" where
  "atoi s =
     (let (neg, t) = (case s of c # cs \<Rightarrow>
            if c = CHR ''-'' then (True, cs) else if c = CHR ''+'' then (False, cs) else (False, s)
          | [] \<Rightarrow> (False, []))
      in if t = [] then None
         else case digits_val 0 t of
           None \<Rightarrow> None
         | Some n \<Rightarrow> (let v = (if neg then - int n else int n)
                      in if int_range v then Some v else None))"

fun nat_digits :: "nat \<Rightarrow> string" where
  "nat_digits n = (if n < 10 then [char_of (48 + n)]
                   else nat_digits (n div 10) @ [char_of (48 + n mod 10)])"

declare nat_digits.simps [simp del]

text \<open>The decimal text of an integer: \<open>strconv.Itoa\<close>, \<open>strconv.FormatUint\<close> and the verb \<open>%d\<close>.\<close>

definition itoa :: "int \<Rightarrow> string" where
  "itoa n = (if n < 0 then CHR ''-'' # nat_digits (nat (- n)) else nat_digits (nat n))"

lemma byte_char_of [simp]: "n < 256 \<Longrightarrow> byte (char_of n) = n"
  by simp

lemma is_digit_char_of: "(n::nat) < 10 \<Longrightarrow> is_digit (char_of (48 + n))"
  by (simp add: is_digit_def)

lemma nat_digits_ne [simp]: "nat_digits n \<noteq> []"
  by (subst nat_digits.simps) simp

lemma nat_digits_digit: "list_all is_digit (nat_digits n)"
proof (induction n rule: nat_digits.induct)
  case (1 n)
  then show ?case
    by (cases "n < 10") (simp_all add: nat_digits.simps [of n] is_digit_char_of)
qed

lemma digits_val_append:
  "digits_val acc (s @ t) = (case digits_val acc s of None \<Rightarrow> None | Some m \<Rightarrow> digits_val m t)"
  by (induction s arbitrary: acc) auto

lemma digits_val_nat_digits: "digits_val 0 (nat_digits n) = Some n"
proof (induction n rule: nat_digits.induct)
  case (1 n)
  show ?case
  proof (cases "n < 10")
    case True
    then show ?thesis by (simp add: nat_digits.simps [of n] is_digit_char_of)
  next
    case False
    with 1 have "digits_val 0 (nat_digits (n div 10)) = Some (n div 10)" by simp
    moreover have "is_digit (char_of (48 + n mod 10))" by (rule is_digit_char_of) simp
    ultimately show ?thesis
      using False by (simp add: nat_digits.simps [of n] digits_val_append)
  qed
qed

lemma is_digit_not_sign: "is_digit c \<Longrightarrow> c \<noteq> CHR ''-'' \<and> c \<noteq> CHR ''+''"
  by (auto simp: is_digit_def)

lemma is_digit_graph: "is_digit c \<Longrightarrow> graph_char c"
  by (simp add: is_digit_def graph_char_def)

lemma hd_nat_digits: "is_digit (hd (nat_digits n))"
  using nat_digits_digit [of n] nat_digits_ne [of n] by (cases "nat_digits n") auto

text \<open>Printing an integer and reading it back.\<close>

lemma atoi_itoa: "int_range n \<Longrightarrow> atoi (itoa n) = Some n"
proof (cases "n < 0")
  case True
  moreover assume "int_range n"
  ultimately show ?thesis by (simp add: atoi_def itoa_def digits_val_nat_digits)
next
  case False
  moreover assume "int_range n"
  moreover obtain c cs where "nat_digits (nat n) = c # cs"
    by (cases "nat_digits (nat n)") auto
  moreover from this have "c \<noteq> CHR ''-''" "c \<noteq> CHR ''+''"
    using hd_nat_digits [of "nat n"] by (auto dest: is_digit_not_sign)
  ultimately show ?thesis
    using digits_val_nat_digits [of "nat n"] by (simp add: atoi_def itoa_def)
qed

lemma atoi_range: "atoi s = Some n \<Longrightarrow> int_range n"
  by (auto simp: atoi_def Let_def split: option.splits if_splits list.splits prod.splits)

lemma itoa_graph: "list_all graph_char (itoa n)"
proof -
  have "list_all graph_char (nat_digits m)" for m
    using nat_digits_digit [of m] by (auto simp: list_all_iff intro: is_digit_graph)
  then show ?thesis by (simp add: itoa_def graph_char_def)
qed

lemma itoa_ne [simp]: "itoa n \<noteq> []"
  by (simp add: itoa_def)

end
