(* ===== verification/Wal_Types.thy ===== *)
theory Wal_Types
  imports Go_Strings
begin

text \<open>
  The data of \<open>internal/wal/types.go\<close> (row changes and transactions) and the messages of
  the logical replication protocol as the third-party package \<open>pglogrepl\<close> hands them to
  the reader. \<open>'f\<close> is the type of \<open>float64\<close>, \<open>'t\<close> the type of \<open>time.Time\<close>.
\<close>

subsection \<open>Row changes\<close>

type_synonym op = string

definition OpInsert :: op where "OpInsert = ''insert''"

definition OpUpdate :: op where "OpUpdate = ''update''"

definition OpDelete :: op where "OpDelete = ''delete''"

lemma op_distinct [simp]:
  "OpInsert \<noteq> OpUpdate" "OpInsert \<noteq> OpDelete" "OpUpdate \<noteq> OpInsert"
  "OpUpdate \<noteq> OpDelete" "OpDelete \<noteq> OpInsert" "OpDelete \<noteq> OpUpdate"
  by (simp_all add: OpInsert_def OpUpdate_def OpDelete_def)

text \<open>The dynamic values of the Go type \<open>any\<close> that the value mapper produces.\<close>

datatype 'f gval =
    GNil | GInt int | GFloat 'f | GBool bool | GStr string
  | GRaw string \<comment> \<open>\<open>json.RawMessage\<close>\<close>
  | GList "'f gval list"

type_synonym 'f row = "(string, 'f gval) gomap"

text \<open>\<open>Data\<close> and \<open>Changed\<close> are Go maps that may be nil.\<close>

record 'f change =
  Schema :: string
  Table :: string
  Op :: op
  PK :: string
  PKCol :: string
  Data :: "'f row option"
  Changed :: "'f row option"

definition zero_change :: "'f change" where
  "zero_change = \<lparr>Schema = [], Table = [], Op = [], PK = [], PKCol = [], Data = None, Changed = None\<rparr>"

definition Key :: "'f change \<Rightarrow> string" where
  "Key c = Schema c @ ''.'' @ Table c @ '':'' @ PK c"

definition WildcardKey :: "'f change \<Rightarrow> string" where
  "WildcardKey c = Schema c @ ''.'' @ Table c"

text \<open>A well-formed change: its maps have each column once.\<close>

definition change_ok :: "'f change \<Rightarrow> bool" where
  "change_ok c \<longleftrightarrow> pred_option gm_ok (Data c) \<and> pred_option gm_ok (Changed c)"

record ('f, 't) tx =
  ID :: u32
  CommitLSN :: lsn
  CommitTS :: 't
  Changes :: "'f change list"

subsection \<open>Replication messages\<close>

text \<open>The tuple data kinds of the protocol: null, unchanged TOAST, text.\<close>

definition TupleDataTypeNull :: char where "TupleDataTypeNull = CHR ''n''"

definition TupleDataTypeToast :: char where "TupleDataTypeToast = CHR ''u''"

record tuple_col =
  col_type :: char
  col_data :: string

record rel_col =
  col_flags :: u8
  col_name :: string
  col_oid :: u32

record relation_msg =
  rm_id :: u32
  rm_namespace :: string
  rm_name :: string
  rm_columns :: "rel_col list"

type_synonym tuple_data = "tuple_col list"

datatype 't wal_msg =
    BeginMessage (begin_lsn: lsn) (begin_xid: u32)
  | RelationMessage relation_msg
  | InsertMessage u32 "tuple_data option"
  | UpdateMessage u32 "tuple_data option" "tuple_data option" \<comment> \<open>old tuple, new tuple\<close>
  | DeleteMessage u32 "tuple_data option"
  | CommitMessage (commit_lsn: lsn) (commit_time: 't)
  | TypeMessage
  | OriginMessage
  | TruncateMessage "u32 list"
  | OtherMessage

end
