(* ===== verification/Go_Json.thy ===== *)
theory Go_Json
  imports Go_Strings
begin

text \<open>
  The part of \<open>encoding/json\<close> and \<open>unicode/utf8\<close> the program uses: the byte-wise scanner
  behind \<open>json.Valid\<close> (a state and a stack, as in the library), \<open>json.Compact\<close>, and the
  quoting of strings. The lemmas show what the SSE framing relies on: quoted and
  compacted JSON holds no line break.
\<close>

subsection \<open>UTF-8\<close>

definition cont_byte :: "char \<Rightarrow> bool" where
  "cont_byte c \<longleftrightarrow> 128 \<le> byte c \<and> byte c \<le> 191"

definition second_ok :: "nat \<Rightarrow> char \<Rightarrow> bool" where
  "second_ok b c \<longleftrightarrow>
     (if b = 224 then 160 \<le> byte c \<and> byte c \<le> 191
      else if b = 237 then 128 \<le> byte c \<and> byte c \<le> 159
      else if b = 240 then 144 \<le> byte c \<and> byte c \<le> 191
      else if b = 244 then 128 \<le> byte c \<and> byte c \<le> 143
      else cont_byte c)"

text \<open>Number of bytes of the valid encoding at the head of the string, 0 for an invalid one.\<close>

fun utf8_len :: "string \<Rightarrow> nat" where
  "utf8_len [] = 0"
| "utf8_len (a # s) =
     (let b = byte a in
      if b < 128 then 1
      else if 194 \<le> b \<and> b \<le> 223 then
        (case s of c # _ \<Rightarrow> if cont_byte c then 2 else 0 | [] \<Rightarrow> 0)
      else if 224 \<le> b \<and> b \<le> 239 then
        (case s of c # d # _ \<Rightarrow> if second_ok b c \<and> cont_byte d then 3 else 0 | _ \<Rightarrow> 0)
      else if 240 \<le> b \<and> b \<le> 244 then
        (case s of c # d # e # _ \<Rightarrow> if second_ok b c \<and> cont_byte d \<and> cont_byte e then 4 else 0
         | _ \<Rightarrow> 0)
      else 0)"

lemma utf8_len_le: "utf8_len s \<le> length s"
  by (cases s) (auto simp: Let_def split: list.splits)

lemma cont_byte_high: "cont_byte c \<Longrightarrow> 128 \<le> byte c"
  by (simp add: cont_byte_def)

lemma second_ok_high: "second_ok b c \<Longrightarrow> 128 \<le> byte c"
  by (auto simp: second_ok_def cont_byte_def split: if_splits)

text \<open>The shapes of a valid encoding of more than one byte.\<close>

lemma utf8_len_cases:
  assumes "128 \<le> byte a"
  obtains (invalid) "utf8_len (a # s) = 0"
  | (two) c t where "s = c # t" "cont_byte c" "utf8_len (a # s) = 2"
  | (three) c d t where "s = c # d # t" "second_ok (byte a) c" "cont_byte d" "utf8_len (a # s) = 3"
  | (four) c d e t where "s = c # d # e # t" "second_ok (byte a) c" "cont_byte d" "cont_byte e"
      "utf8_len (a # s) = 4"
proof -
  consider "194 \<le> byte a \<and> byte a \<le> 223" | "224 \<le> byte a \<and> byte a \<le> 239"
    | "240 \<le> byte a \<and> byte a \<le> 244"
    | "\<not> (194 \<le> byte a \<and> byte a \<le> 223)" "\<not> (224 \<le> byte a \<and> byte a \<le> 239)"
      "\<not> (240 \<le> byte a \<and> byte a \<le> 244)"
    by blast
  then show thesis
  proof cases
    case 1
    then show thesis using invalid two assms by (cases s; cases "cont_byte (hd s)") auto
  next
    case 2
    then show thesis using invalid three assms
      by (cases s; cases "tl s"; cases "second_ok (byte a) (hd s) \<and> cont_byte (hd (tl s))") auto
  next
    case 3
    then show thesis using invalid four assms
      by (cases s; cases "tl s"; cases "tl (tl s)";
          cases "second_ok (byte a) (hd s) \<and> cont_byte (hd (tl s)) \<and> cont_byte (hd (tl (tl s)))") auto
  next
    case 4
    then show thesis using invalid assms by auto
  qed
qed

lemma utf8_len_high:
  assumes "128 \<le> byte a" "c \<in> set (take (utf8_len (a # s)) (a # s))"
  shows "128 \<le> byte c"
proof (cases rule: utf8_len_cases [OF assms(1), of s])
  case (2 d t)
  then show ?thesis using assms by (auto simp del: utf8_len.simps dest: cont_byte_high)
next
  case (3 d e t)
  then show ?thesis using assms
    by (auto simp del: utf8_len.simps dest: cont_byte_high second_ok_high)
next
  case (4 d e f t)
  then show ?thesis using assms
    by (auto simp del: utf8_len.simps dest: cont_byte_high second_ok_high)
next
  case 1
  then show ?thesis using assms(2) by simp
qed

text \<open>The number of runes a \<open>range\<close> loop over the string visits, each with its bytes.\<close>

function runes :: "string \<Rightarrow> string list" where
  "runes [] = []"
| "runes (a # s) =
     (let n = max 1 (utf8_len (a # s)) in take n (a # s) # runes (drop n (a # s)))"
  by pat_completeness auto
termination
  by (relation "measure length") (auto simp: Let_def max_def)

lemma concat_runes: "concat (runes s) = s"
  by (induction s rule: runes.induct) (auto simp: Let_def simp del: utf8_len.simps)

subsection \<open>The scanner\<close>

datatype jctx = ObjectKey | ObjectValue | ArrayValue

datatype jstate =
    BeginValue | BeginValueOrEmpty | BeginString | BeginStringOrEmpty
  | InString | InEsc | InEscU nat
  | NumNeg | Num0 | Num1 | NumDot | NumDot0 | NumE | NumESign | NumE0
  | Lit string | EndValue | EndTop | JError

type_synonym scanner = "jstate \<times> jctx list"

definition max_nesting_depth :: nat where
  "max_nesting_depth = 10000"

definition is_jspace :: "char \<Rightarrow> bool" where
  "is_jspace c \<longleftrightarrow> c = CHR '' '' \<or> c = CHR 0x09 \<or> c = CHR 0x0D \<or> c = CHR 0x0A"

definition is_hex :: "char \<Rightarrow> bool" where
  "is_hex c \<longleftrightarrow> is_digit c \<or> (97 \<le> byte c \<and> byte c \<le> 102) \<or> (65 \<le> byte c \<and> byte c \<le> 70)"

definition push_ctx :: "jctx \<Rightarrow> jstate \<Rightarrow> jctx list \<Rightarrow> scanner" where
  "push_ctx p st ps = (if length ps < max_nesting_depth then (st, p # ps) else (JError, p # ps))"

definition pop_ctx :: "jctx list \<Rightarrow> scanner" where
  "pop_ctx ps = (if tl ps = [] then (EndTop, []) else (EndValue, tl ps))"

definition end_value :: "jctx list \<Rightarrow> char \<Rightarrow> scanner" where
  "end_value ps c =
     (case ps of
        [] \<Rightarrow> if is_jspace c then (EndTop, []) else (JError, [])
      | p # q \<Rightarrow>
          if is_jspace c then (EndValue, ps)
          else (case p of
            ObjectKey \<Rightarrow> if c = CHR '':'' then (BeginValue, ObjectValue # q) else (JError, ps)
          | ObjectValue \<Rightarrow>
              if c = CHR '','' then (BeginString, ObjectKey # q)
              else if c = CHR ''}'' then pop_ctx ps else (JError, ps)
          | ArrayValue \<Rightarrow>
              if c = CHR '','' then (BeginValue, ps)
              else if c = CHR '']'' then pop_ctx ps else (JError, ps)))"

definition begin_string :: "jctx list \<Rightarrow> char \<Rightarrow> scanner" where
  "begin_string ps c =
     (if is_jspace c then (BeginString, ps)
      else if c = CHR 0x22 then (InString, ps) else (JError, ps))"

definition begin_value :: "jctx list \<Rightarrow> char \<Rightarrow> scanner" where
  "begin_value ps c =
     (if is_jspace c then (BeginValue, ps)
      else if c = CHR ''{'' then push_ctx ObjectKey BeginStringOrEmpty ps
      else if c = CHR ''['' then push_ctx ArrayValue BeginValueOrEmpty ps
      else if c = CHR 0x22 then (InString, ps)
      else if c = CHR ''-'' then (NumNeg, ps)
      else if c = CHR ''0'' then (Num0, ps)
      else if c = CHR ''t'' then (Lit ''rue'', ps)
      else if c = CHR ''f'' then (Lit ''alse'', ps)
      else if c = CHR ''n'' then (Lit ''ull'', ps)
      else if is_digit c then (Num1, ps)
      else (JError, ps))"

definition num_rest :: "jctx list \<Rightarrow> char \<Rightarrow> scanner" where
  "num_rest ps c =
     (if c = CHR ''.'' then (NumDot, ps)
      else if c = CHR ''e'' \<or> c = CHR ''E'' then (NumE, ps) else end_value ps c)"

text \<open>One byte of \<open>scanner.step\<close>.\<close>

fun jstep :: "scanner \<Rightarrow> char \<Rightarrow> scanner" where
  "jstep (BeginValue, ps) c = begin_value ps c"
| "jstep (BeginValueOrEmpty, ps) c =
     (if is_jspace c then (BeginValueOrEmpty, ps)
      else if c = CHR '']'' then end_value ps c else begin_value ps c)"
| "jstep (BeginString, ps) c = begin_string ps c"
| "jstep (BeginStringOrEmpty, ps) c =
     (if is_jspace c then (BeginStringOrEmpty, ps)
      else if c = CHR ''}'' then end_value (ObjectValue # tl ps) c else begin_string ps c)"
| "jstep (InString, ps) c =
     (if c = CHR 0x22 then (EndValue, ps)
      else if c = CHR 0x5C then (InEsc, ps)
      else if byte c < 32 then (JError, ps) else (InString, ps))"
| "jstep (InEsc, ps) c =
     (if c \<in> set [CHR ''b'', CHR ''f'', CHR ''n'', CHR ''r'', CHR ''t'', CHR 0x5C, CHR ''/'', CHR 0x22]
      then (InString, ps)
      else if c = CHR ''u'' then (InEscU 3, ps) else (JError, ps))"
| "jstep (InEscU n, ps) c =
     (if is_hex c then (if n = 0 then (InString, ps) else (InEscU (n - 1), ps)) else (JError, ps))"
| "jstep (NumNeg, ps) c =
     (if c = CHR ''0'' then (Num0, ps) else if is_digit c then (Num1, ps) else (JError, ps))"
| "jstep (Num1, ps) c = (if is_digit c then (Num1, ps) else num_rest ps c)"
| "jstep (Num0, ps) c = num_rest ps c"
| "jstep (NumDot, ps) c = (if is_digit c then (NumDot0, ps) else (JError, ps))"
| "jstep (NumDot0, ps) c =
     (if is_digit c then (NumDot0, ps)
      else if c = CHR ''e'' \<or> c = CHR ''E'' then (NumE, ps) else end_value ps c)"
| "jstep (NumE, ps) c =
     (if c = CHR ''+'' \<or> c = CHR ''-'' then (NumESign, ps)
      else if is_digit c then (NumE0, ps) else (JError, ps))"
| "jstep (NumESign, ps) c = (if is_digit c then (NumE0, ps) else (JError, ps))"
| "jstep (NumE0, ps) c = (if is_digit c then (NumE0, ps) else end_value ps c)"
| "jstep (Lit w, ps) c =
     (case w of x # xs \<Rightarrow> if c = x then (if xs = [] then (EndValue, ps) else (Lit xs, ps)) else (JError, ps)
      | [] \<Rightarrow> (JError, ps))"
| "jstep (EndValue, ps) c = end_value ps c"
| "jstep (EndTop, ps) c = (if is_jspace c then (EndTop, ps) else (JError, ps))"
| "jstep (JError, ps) c = (JError, ps)"

definition jscan :: "scanner \<Rightarrow> string \<Rightarrow> scanner" where
  "jscan sc s = foldl jstep sc s"

lemma jscan_Nil [simp]: "jscan sc [] = sc"
  by (simp add: jscan_def)

lemma jscan_Cons [simp]: "jscan sc (c # s) = jscan (jstep sc c) s"
  by (simp add: jscan_def)

lemma jscan_append: "jscan sc (s @ t) = jscan (jscan sc s) t"
  by (simp add: jscan_def)

text \<open>\<open>scanner.eof\<close>: the value is complete, possibly after the number it ended in.\<close>

definition jaccept :: "scanner \<Rightarrow> bool" where
  "jaccept sc \<longleftrightarrow> fst sc = EndTop \<or> fst (jstep sc (CHR '' '')) = EndTop"

definition json_valid :: "string \<Rightarrow> bool" where
  "json_valid s \<longleftrightarrow> jaccept (jscan (BeginValue, []) s)"

subsection \<open>Compaction and quoting\<close>

definition hex_digit :: "nat \<Rightarrow> char" where
  "hex_digit n = (if n < 10 then char_of (48 + n) else char_of (87 + n))"

definition u00 :: "char \<Rightarrow> string" where
  "u00 c = [CHR 0x5C, CHR ''u'', CHR ''0'', CHR ''0'', hex_digit (byte c div 16), hex_digit (byte c mod 16)]"

definition html_char :: "char \<Rightarrow> bool" where
  "html_char c \<longleftrightarrow> c = CHR ''<'' \<or> c = CHR ''>'' \<or> c = CHR ''&''"

text \<open>The length (3 or 0) of an encoding of U+2028 or U+2029 at the head of the string.\<close>

fun line_sep :: "string \<Rightarrow> bool" where
  "line_sep (a # b # c # s) =
     (a = CHR 0xE2 \<and> b = CHR 0x80 \<and> (c = CHR 0xA8 \<or> c = CHR 0xA9))"
| "line_sep s = False"

definition u202 :: "string \<Rightarrow> string" where
  "u202 s = [CHR 0x5C, CHR ''u'', CHR ''2'', CHR ''0'', CHR ''2'', hex_digit (byte (s ! 2) mod 16)]"

text \<open>
  \<open>appendCompact\<close>: \<open>skip\<close> counts the bytes already emitted as an escape, \<open>esc\<close> is the
  HTML-escaping flag (set by \<open>json.Marshal\<close>, unset by \<open>json.Compact\<close>).
\<close>

fun compact_from :: "bool \<Rightarrow> scanner \<Rightarrow> nat \<Rightarrow> string \<Rightarrow> string option" where
  "compact_from esc sc skip [] = (if jaccept sc then Some [] else None)"
| "compact_from esc sc skip (c # s) =
     (let sc' = jstep sc c in
      if fst sc' = JError then None
      else if 0 < skip then compact_from esc sc' (skip - 1) s
      else if esc \<and> html_char c then map_option (\<lambda>t. u00 c @ t) (compact_from esc sc' 0 s)
      else if esc \<and> line_sep (c # s) then
        map_option (\<lambda>t. u202 (c # s) @ t) (compact_from esc sc' 2 s)
      else if is_jspace c \<and> fst sc \<noteq> InString then compact_from esc sc' 0 s
      else map_option (\<lambda>t. c # t) (compact_from esc sc' 0 s))"

definition json_compact :: "bool \<Rightarrow> string \<Rightarrow> string option" where
  "json_compact esc s = compact_from esc (BeginValue, []) 0 s"

text \<open>The quoted form of a string, with HTML escaping: \<open>appendString\<close> under \<open>json.Marshal\<close>.\<close>

function quote_from :: "string \<Rightarrow> string" where
  "quote_from [] = []"
| "quote_from (c # s) =
     (if byte c < 128 then
        (if c = CHR 0x5C \<or> c = CHR 0x22 then [CHR 0x5C, c]
         else if c = CHR 0x08 then [CHR 0x5C, CHR ''b'']
         else if c = CHR 0x0C then [CHR 0x5C, CHR ''f'']
         else if c = CHR 0x0A then [CHR 0x5C, CHR ''n'']
         else if c = CHR 0x0D then [CHR 0x5C, CHR ''r'']
         else if c = CHR 0x09 then [CHR 0x5C, CHR ''t'']
         else if byte c < 32 \<or> html_char c then u00 c else [c]) @ quote_from s
      else if utf8_len (c # s) = 0 then CHR 0x5C # ''ufffd'' @ quote_from s
      else if line_sep (c # s) then u202 (c # s) @ quote_from (drop 3 (c # s))
      else take (utf8_len (c # s)) (c # s) @ quote_from (drop (utf8_len (c # s)) (c # s)))"
  by pat_completeness auto
termination
proof (relation "measure length", goal_cases)
  case (5 c s)
  then show ?case using utf8_len_le [of "c # s"] by (cases "utf8_len (c # s)") auto
qed auto

definition json_quote :: "string \<Rightarrow> string" where
  "json_quote s = CHR 0x22 # quote_from s @ [CHR 0x22]"

subsection \<open>No line break survives\<close>

text \<open>An SSE field ends at a line feed or a carriage return.\<close>

definition no_break :: "string \<Rightarrow> bool" where
  "no_break s \<longleftrightarrow> CHR 0x0A \<notin> set s \<and> CHR 0x0D \<notin> set s"

lemma no_break_Nil [simp]: "no_break []"
  by (simp add: no_break_def)

lemma no_break_append [simp]: "no_break (s @ t) \<longleftrightarrow> no_break s \<and> no_break t"
  by (auto simp: no_break_def)

lemma no_break_Cons:
  "no_break (c # s) \<longleftrightarrow> c \<noteq> CHR 0x0A \<and> c \<noteq> CHR 0x0D \<and> no_break s"
  by (auto simp: no_break_def)

lemma no_break_concat: "no_break (concat ss) \<longleftrightarrow> list_all no_break ss"
  by (induction ss) auto

lemma no_break_take: "no_break s \<Longrightarrow> no_break (take n s)"
  by (auto simp: no_break_def dest: in_set_takeD)

lemma no_break_high: "(\<And>c. c \<in> set s \<Longrightarrow> 32 \<le> byte c) \<Longrightarrow> no_break s"
  by (force simp: no_break_def)

lemma no_break_graph: "list_all graph_char s \<Longrightarrow> no_break s"
  by (rule no_break_high) (auto simp: list_all_iff graph_char_def)

lemma hex_digit_high: "n < 16 \<Longrightarrow> 32 \<le> byte (hex_digit n)"
  by (simp add: hex_digit_def)

lemma no_break_hex_digit: "n < 16 \<Longrightarrow> no_break [hex_digit n]"
  by (intro no_break_high) (simp add: hex_digit_high)

lemma no_break_u00 [simp]: "no_break (u00 c)"
proof -
  have "byte c div 16 < 16" using byte_less_256 [of c] by linarith
  then show ?thesis
    using hex_digit_high [of "byte c div 16"] hex_digit_high [of "byte c mod 16"]
    by (intro no_break_high) (auto simp: u00_def)
qed

lemma no_break_u202 [simp]: "no_break (u202 s)"
  using hex_digit_high [of "byte (s ! 2) mod 16"]
  by (intro no_break_high) (auto simp: u202_def)

lemma jstep_JError [simp]: "fst (jstep (JError, ps) c) = JError"
  by simp

lemma jscan_JError: "fst sc = JError \<Longrightarrow> fst (jscan sc s) = JError"
  by (induction s arbitrary: sc) (auto simp: split_paired_all)

lemma not_jaccept_JError: "fst sc = JError \<Longrightarrow> \<not> jaccept sc"
  by (cases sc) (simp add: jaccept_def)

text \<open>A line break is white space outside strings and an error inside them.\<close>

lemma jstep_break_in_string:
  "byte c < 32 \<Longrightarrow> fst sc = InString \<Longrightarrow> fst (jstep sc c) = JError"
  by (cases sc) auto

lemma compact_from_no_break: "compact_from esc sc skip s = Some t \<Longrightarrow> no_break t"
proof (induction s arbitrary: esc sc skip t)
  case (Cons c s)
  have br: "c \<noteq> CHR 0x0A \<and> c \<noteq> CHR 0x0D"
    if "fst (jstep sc c) \<noteq> JError" "\<not> (is_jspace c \<and> fst sc \<noteq> InString)"
    using that jstep_break_in_string [of c sc] by (auto simp: is_jspace_def)
  show ?case
    using Cons.prems br
    by (auto simp: Let_def no_break_Cons dest: Cons.IH split: if_splits)
qed (auto split: if_splits)

lemma json_compact_no_break: "json_compact esc s = Some t \<Longrightarrow> no_break t"
  unfolding json_compact_def by (rule compact_from_no_break)

text \<open>Compaction succeeds on every valid document.\<close>

lemma compact_from_total: "jaccept (jscan sc s) \<Longrightarrow> \<exists>t. compact_from esc sc skip s = Some t"
proof (induction s arbitrary: sc skip)
  case (Cons c s)
  from Cons.prems have "fst (jstep sc c) \<noteq> JError"
    using jscan_JError not_jaccept_JError by fastforce
  moreover from Cons.prems have acc: "jaccept (jscan (jstep sc c) s)" by simp
  ultimately show ?case
    using Cons.IH [OF acc, of 0] Cons.IH [OF acc, of 2] Cons.IH [OF acc, of "skip - 1"]
    by (auto simp: Let_def)
qed simp

lemma json_valid_compact: "json_valid s \<Longrightarrow> \<exists>t. json_compact esc s = Some t"
  unfolding json_valid_def json_compact_def by (rule compact_from_total)

lemma quote_from_no_break: "no_break (quote_from s)"
proof (induction s rule: quote_from.induct)
  case (2 c s)
  show ?case
  proof (cases "byte c < 128")
    case True
    with "2.IH"(1) show ?thesis by (auto simp: no_break_Cons html_char_def)
  next
    case False
    have "32 \<le> byte d" if "d \<in> set (take (utf8_len (c # s)) (c # s))" for d
      using that utf8_len_high [of c d s] False by simp
    then have "no_break (take (utf8_len (c # s)) (c # s))"
      by (rule no_break_high)
    with False "2.IH" show ?thesis
      by (auto simp: no_break_Cons simp del: utf8_len.simps)
  qed
qed simp

lemma json_quote_no_break [simp]: "no_break (json_quote s)"
  by (simp add: json_quote_def quote_from_no_break no_break_Cons)

end
