(* ===== verification/Go_Encoding.thy ===== *)
theory Go_Encoding
  imports Go_Strings
begin

text \<open>
  \<open>encoding/hex\<close> and \<open>encoding/base64\<close> (standard alphabet, padded) as the value mapper
  and the identifier generators use them, and their round trips.
\<close>

subsection \<open>Hexadecimal\<close>

definition hex_val :: "char \<Rightarrow> nat option" where
  "hex_val c =
     (if 48 \<le> byte c \<and> byte c \<le> 57 then Some (byte c - 48)
      else if 97 \<le> byte c \<and> byte c \<le> 102 then Some (byte c - 87)
      else if 65 \<le> byte c \<and> byte c \<le> 70 then Some (byte c - 55)
      else None)"

definition hex_lower :: "nat \<Rightarrow> char" where
  "hex_lower n = char_of (if n < 10 then 48 + n else 87 + n)"

text \<open>\<open>hex.DecodeString\<close>; odd length and foreign characters are errors.\<close>

fun hex_decode :: "string \<Rightarrow> string option" where
  "hex_decode [] = Some []"
| "hex_decode [c] = None"
| "hex_decode (a # b # s) =
     (case (hex_val a, hex_val b) of
        (Some x, Some y) \<Rightarrow> map_option (\<lambda>t. char_of (16 * x + y) # t) (hex_decode s)
      | _ \<Rightarrow> None)"

text \<open>\<open>hex.EncodeToString\<close>.\<close>

fun hex_encode :: "string \<Rightarrow> string" where
  "hex_encode [] = []"
| "hex_encode (c # s) = hex_lower (byte c div 16) # hex_lower (byte c mod 16) # hex_encode s"

lemma hex_val_lower: "n < 16 \<Longrightarrow> hex_val (hex_lower n) = Some n"
  by (auto simp: hex_val_def hex_lower_def)

lemma byte_div_16: "byte c div 16 < 16"
  using byte_less_256 [of c] by linarith

lemma hex_decode_encode: "hex_decode (hex_encode s) = Some s"
proof (induction s)
  case (Cons c s)
  have "16 * (byte c div 16) + byte c mod 16 = byte c" by simp
  with Cons show ?case by (simp add: hex_val_lower byte_div_16 del: mult_div_mod_eq)
qed simp

lemma length_hex_encode [simp]: "length (hex_encode s) = 2 * length s"
  by (induction s) auto

lemma hex_decode_length: "hex_decode s = Some t \<Longrightarrow> length s = 2 * length t"
  by (induction s arbitrary: t rule: hex_decode.induct) (auto split: option.splits)

subsection \<open>Base64\<close>

definition b64_char :: "nat \<Rightarrow> char" where
  "b64_char n =
     char_of (if n < 26 then 65 + n else if n < 52 then 71 + n else if n < 62 then n - 4
              else if n = 62 then 43 else 47)"

fun b64_encode :: "string \<Rightarrow> string" where
  "b64_encode [] = []"
| "b64_encode [a] =
     [b64_char (byte a div 4), b64_char (byte a mod 4 * 16), CHR ''='', CHR ''='']"
| "b64_encode [a, b] =
     [b64_char (byte a div 4), b64_char (byte a mod 4 * 16 + byte b div 16),
      b64_char (byte b mod 16 * 4), CHR ''='']"
| "b64_encode (a # b # c # s) =
     b64_char (byte a div 4) # b64_char (byte a mod 4 * 16 + byte b div 16)
     # b64_char (byte b mod 16 * 4 + byte c div 64) # b64_char (byte c mod 64) # b64_encode s"

text \<open>The decoder a client uses, as the reference for the round trip.\<close>

definition b64_val :: "char \<Rightarrow> nat option" where
  "b64_val c =
     (if 65 \<le> byte c \<and> byte c \<le> 90 then Some (byte c - 65)
      else if 97 \<le> byte c \<and> byte c \<le> 122 then Some (byte c - 71)
      else if 48 \<le> byte c \<and> byte c \<le> 57 then Some (byte c + 4)
      else if byte c = 43 then Some 62 else if byte c = 47 then Some 63 else None)"

fun b64_decode :: "string \<Rightarrow> string option" where
  "b64_decode [] = Some []"
| "b64_decode (p # q # r # t # s) =
     (case (b64_val p, b64_val q) of
        (Some v, Some w) \<Rightarrow>
          if r = CHR ''='' then
            (if t = CHR ''='' \<and> s = [] then Some [char_of (v * 4 + w div 16)] else None)
          else (case b64_val r of
            None \<Rightarrow> None
          | Some x \<Rightarrow>
              if t = CHR ''='' then
                (if s = [] then Some [char_of (v * 4 + w div 16), char_of (w mod 16 * 16 + x div 4)]
                 else None)
              else (case b64_val t of
                None \<Rightarrow> None
              | Some y \<Rightarrow>
                  map_option (\<lambda>u. char_of (v * 4 + w div 16) # char_of (w mod 16 * 16 + x div 4)
                    # char_of (x mod 4 * 64 + y) # u) (b64_decode s)))
      | _ \<Rightarrow> None)"
| "b64_decode s = None"

lemma b64_val_char: "n < 64 \<Longrightarrow> b64_val (b64_char n) = Some n"
  by (auto simp: b64_val_def b64_char_def)

lemma b64_char_not_pad: "n < 64 \<Longrightarrow> b64_char n \<noteq> CHR ''=''"
proof
  assume "n < 64" "b64_char n = CHR ''=''"
  then have "b64_val (CHR ''='') = Some n" using b64_val_char by metis
  then show False by (simp add: b64_val_def)
qed

lemma char_of_eqI: "n = byte c \<Longrightarrow> char_of n = c"
  by simp

lemma b64_bounds:
  "byte a div 4 < 64" "byte a mod 4 * 16 + byte b div 16 < 64" "byte a mod 4 * 16 < 64"
  "byte a mod 16 * 4 + byte b div 64 < 64" "byte a mod 16 * 4 < 64" "byte a mod 64 < 64"
  using byte_less_256 [of a] byte_less_256 [of b] by linarith+

lemma b64_parts:
  "byte b div 16 div 16 = 0"
  "byte c div 64 div 4 = 0"
  "byte b div 16 mod 16 * 16 + byte b mod 16 = byte b"
  "byte c div 64 mod 4 * 64 + byte c mod 64 = byte c"
proof -
  have b: "byte b div 16 < 16" and c: "byte c div 64 < 4"
    using byte_less_256 [of b] byte_less_256 [of c] by linarith+
  then show "byte b div 16 div 16 = 0" "byte c div 64 div 4 = 0" by simp_all
  show "byte b div 16 mod 16 * 16 + byte b mod 16 = byte b"
    and "byte c div 64 mod 4 * 64 + byte c mod 64 = byte c"
    using b c by simp_all
qed

lemma b64_decode_encode: "b64_decode (b64_encode s) = Some s"
  by (induction s rule: b64_encode.induct)
     (simp_all add: b64_val_char b64_bounds b64_char_not_pad b64_parts)

end
