(* ===== verification/Wal_Mapper.thy ===== *)
theory Wal_Mapper
  imports Wal_Types Go_Json Go_Encoding
begin

text \<open>
  \<open>internal/wal/mapper.go\<close>: from the text form of a PostgreSQL value to the value the
  frame carries. \<open>float64\<close> arithmetic and the parsing and formatting of \<open>time.Time\<close> are
  the parameter \<open>go_lib\<close>; everything else is computed.
\<close>

subsection \<open>Parameters\<close>

record ('f, 't) go_lib =
  ParseFloat :: "string \<Rightarrow> 'f option"
  float_neg :: "'f \<Rightarrow> 'f"
  float_int :: "'f \<Rightarrow> int" \<comment> \<open>the conversion \<open>int(x)\<close>\<close>
  float_of_int :: "int \<Rightarrow> 'f"
  float_eq :: "'f \<Rightarrow> 'f \<Rightarrow> bool"
  float_fmt_g :: "'f \<Rightarrow> string" \<comment> \<open>the verb \<open>%g\<close>\<close>
  float_json :: "'f \<Rightarrow> string option" \<comment> \<open>\<open>encoding/json\<close>: \<open>None\<close> for NaN and infinities\<close>
  time_parse :: "string \<Rightarrow> string \<Rightarrow> 't option" \<comment> \<open>layout, value\<close>
  time_civil_utc :: "'t \<Rightarrow> 't" \<comment> \<open>\<open>time.Date\<close> of the same civil fields, in UTC\<close>
  time_rfc3339 :: "'t \<Rightarrow> string" \<comment> \<open>\<open>t.UTC().Format(time.RFC3339Nano)\<close>\<close>

record value_mapper =
  naiveTimestampAssumeUTC :: bool

definition defaultNaiveTimestampAssumeUTC :: bool where
  "defaultNaiveTimestampAssumeUTC = True"

subsection \<open>Type OIDs\<close>

abbreviation (input) "OIDInt2 \<equiv> (21 :: u32)"
abbreviation (input) "OIDInt4 \<equiv> (23 :: u32)"
abbreviation (input) "OIDInt8 \<equiv> (20 :: u32)"
abbreviation (input) "OIDFloat4 \<equiv> (700 :: u32)"
abbreviation (input) "OIDFloat8 \<equiv> (701 :: u32)"
abbreviation (input) "OIDBool \<equiv> (16 :: u32)"
abbreviation (input) "OIDText \<equiv> (25 :: u32)"
abbreviation (input) "OIDVarchar \<equiv> (1043 :: u32)"
abbreviation (input) "OIDBpchar \<equiv> (1042 :: u32)"
abbreviation (input) "OIDUUID \<equiv> (2950 :: u32)"
abbreviation (input) "OIDTimestamp \<equiv> (1114 :: u32)"
abbreviation (input) "OIDTimestampTZ \<equiv> (1184 :: u32)"
abbreviation (input) "OIDDate \<equiv> (1082 :: u32)"
abbreviation (input) "OIDTime \<equiv> (1083 :: u32)"
abbreviation (input) "OIDTimeTZ \<equiv> (1266 :: u32)"
abbreviation (input) "OIDInterval \<equiv> (1186 :: u32)"
abbreviation (input) "OIDJSONB \<equiv> (3802 :: u32)"
abbreviation (input) "OIDJSON \<equiv> (114 :: u32)"
abbreviation (input) "OIDBytea \<equiv> (17 :: u32)"
abbreviation (input) "OIDNumeric \<equiv> (1700 :: u32)"
abbreviation (input) "OIDInet \<equiv> (869 :: u32)"
abbreviation (input) "OIDCidr \<equiv> (650 :: u32)"
abbreviation (input) "OIDInt2Array \<equiv> (1005 :: u32)"
abbreviation (input) "OIDInt4Array \<equiv> (1007 :: u32)"
abbreviation (input) "OIDInt8Array \<equiv> (1016 :: u32)"
abbreviation (input) "OIDTextArray \<equiv> (1009 :: u32)"
abbreviation (input) "OIDVarcharArray \<equiv> (1015 :: u32)"
abbreviation (input) "OIDBpcharArray \<equiv> (1014 :: u32)"
abbreviation (input) "OIDFloat4Array \<equiv> (1021 :: u32)"
abbreviation (input) "OIDFloat8Array \<equiv> (1022 :: u32)"
abbreviation (input) "OIDBoolArray \<equiv> (1000 :: u32)"
abbreviation (input) "OIDUUIDArray \<equiv> (2951 :: u32)"
abbreviation (input) "OIDNumericArray \<equiv> (1231 :: u32)"

definition arrayElementOID :: "u32 \<Rightarrow> u32 option" where
  "arrayElementOID = map_of
     [(OIDInt2Array, OIDInt2), (OIDInt4Array, OIDInt4), (OIDInt8Array, OIDInt8),
      (OIDTextArray, OIDText), (OIDVarcharArray, OIDVarchar), (OIDBpcharArray, OIDBpchar),
      (OIDFloat4Array, OIDFloat4), (OIDFloat8Array, OIDFloat8), (OIDBoolArray, OIDBool),
      (OIDUUIDArray, OIDUUID), (OIDNumericArray, OIDNumeric)]"

subsection \<open>Errors\<close>

datatype map_err =
    ErrParseInt u32 string
  | ErrParseFloat u32 string
  | ErrBool string
  | ErrTimestamp string
  | ErrTimestampTZ string
  | ErrInvalidJSON u32 string
  | ErrByteaPrefix string
  | ErrByteaSize
  | ErrByteaHex
  | ErrArrayElem string map_err

subsection \<open>Timestamps\<close>

definition pgTimestampFormats :: "string list" where
  "pgTimestampFormats =
     [''2006-01-02T15:04:05.999999999'', ''2006-01-02 15:04:05.999999999'',
      ''2006-01-02T15:04:05'', ''2006-01-02 15:04:05'']"

definition pgTimestampTZFormats :: "string list" where
  "pgTimestampTZFormats =
     [''2006-01-02T15:04:05.999999999Z07:00'', ''2006-01-02T15:04:05Z07:00'',
      ''2006-01-02T15:04:05.999999999Z07:00'', ''2006-01-02 15:04:05.999999999Z07:00'',
      ''2006-01-02 15:04:05.999999999-07:00'', ''2006-01-02 15:04:05.999999999+07:00'',
      ''2006-01-02 15:04:05Z07:00'', ''2006-01-02 15:04:05-07:00'',
      ''2006-01-02 15:04:05+07:00'', ''2006-01-02 15:04:05.999999999 UTC'',
      ''2006-01-02 15:04:05.999999999 +0000'', ''2006-01-02 15:04:05 +0000'']"

text \<open>The first layout that parses.\<close>

fun first_parse :: "('f, 't) go_lib \<Rightarrow> string list \<Rightarrow> string \<Rightarrow> 't option" where
  "first_parse L [] s = None"
| "first_parse L (layout # layouts) s =
     (case time_parse L layout s of Some t \<Rightarrow> Some t | None \<Rightarrow> first_parse L layouts s)"

definition parseNaiveTimestamp :: "('f, 't) go_lib \<Rightarrow> value_mapper \<Rightarrow> string \<Rightarrow> 't option" where
  "parseNaiveTimestamp L m s =
     (case first_parse L pgTimestampFormats s of
        None \<Rightarrow> None
      | Some t \<Rightarrow> Some (if naiveTimestampAssumeUTC m then time_civil_utc L t else t))"

text \<open>PostgreSQL prints whole-hour offsets as two digits; the layouts want \<open>hh:mm\<close>.\<close>

definition normalizeOffset :: "string \<Rightarrow> string" where
  "normalizeOffset s =
     (let n = length s in
      if 3 \<le> n then
        (let last = drop (n - 3) s in
         if (last ! 0 = CHR ''+'' \<or> last ! 0 = CHR ''-'') \<and> is_digit (last ! 1) \<and> is_digit (last ! 2)
         then
           (if 3 < n then
              (let prev = s ! (n - 4) in
               if is_digit prev \<or> prev = CHR ''.'' then take (n - 3) s @ take 3 last @ '':00'' else s)
            else s)
         else s)
      else s)"

definition parseTimestampTZ :: "('f, 't) go_lib \<Rightarrow> string \<Rightarrow> 't option" where
  "parseTimestampTZ L s =
     (case first_parse L pgTimestampTZFormats s of
        Some t \<Rightarrow> Some t
      | None \<Rightarrow> first_parse L pgTimestampTZFormats (normalizeOffset s))"

subsection \<open>Intervals\<close>

text \<open>
  One suffix of a unit: the number before its first occurrence, and the rest of the
  string without number and suffix. \<open>None\<close> when the suffix or the number is missing.
\<close>

definition take_unit :: "string \<Rightarrow> string \<Rightarrow> (int \<times> string) option" where
  "take_unit suf rest =
     (case str_index rest suf of
        None \<Rightarrow> None
      | Some idx \<Rightarrow>
          if 0 < idx then
            (let head_part = trim_space (take idx rest);
                 tokens = str_fields head_part
             in if tokens \<noteq> [] then
                  (case atoi (last tokens) of
                     None \<Rightarrow> None
                   | Some n \<Rightarrow>
                       let after = drop (idx + length suf) rest;
                           before2 = str_join (butlast tokens) '' ''
                       in Some (n, trim_space (before2 @ '' '' @ after)))
                else None)
          else None)"

text \<open>The inner loop over the suffixes of a unit, plural first, left at the first success.\<close>

definition interval_unit :: "string \<Rightarrow> string \<Rightarrow> string \<Rightarrow> int \<times> string" where
  "interval_unit singular plural rest =
     (case take_unit plural rest of
        Some r \<Rightarrow> r
      | None \<Rightarrow> (case take_unit singular rest of Some r \<Rightarrow> r | None \<Rightarrow> (0, rest)))"

text \<open>The time part \<open>[-]h:m:s\<close>; \<open>None\<close> when it does not parse.\<close>

definition interval_time :: "('f, 't) go_lib \<Rightarrow> string \<Rightarrow> (int \<times> int \<times> 'f) option" where
  "interval_time L rest0 =
     (let negative = prefix ''-'' rest0;
          rest = (if negative then drop 1 rest0 else rest0)
      in case str_split_n 3 (CHR '':'') rest of
           [p0, p1, p2] \<Rightarrow>
             (case (atoi p0, atoi p1, ParseFloat L p2) of
                (Some h, Some m, Some sec) \<Rightarrow>
                  if negative then Some (wrap_int (- h), wrap_int (- m), float_neg L sec)
                  else Some (h, m, sec)
              | _ \<Rightarrow> None)
         | _ \<Rightarrow> None)"

definition nonzero_field :: "int \<Rightarrow> string \<Rightarrow> string" where
  "nonzero_field n u = (if n \<noteq> 0 then itoa n @ u else [])"

definition seconds_field :: "('f, 't) go_lib \<Rightarrow> 'f \<Rightarrow> string" where
  "seconds_field L secs =
     (if float_eq L secs (float_of_int L 0) then []
      else if float_eq L secs (float_of_int L (float_int L secs))
      then itoa (float_int L secs) @ ''S''
      else float_fmt_g L secs @ ''S'')"

text \<open>The ISO 8601 text the builder writes.\<close>

definition iso_interval ::
  "('f, 't) go_lib \<Rightarrow> int \<Rightarrow> int \<Rightarrow> int \<Rightarrow> int \<Rightarrow> int \<Rightarrow> 'f \<Rightarrow> string" where
  "iso_interval L years months days hours mins secs =
     (let result = ''P'' @ nonzero_field years ''Y'' @ nonzero_field months ''M''
            @ nonzero_field days ''D''
            @ (if hours \<noteq> 0 \<or> mins \<noteq> 0 \<or> \<not> float_eq L secs (float_of_int L 0)
               then ''T'' @ nonzero_field hours ''H'' @ nonzero_field mins ''M'' @ seconds_field L secs
               else [])
      in if result = ''P'' then ''PT0S'' else result)"

definition parseInterval :: "('f, 't) go_lib \<Rightarrow> string \<Rightarrow> string" where
  "parseInterval L s0 =
     (let s = trim_space s0 in
      if s = [] then ''PT0S''
      else if prefix ''P'' s then s
      else
        (let (years, r1) = interval_unit ''year'' ''years'' s;
             (months, r2) = interval_unit ''mon'' ''mons'' r1;
             (days, r3) = interval_unit ''day'' ''days'' r2;
             rest = trim_space r3
         in if rest \<noteq> [] then
              (case interval_time L rest of
                 None \<Rightarrow> s
               | Some (h, m, sec) \<Rightarrow> iso_interval L years months days h m sec)
            else iso_interval L years months days 0 0 (float_of_int L 0)))"

subsection \<open>Arrays\<close>

definition skip_spaces :: "string \<Rightarrow> string" where
  "skip_spaces s = dropWhile (\<lambda>c. c = CHR '' '') s"

definition skip_comma :: "string \<Rightarrow> string" where
  "skip_comma s = (case s of c # cs \<Rightarrow> if c = CHR '','' then cs else s | [] \<Rightarrow> [])"

text \<open>The body of a quoted element and what follows its closing quote.\<close>

fun scan_quoted :: "string \<Rightarrow> string \<times> string" where
  "scan_quoted [] = ([], [])"
| "scan_quoted [c] = (if c = CHR 0x22 then ([], []) else ([c], []))"
| "scan_quoted (c # d # s) =
     (if c = CHR 0x5C then (case scan_quoted s of (v, r) \<Rightarrow> (d # v, r))
      else if c = CHR 0x22 then ([], d # s)
      else (case scan_quoted (d # s) of (v, r) \<Rightarrow> (c # v, r)))"

lemma scan_quoted_rest_le: "length (snd (scan_quoted s)) \<le> length s"
  by (induction s rule: scan_quoted.induct) (auto split: prod.splits)

lemma skip_spaces_le: "length (skip_spaces s) \<le> length s"
  by (simp add: skip_spaces_def length_dropWhile_le)

lemma skip_comma_le: "length (skip_comma s) \<le> length s"
  by (cases s) (auto simp: skip_comma_def)

function splitArrayElements :: "string \<Rightarrow> string list" where
  "splitArrayElements s =
     (case skip_spaces s of
        [] \<Rightarrow> []
      | c # cs \<Rightarrow>
          if c = CHR 0x22 then
            (case scan_quoted cs of
               (v, r) \<Rightarrow> v # splitArrayElements (skip_comma (skip_spaces r)))
          else
            trim_space (takeWhile (\<lambda>d. d \<noteq> CHR '','') (c # cs))
            # splitArrayElements (skip_comma (dropWhile (\<lambda>d. d \<noteq> CHR '','') (c # cs))))"
  by pat_completeness auto
termination
proof (relation "measure length", goal_cases)
  case (2 s c cs v r)
  have "length (skip_comma (skip_spaces r)) \<le> length r"
    using skip_comma_le [of "skip_spaces r"] skip_spaces_le [of r] by linarith
  also have "\<dots> \<le> length cs" using scan_quoted_rest_le [of cs] 2(3) by (metis snd_conv)
  finally show ?case using skip_spaces_le [of s] 2(1) by simp
next
  case (3 s c cs)
  show ?case
  proof (cases "c = CHR '',''")
    case True
    then show ?thesis using skip_spaces_le [of s] 3 by (simp add: skip_comma_def)
  next
    case False
    have "length (skip_comma (dropWhile (\<lambda>d. d \<noteq> CHR '','') cs)) \<le> length cs"
      by (rule order_trans [OF skip_comma_le length_dropWhile_le])
    with False show ?thesis using skip_spaces_le [of s] 3(1) by simp
  qed
qed simp

declare splitArrayElements.simps [simp del]

subsection \<open>Values\<close>

definition maxByteaSize :: nat where
  "maxByteaSize = 64 * 1024 * 1024"

definition is_array_oid :: "u32 \<Rightarrow> bool" where
  "is_array_oid oid \<longleftrightarrow> arrayElementOID oid \<noteq> None"

text \<open>The elements of the array types are scalar types, so arrays do not nest.\<close>

lemma array_elem_scalar: "arrayElementOID oid = Some e \<Longrightarrow> arrayElementOID e = None"
  by (auto simp: arrayElementOID_def split: if_splits)

function
  mapValue :: "('f, 't) go_lib \<Rightarrow> value_mapper \<Rightarrow> u32 \<Rightarrow> string \<Rightarrow> bool \<Rightarrow> map_err + 'f gval" and
  parseArray :: "('f, 't) go_lib \<Rightarrow> value_mapper \<Rightarrow> string \<Rightarrow> u32 \<Rightarrow> map_err + 'f gval"
where
  "mapValue L m oid s isNull =
     (if isNull then Inr GNil
      else if oid = OIDInt2 \<or> oid = OIDInt4 then
        (case atoi s of None \<Rightarrow> Inl (ErrParseInt oid s) | Some n \<Rightarrow> Inr (GInt n))
      else if oid = OIDInt8 then Inr (GStr s)
      else if oid = OIDFloat4 \<or> oid = OIDFloat8 then
        (case ParseFloat L s of None \<Rightarrow> Inl (ErrParseFloat oid s) | Some f \<Rightarrow> Inr (GFloat f))
      else if oid = OIDBool then
        (if s = ''t'' \<or> s = ''true'' then Inr (GBool True)
         else if s = ''f'' \<or> s = ''false'' then Inr (GBool False)
         else Inl (ErrBool s))
      else if oid = OIDText \<or> oid = OIDVarchar \<or> oid = OIDBpchar then Inr (GStr s)
      else if oid = OIDUUID then Inr (GStr s)
      else if oid = OIDNumeric then Inr (GStr s)
      else if oid = OIDTimestamp then
        (case parseNaiveTimestamp L m s of
           None \<Rightarrow> Inl (ErrTimestamp s) | Some t \<Rightarrow> Inr (GStr (time_rfc3339 L t)))
      else if oid = OIDTimestampTZ then
        (case parseTimestampTZ L s of
           None \<Rightarrow> Inl (ErrTimestampTZ s) | Some t \<Rightarrow> Inr (GStr (time_rfc3339 L t)))
      else if oid = OIDDate then Inr (GStr s)
      else if oid = OIDTime \<or> oid = OIDTimeTZ then Inr (GStr s)
      else if oid = OIDInterval then Inr (GStr (parseInterval L s))
      else if oid = OIDJSONB \<or> oid = OIDJSON then
        (if \<not> json_valid s then Inl (ErrInvalidJSON oid s) else Inr (GRaw s))
      else if oid = OIDBytea then
        (if \<not> prefix (CHR 0x5C # ''x'') s then Inl (ErrByteaPrefix s)
         else if maxByteaSize < length (drop 2 s) div 2 then Inl ErrByteaSize
         else (case hex_decode (drop 2 s) of
                 None \<Rightarrow> Inl ErrByteaHex | Some bs \<Rightarrow> Inr (GStr (b64_encode bs))))
      else if oid = OIDInet \<or> oid = OIDCidr then Inr (GStr s)
      else (case arrayElementOID oid of
              Some elemOID \<Rightarrow> parseArray L m s elemOID
            | None \<Rightarrow> Inr (GStr s)))"
| "parseArray L m s0 elemOID =
     (let s = trim_space s0 in
      if length s < 2 \<or> s ! 0 \<noteq> CHR ''{'' \<or> s ! (length s - 1) \<noteq> CHR ''}'' then Inr (GStr s)
      else
        (let inner = butlast (drop 1 s);
             trimmed = trim_space inner
         in if prefix ''{'' trimmed then Inr (GStr s)
            else if trimmed = [] then Inr (GList [])
            else bind_result
              (traverse (\<lambda>elem.
                 if equal_fold_ascii elem ''NULL'' then Inr GNil
                 else (case mapValue L m elemOID elem False of
                         Inl e \<Rightarrow> Inl (ErrArrayElem elem e) | Inr v \<Rightarrow> Inr v))
                 (splitArrayElements inner))
              (\<lambda>vs. Inr (GList vs))))"
  by pat_completeness auto
termination
proof (relation "measure (\<lambda>x. case x of Inl (L, m, oid, s, b) \<Rightarrow> if is_array_oid oid then 2 else 0
    | Inr (L, m, s, e) \<Rightarrow> if is_array_oid e then 3 else 1)", goal_cases)
  case (2 L m oid s isNull e)
  then show ?case by (auto simp: is_array_oid_def dest: array_elem_scalar)
qed (auto simp: is_array_oid_def)

declare mapValue.simps [simp del] parseArray.simps [simp del]

subsection \<open>Facts on single values\<close>

named_theorems map_value_eqs \<comment> \<open>the mapper on each family of types\<close>

lemma mapValue_null [map_value_eqs]: "mapValue L m oid s True = Inr GNil"
  by (subst mapValue.simps) simp

lemma mapValue_int [map_value_eqs]:
  "mapValue L m OIDInt2 s False =
     (case atoi s of None \<Rightarrow> Inl (ErrParseInt OIDInt2 s) | Some n \<Rightarrow> Inr (GInt n))"
  "mapValue L m OIDInt4 s False =
     (case atoi s of None \<Rightarrow> Inl (ErrParseInt OIDInt4 s) | Some n \<Rightarrow> Inr (GInt n))"
  by (subst mapValue.simps, simp)+

text \<open>The types whose text goes into the frame as it is.\<close>

definition verbatim_oid :: "u32 \<Rightarrow> bool" where
  "verbatim_oid oid \<longleftrightarrow>
     oid \<in> set [OIDInt8, OIDText, OIDVarchar, OIDBpchar, OIDUUID, OIDNumeric, OIDDate, OIDTime,
       OIDTimeTZ, OIDInet, OIDCidr]"

lemma mapValue_verbatim [map_value_eqs]: "verbatim_oid oid \<Longrightarrow> mapValue L m oid s False = Inr (GStr s)"
  unfolding verbatim_oid_def list.set insert_iff empty_iff
  by (elim disjE FalseE; hypsubst; subst mapValue.simps; simp)

lemma mapValue_json [map_value_eqs]:
  "mapValue L m OIDJSON s False = (if json_valid s then Inr (GRaw s) else Inl (ErrInvalidJSON OIDJSON s))"
  "mapValue L m OIDJSONB s False = (if json_valid s then Inr (GRaw s) else Inl (ErrInvalidJSON OIDJSONB s))"
  by (subst mapValue.simps, simp)+

lemma mapValue_bytea [map_value_eqs]:
  "mapValue L m OIDBytea (CHR 0x5C # ''x'' @ hex_encode bs) False =
     (if maxByteaSize < length bs then Inl ErrByteaSize else Inr (GStr (b64_encode bs)))"
  by (subst mapValue.simps) (simp add: hex_decode_encode)

lemma mapValue_array [map_value_eqs]:
  "arrayElementOID oid = Some e \<Longrightarrow> mapValue L m oid s False = parseArray L m s e"
  unfolding arrayElementOID_def
  by (drule map_of_SomeD, unfold list.set insert_iff empty_iff prod.inject,
      elim disjE conjE FalseE; hypsubst; subst mapValue.simps; simp add: arrayElementOID_def)

subsection \<open>Facts on arrays\<close>

text \<open>
  How the server prints an element in quotes: quotes and backslashes escaped by a
  backslash. This is the reference the splitter inverts.
\<close>

definition pg_escape :: "string \<Rightarrow> string" where
  "pg_escape e = concat (map (\<lambda>c. if c = CHR 0x22 \<or> c = CHR 0x5C then [CHR 0x5C, c] else [c]) e)"

definition pg_quote :: "string \<Rightarrow> string" where
  "pg_quote e = CHR 0x22 # pg_escape e @ [CHR 0x22]"

lemma scan_quoted_escape: "scan_quoted (pg_escape e @ CHR 0x22 # r) = (e, r)"
proof (induction e)
  case Nil
  show ?case by (cases r) (simp_all add: pg_escape_def)
next
  case (Cons c e)
  show ?case
  proof (cases "c = CHR 0x22 \<or> c = CHR 0x5C")
    case True
    with Cons show ?thesis by (auto simp: pg_escape_def)
  next
    case False
    obtain d t where dt: "pg_escape e @ CHR 0x22 # r = d # t"
      by (cases "pg_escape e @ CHR 0x22 # r") auto
    with False have "pg_escape (c # e) @ CHR 0x22 # r = c # d # t"
      by (simp add: pg_escape_def)
    with False Cons dt show ?thesis by simp
  qed
qed

lemma split_pg_quote:
  "splitArrayElements (pg_quote e @ t) = e # splitArrayElements (skip_comma (skip_spaces t))"
  by (subst splitArrayElements.simps) (simp add: pg_quote_def skip_spaces_def scan_quoted_escape)

lemma split_Nil [simp]: "splitArrayElements [] = []"
  by (simp add: splitArrayElements.simps skip_spaces_def)

lemma split_join_quoted: "splitArrayElements (str_join (map pg_quote es) '','') = es"
proof (induction es rule: induct_list012)
  case (2 e)
  show ?case using split_pg_quote [of e "[]"] by (simp add: skip_spaces_def skip_comma_def)
next
  case (3 e f es)
  then show ?case by (simp add: split_pg_quote skip_spaces_def skip_comma_def)
qed simp

text \<open>An unquoted element without blanks, commas and quotes.\<close>

definition plain_elem :: "string \<Rightarrow> bool" where
  "plain_elem e \<longleftrightarrow> e \<noteq> [] \<and> list_all graph_char e \<and> CHR '','' \<notin> set e \<and> CHR 0x22 \<notin> set e"

lemma split_plain:
  assumes "plain_elem e" and t: "t = [] \<or> (\<exists>u. t = CHR '','' # u)"
  shows "splitArrayElements (e @ t) = e # splitArrayElements (skip_comma t)"
proof -
  from assms(1) obtain c cs where e: "e = c # cs" "c \<noteq> CHR 0x22" "graph_char c"
    by (cases e) (auto simp: plain_elem_def)
  from e(3) have "c \<noteq> CHR '' ''" by (auto simp: graph_char_def)
  with e have sk: "skip_spaces (e @ t) = c # cs @ t" by (simp add: skip_spaces_def)
  have comma: "CHR '','' \<notin> set e" using assms(1) by (simp add: plain_elem_def)
  have tw: "takeWhile (\<lambda>d. d \<noteq> CHR '','') (c # cs @ t) = e"
    and dw: "dropWhile (\<lambda>d. d \<noteq> CHR '','') (c # cs @ t) = t"
    using takeWhile_sep [OF comma t] dropWhile_sep [OF comma t] by (simp_all only: e(1) append_Cons)
  have tr: "trim_space e = e"
    using assms(1) by (simp add: plain_elem_def trim_space_graphs)
  show ?thesis
    by (subst splitArrayElements.simps)
       (simp only: sk list.case tw dw tr e(2) if_False)
qed

lemma split_join_plain: "list_all plain_elem es \<Longrightarrow> splitArrayElements (str_join es '','') = es"
proof (induction es rule: induct_list012)
  case (2 e)
  then show ?case using split_plain [of e "[]"] by (simp add: skip_comma_def)
next
  case (3 e f es)
  then show ?case by (simp add: split_plain skip_comma_def)
qed simp

lemma parseArray_braces:
  "parseArray L m (CHR ''{'' # inner @ ''}'') e =
     (if prefix ''{'' (trim_space inner) then Inr (GStr (CHR ''{'' # inner @ ''}''))
      else if trim_space inner = [] then Inr (GList [])
      else bind_result
        (traverse (\<lambda>elem.
           if equal_fold_ascii elem ''NULL'' then Inr GNil
           else (case mapValue L m e elem False of
                   Inl err \<Rightarrow> Inl (ErrArrayElem elem err) | Inr v \<Rightarrow> Inr v))
           (splitArrayElements inner))
        (\<lambda>vs. Inr (GList vs)))"
proof -
  have "trim_space (CHR ''{'' # inner @ ''}'') = CHR ''{'' # inner @ ''}''"
    by (rule trim_space_graph) (simp_all add: graph_char_def)
  then show ?thesis
    by (subst parseArray.simps) (simp add: Let_def nth_append butlast_append)
qed

lemma join_quoted_shape:
  "es \<noteq> [] \<Longrightarrow> \<exists>t. str_join (map pg_quote es) '','' = CHR 0x22 # t @ [CHR 0x22]"
proof (induction es rule: induct_list012)
  case (2 e)
  show ?case by (simp add: pg_quote_def)
next
  case (3 e f es)
  then obtain t where "str_join (map pg_quote (f # es)) '','' = CHR 0x22 # t @ [CHR 0x22]" by auto
  then have "str_join (map pg_quote (e # f # es)) '','' =
      CHR 0x22 # (pg_escape e @ CHR 0x22 # CHR '','' # CHR 0x22 # t) @ [CHR 0x22]"
    by (simp add: pg_quote_def [of e])
  then show ?case by blast
qed simp

text \<open>
  C32: a text array with quoted elements comes back element by element: the text that PostgreSQL
  writes for an array of strings (quotes and backslashes escaped, any bytes inside the quotes)
  is mapped to the list of the strings, except that a quoted string spelled like NULL, in any
  case, is taken for the null value.
\<close>

theorem text_array_quoted:
  "mapValue L m OIDTextArray (CHR ''{'' # str_join (map pg_quote es) '','' @ ''}'') False =
     Inr (GList (map (\<lambda>e. if equal_fold_ascii e ''NULL'' then GNil else GStr e) es))"
proof (cases "es = []")
  case True
  then show ?thesis by (simp add: mapValue_array [of _ OIDText] arrayElementOID_def
      parseArray_braces [of L m "[]", simplified])
next
  case False
  let ?inner = "str_join (map pg_quote es) '',''"
  obtain t where t: "?inner = CHR 0x22 # t @ [CHR 0x22]"
    using join_quoted_shape [OF False] by blast
  have "trim_space ?inner = ?inner"
    by (rule trim_space_graph) (simp_all add: t graph_char_def)
  moreover have "\<not> prefix ''{'' ?inner" "?inner \<noteq> []" by (simp_all add: t)
  moreover have "traverse (\<lambda>elem. if equal_fold_ascii elem ''NULL'' then Inr GNil
        else (case mapValue L m OIDText elem False of
                Inl err \<Rightarrow> Inl (ErrArrayElem elem err) | Inr v \<Rightarrow> Inr v)) es =
      Inr (map (\<lambda>e. if equal_fold_ascii e ''NULL'' then GNil else GStr e) es)"
    by (rule traverse_map_Inr) (simp add: mapValue_verbatim verbatim_oid_def)
  ultimately show ?thesis
    by (simp add: mapValue_array [of _ OIDText] arrayElementOID_def parseArray_braces split_join_quoted)
qed

lemma itoa_hd: "hd (itoa n) = CHR ''-'' \<or> is_digit (hd (itoa n))"
  by (simp add: itoa_def hd_nat_digits)

lemma itoa_hd_ne: "\<not> is_digit c \<Longrightarrow> c \<noteq> CHR ''-'' \<Longrightarrow> hd (itoa n) \<noteq> c"
  using itoa_hd by metis

lemma lower_NULL: "map to_lower_char ''NULL'' = ''null''"
  by code_simp

lemma itoa_not_null: "\<not> equal_fold_ascii (itoa n) ''NULL''"
proof
  assume eq: "equal_fold_ascii (itoa n) ''NULL''"
  obtain c cs where c: "itoa n = c # cs" by (cases "itoa n") auto
  with itoa_hd [of n] have "to_lower_char c = c"
    by (auto simp: to_lower_char_def is_upper_def is_digit_def)
  moreover from eq have "map to_lower_char (itoa n) = ''null''"
    unfolding equal_fold_ascii_def lower_NULL .
  ultimately have "hd (itoa n) = CHR ''n''" using c by simp
  then show False using itoa_hd_ne [of "CHR ''n''" n] by (simp add: is_digit_def)
qed

lemma itoa_plain: "plain_elem (itoa n)"
proof -
  have "is_digit c \<or> c = CHR ''-''" if "c \<in> set (itoa n)" for c
    using that nat_digits_digit by (auto simp: itoa_def list_all_iff split: if_splits)
  moreover have "\<not> is_digit (CHR '','')" "\<not> is_digit (CHR 0x22)" by (simp_all add: is_digit_def)
  ultimately show ?thesis by (auto simp: plain_elem_def itoa_graph)
qed

lemma join_plain_shape:
  "list_all plain_elem es \<Longrightarrow> es \<noteq> [] \<Longrightarrow>
   (let s = str_join es '','' in s \<noteq> [] \<and> list_all graph_char s \<and> hd s = hd (hd es))"
proof (induction es rule: induct_list012)
  case (3 e f es)
  then have "let s = str_join (f # es) '','' in s \<noteq> [] \<and> list_all graph_char s \<and> hd s = hd f"
    by simp
  moreover have "graph_char (CHR '','')" by (simp add: graph_char_def)
  ultimately show ?case using 3(3) by (simp add: Let_def plain_elem_def)
qed (auto simp: plain_elem_def)

lemma int_array:
  assumes "list_all int_range ns"
  shows "mapValue L m OIDInt4Array (CHR ''{'' # str_join (map itoa ns) '','' @ ''}'') False =
     Inr (GList (map GInt ns))"
proof (cases "ns = []")
  case True
  then show ?thesis by (simp add: mapValue_array [of _ OIDInt4] arrayElementOID_def
      parseArray_braces [of L m "[]", simplified])
next
  case False
  let ?inner = "str_join (map itoa ns) '',''"
  have plain: "list_all plain_elem (map itoa ns)" by (simp add: list_all_iff itoa_plain)
  with False have sh: "?inner \<noteq> []" "list_all graph_char ?inner" "hd ?inner = hd (itoa (hd ns))"
    using join_plain_shape [OF plain] by (simp_all add: Let_def hd_map)
  from sh(2) have "trim_space ?inner = ?inner" by (rule trim_space_graphs)
  moreover have "\<not> prefix ''{'' ?inner"
    using sh(1,3) itoa_hd_ne [of "CHR ''{''" "hd ns"] by (cases ?inner) (auto simp: is_digit_def)
  moreover have "traverse (\<lambda>elem. if equal_fold_ascii elem ''NULL'' then Inr GNil
        else (case mapValue L m OIDInt4 elem False of
                Inl err \<Rightarrow> Inl (ErrArrayElem elem err) | Inr v \<Rightarrow> Inr v)) (map itoa ns) =
      Inr (map GInt ns)"
    using assms by (induction ns) (simp_all add: itoa_not_null mapValue_int atoi_itoa)
  ultimately show ?thesis
    using sh(1) by (simp add: mapValue_array [of _ OIDInt4] arrayElementOID_def parseArray_braces
        split_join_plain [OF plain])
qed

subsection \<open>Embedded JSON is valid JSON\<close>

primrec gval_ok :: "'f gval \<Rightarrow> bool" where
  "gval_ok GNil = True"
| "gval_ok (GInt n) = True"
| "gval_ok (GFloat f) = True"
| "gval_ok (GBool b) = True"
| "gval_ok (GStr s) = True"
| "gval_ok (GRaw s) = json_valid s"
| "gval_ok (GList vs) = list_all (\<lambda>b. b) (map gval_ok vs)"

definition result_ok :: "map_err + 'f gval \<Rightarrow> bool" where
  "result_ok r \<longleftrightarrow> (\<forall>v. r = Inr v \<longrightarrow> gval_ok v)"

lemma result_ok_simps [simp]: "result_ok (Inl e)" "result_ok (Inr v) \<longleftrightarrow> gval_ok v"
  by (simp_all add: result_ok_def)

lemma result_ok_if: "result_ok a \<Longrightarrow> result_ok b \<Longrightarrow> result_ok (if c then a else b)"
  by simp

lemma result_ok_option:
  "result_ok a \<Longrightarrow> (\<And>y. result_ok (f y)) \<Longrightarrow> result_ok (case x of None \<Rightarrow> a | Some y \<Rightarrow> f y)"
  by (cases x) simp_all

lemma result_ok_json: "result_ok (if \<not> json_valid s then Inl e else Inr (GRaw s))"
  by simp

lemma mapValue_scalar_ok: "arrayElementOID oid = None \<Longrightarrow> result_ok (mapValue L m oid s isNull)"
  by (subst mapValue.simps, simp only: option.case)
     (rule result_ok_json | rule result_ok_if | rule result_ok_option
      | simp only: result_ok_simps gval_ok.simps)+

lemma traverse_ok:
  "(\<And>x. result_ok (f x)) \<Longrightarrow> traverse f xs = Inr vs \<Longrightarrow> list_all gval_ok vs"
  by (induction xs arbitrary: vs) (auto simp: bind_result_Inr_iff result_ok_def)

lemma parseArray_ok: "arrayElementOID e = None \<Longrightarrow> result_ok (parseArray L m s0 e)"
proof -
  assume e: "arrayElementOID e = None"
  let ?f = "\<lambda>elem. if equal_fold_ascii elem ''NULL'' then Inr GNil
      else (case mapValue L m e elem False of Inl err \<Rightarrow> Inl (ErrArrayElem elem err) | Inr v \<Rightarrow> Inr v)"
  have elem: "result_ok (?f x)" for x
    using mapValue_scalar_ok [OF e, of L m x False] by (auto split: sum.split)
  have "result_ok (bind_result (traverse ?f xs) (\<lambda>vs. Inr (GList vs)))" for xs
    using traverse_ok [of ?f xs, OF elem] by (auto simp: result_ok_def bind_result_Inr_iff list_all_iff)
  then show ?thesis by (subst parseArray.simps) (simp add: Let_def)
qed

lemma mapValue_ok: "result_ok (mapValue L m oid s isNull)"
proof (cases "arrayElementOID oid")
  case None
  then show ?thesis by (rule mapValue_scalar_ok)
next
  case (Some e)
  then show ?thesis
    using parseArray_ok [OF array_elem_scalar [OF Some]]
    by (cases isNull) (simp_all add: mapValue_null mapValue_array)
qed

end
