(* ===== verification/Wal_Decode.thy ===== *)
theory Wal_Decode
  imports Wal_Mapper
begin

text \<open>
  \<open>internal/wal/relation.go\<close> and \<open>internal/wal/decode.go\<close>: the cache of table
  descriptions and the builder that turns the row messages between a BEGIN and its
  COMMIT into one transaction.
\<close>

subsection \<open>The relation cache\<close>

definition allowedPKOIDs :: "u32 \<Rightarrow> bool" where
  "allowedPKOIDs oid \<longleftrightarrow>
     oid \<in> set [OIDInt2, OIDInt4, OIDInt8, OIDUUID, OIDText]"

record relation_info =
  ri_oid :: u32
  ri_schema :: string
  ri_table :: string
  ri_pk_cols :: "string list"
  ri_pk_oid :: u32
  ri_columns :: "rel_col list"

type_synonym relation_cache = "u32 \<rightharpoonup> relation_info"

datatype relation_err = ErrCompositePK string nat | ErrNoPK string | ErrUnsupportedPKType string u32

definition newRelationCache :: relation_cache where
  "newRelationCache = Map.empty"

definition is_pk_col :: "rel_col \<Rightarrow> bool" where
  "is_pk_col col \<longleftrightarrow> and (col_flags col) 1 \<noteq> 0"

definition cache_update :: "relation_msg \<Rightarrow> relation_cache \<Rightarrow> relation_err + relation_cache" where
  "cache_update msg c =
     (let pkCols = filter is_pk_col (rm_columns msg);
          name = rm_namespace msg @ ''.'' @ rm_name msg
      in if 1 < length pkCols then Inl (ErrCompositePK name (length pkCols))
         else if length pkCols = 0 then Inl (ErrNoPK name)
         else
           (let pk = hd pkCols in
            if \<not> allowedPKOIDs (col_oid pk) then Inl (ErrUnsupportedPKType name (col_oid pk))
            else Inr (c(rm_id msg \<mapsto>
              \<lparr>ri_oid = rm_id msg, ri_schema = rm_namespace msg, ri_table = rm_name msg,
               ri_pk_cols = map col_name pkCols, ri_pk_oid = col_oid pk,
               ri_columns = rm_columns msg\<rparr>))))"

definition cache_get :: "relation_cache \<Rightarrow> u32 \<Rightarrow> relation_info option" where
  "cache_get c oid = c oid"

subsection \<open>Tuples\<close>

datatype decode_err =
    ErrUnknownRelation u32
  | ErrColumn string map_err
  | ErrPKNotFound string

definition textPK :: "tuple_col \<Rightarrow> string" where
  "textPK col =
     (if col_type col = TupleDataTypeNull then []
      else if col_type col = TupleDataTypeToast then []
      else col_data col)"

definition pk_col_name :: "relation_info \<Rightarrow> string" where
  "pk_col_name rel = (case ri_pk_cols rel of [] \<Rightarrow> [] | p # _ \<Rightarrow> p)"

type_synonym 'f decoded = "'f row \<times> string \<times> string"

text \<open>The loop of \<open>buildDataMap\<close>; it stops where the relation has no more columns.\<close>

fun data_loop ::
  "('f, 't) go_lib \<Rightarrow> value_mapper \<Rightarrow> string \<Rightarrow> tuple_col list \<Rightarrow> rel_col list \<Rightarrow> 'f decoded
   \<Rightarrow> decode_err + 'f decoded"
where
  "data_loop L m p [] rcs acc = Inr acc"
| "data_loop L m p (col # cols) [] acc = Inr acc"
| "data_loop L m p (col # cols) (rc # rcs) (data, pk, pkCol) =
     (case mapValue L m (col_oid rc) (col_data col) (col_type col = TupleDataTypeNull) of
        Inl e \<Rightarrow> Inl (ErrColumn (col_name rc) e)
      | Inr v \<Rightarrow>
          (let data' = gm_set (col_name rc) v data in
           if col_name rc = p then data_loop L m p cols rcs (data', textPK col, col_name rc)
           else data_loop L m p cols rcs (data', pk, pkCol)))"

definition buildDataMap ::
  "('f, 't) go_lib \<Rightarrow> value_mapper \<Rightarrow> tuple_data option \<Rightarrow> relation_info
   \<Rightarrow> decode_err + ('f row option \<times> string \<times> string)"
where
  "buildDataMap L m tuple rel =
     (case tuple of
        None \<Rightarrow> Inr (None, [], [])
      | Some cols \<Rightarrow>
          bind_result (data_loop L m (pk_col_name rel) cols (ri_columns rel) ([], [], []))
            (\<lambda>(data, pk, pkCol). Inr (Some data, pk, pkCol)))"

text \<open>The loop of \<open>buildChangedMap\<close>: unchanged TOASTed columns are left out.\<close>

fun changed_loop ::
  "('f, 't) go_lib \<Rightarrow> value_mapper \<Rightarrow> string \<Rightarrow> tuple_col list \<Rightarrow> rel_col list \<Rightarrow> 'f decoded
   \<Rightarrow> decode_err + 'f decoded"
where
  "changed_loop L m p [] rcs acc = Inr acc"
| "changed_loop L m p (col # cols) [] acc = Inr acc"
| "changed_loop L m p (col # cols) (rc # rcs) (data, pk, pkCol) =
     (if col_type col = TupleDataTypeToast then changed_loop L m p cols rcs (data, pk, pkCol)
      else
        (case mapValue L m (col_oid rc) (col_data col) (col_type col = TupleDataTypeNull) of
           Inl e \<Rightarrow> Inl (ErrColumn (col_name rc) e)
         | Inr v \<Rightarrow>
             (let data' = gm_set (col_name rc) v data in
              if col_name rc = p then changed_loop L m p cols rcs (data', textPK col, col_name rc)
              else changed_loop L m p cols rcs (data', pk, pkCol))))"

definition buildChangedMap ::
  "('f, 't) go_lib \<Rightarrow> value_mapper \<Rightarrow> tuple_data option \<Rightarrow> relation_info
   \<Rightarrow> decode_err + ('f row option \<times> string \<times> string)"
where
  "buildChangedMap L m tuple rel =
     (case tuple of
        None \<Rightarrow> Inr (None, [], [])
      | Some cols \<Rightarrow>
          bind_result (changed_loop L m (pk_col_name rel) cols (ri_columns rel) ([], [], []))
            (\<lambda>(data, pk, pkCol). Inr (Some data, pk, pkCol)))"

fun pk_loop :: "string \<Rightarrow> tuple_col list \<Rightarrow> rel_col list \<Rightarrow> (string \<times> string) option" where
  "pk_loop p [] rcs = None"
| "pk_loop p (col # cols) [] = None"
| "pk_loop p (col # cols) (rc # rcs) =
     (if col_name rc = p then Some (textPK col, col_name rc) else pk_loop p cols rcs)"

definition extractPKFromTuple ::
  "tuple_data option \<Rightarrow> relation_info \<Rightarrow> decode_err + (string \<times> string)" where
  "extractPKFromTuple tuple rel =
     (case tuple of
        None \<Rightarrow> Inr ([], [])
      | Some cols \<Rightarrow>
          (case ri_pk_cols rel of
             [] \<Rightarrow> Inr ([], [])
           | p # _ \<Rightarrow>
               (case pk_loop p cols (ri_columns rel) of
                  None \<Rightarrow> Inl (ErrPKNotFound p) | Some r \<Rightarrow> Inr r)))"

subsection \<open>The transaction builder\<close>

record 'f in_flight_tx =
  xid :: u32
  finalLSN :: lsn
  changes :: "'f change list"

record 'f tx_builder =
  inFlight :: "'f in_flight_tx option"
  mapper :: value_mapper

definition newTxBuilderWithConfig :: "bool \<Rightarrow> 'f tx_builder" where
  "newTxBuilderWithConfig assumeUTC =
     \<lparr>inFlight = None, mapper = \<lparr>naiveTimestampAssumeUTC = assumeUTC\<rparr>\<rparr>"

definition builder_Reset :: "'f tx_builder \<Rightarrow> 'f tx_builder" where
  "builder_Reset b = b\<lparr>inFlight := None\<rparr>"

definition InTx :: "'f tx_builder \<Rightarrow> bool" where
  "InTx b \<longleftrightarrow> inFlight b \<noteq> None"

definition HandleBegin :: "lsn \<Rightarrow> u32 \<Rightarrow> 'f tx_builder \<Rightarrow> 'f tx_builder" where
  "HandleBegin final x b = b\<lparr>inFlight := Some \<lparr>xid = x, finalLSN = final, changes = []\<rparr>\<rparr>"

definition append_change :: "'f change \<Rightarrow> 'f in_flight_tx \<Rightarrow> 'f tx_builder \<Rightarrow> 'f tx_builder" where
  "append_change ch t b = b\<lparr>inFlight := Some (t\<lparr>changes := changes t @ [ch]\<rparr>)\<rparr>"

definition HandleInsert ::
  "('f, 't) go_lib \<Rightarrow> u32 \<Rightarrow> tuple_data option \<Rightarrow> relation_cache \<Rightarrow> 'f tx_builder
   \<Rightarrow> decode_err + 'f tx_builder"
where
  "HandleInsert L rid tuple cache b =
     (case inFlight b of
        None \<Rightarrow> Inr b
      | Some t \<Rightarrow>
          (case cache_get cache rid of
             None \<Rightarrow> Inl (ErrUnknownRelation rid)
           | Some rel \<Rightarrow>
               (case buildDataMap L (mapper b) tuple rel of
                  Inl e \<Rightarrow> Inl e
                | Inr (data, pk, pkCol) \<Rightarrow>
                    Inr (append_change
                      \<lparr>Schema = ri_schema rel, Table = ri_table rel, Op = OpInsert, PK = pk,
                       PKCol = pkCol, Data = data, Changed = None\<rparr> t b))))"

definition HandleUpdate ::
  "('f, 't) go_lib \<Rightarrow> u32 \<Rightarrow> tuple_data option \<Rightarrow> tuple_data option \<Rightarrow> relation_cache
   \<Rightarrow> 'f tx_builder \<Rightarrow> decode_err + 'f tx_builder"
where
  "HandleUpdate L rid oldTuple newTuple cache b =
     (case inFlight b of
        None \<Rightarrow> Inr b
      | Some t \<Rightarrow>
          (case cache_get cache rid of
             None \<Rightarrow> Inl (ErrUnknownRelation rid)
           | Some rel \<Rightarrow>
               (case buildChangedMap L (mapper b) newTuple rel of
                  Inl e \<Rightarrow> Inl e
                | Inr (data, pk, pkCol) \<Rightarrow>
                    (let (pk', pkCol') =
                       (if pk = [] \<and> oldTuple \<noteq> None then
                          (case extractPKFromTuple oldTuple rel of
                             Inl e \<Rightarrow> (pk, pkCol) | Inr (oldPK, oldPKCol) \<Rightarrow> (oldPK, oldPKCol))
                        else (pk, pkCol))
                     in Inr (append_change
                       \<lparr>Schema = ri_schema rel, Table = ri_table rel, Op = OpUpdate, PK = pk',
                        PKCol = pkCol', Data = None, Changed = data\<rparr> t b)))))"

definition HandleDelete ::
  "u32 \<Rightarrow> tuple_data option \<Rightarrow> relation_cache \<Rightarrow> 'f tx_builder \<Rightarrow> decode_err + 'f tx_builder"
where
  "HandleDelete rid oldTuple cache b =
     (case inFlight b of
        None \<Rightarrow> Inr b
      | Some t \<Rightarrow>
          (case cache_get cache rid of
             None \<Rightarrow> Inl (ErrUnknownRelation rid)
           | Some rel \<Rightarrow>
               (let (pk, pkCol) =
                  (if oldTuple \<noteq> None then
                     (case extractPKFromTuple oldTuple rel of
                        Inl e \<Rightarrow> ([], []) | Inr (p, c) \<Rightarrow> (p, c))
                   else ([], []))
                in Inr (append_change
                  \<lparr>Schema = ri_schema rel, Table = ri_table rel, Op = OpDelete, PK = pk,
                   PKCol = pkCol, Data = None, Changed = None\<rparr> t b))))"

definition HandleCommit :: "lsn \<Rightarrow> 't \<Rightarrow> 'f tx_builder \<Rightarrow> ('f, 't) tx option \<times> 'f tx_builder" where
  "HandleCommit lsn ts b =
     (case inFlight b of
        None \<Rightarrow> (None, b)
      | Some t \<Rightarrow>
          (Some \<lparr>ID = xid t, CommitLSN = lsn, CommitTS = ts, Changes = changes t\<rparr>,
           b\<lparr>inFlight := None\<rparr>))"

lemmas [wal_defs] =
  cache_get_def InTx_def builder_Reset_def HandleBegin_def append_change_def HandleInsert_def
  HandleUpdate_def HandleDelete_def HandleCommit_def

subsection \<open>Facts on the relation cache\<close>

text \<open>A cached description has exactly one key column, of an allowed scalar type.\<close>

definition rel_ok :: "relation_info \<Rightarrow> bool" where
  "rel_ok info \<longleftrightarrow>
     (\<exists>pk \<in> set (ri_columns info). filter is_pk_col (ri_columns info) = [pk]
        \<and> ri_pk_cols info = [col_name pk] \<and> ri_pk_oid info = col_oid pk \<and> allowedPKOIDs (col_oid pk))"

definition cache_ok :: "relation_cache \<Rightarrow> bool" where
  "cache_ok c \<longleftrightarrow> (\<forall>oid info. c oid = Some info \<longrightarrow> ri_oid info = oid \<and> rel_ok info)"

lemma cache_ok_empty [simp]: "cache_ok newRelationCache"
  by (simp add: cache_ok_def newRelationCache_def)

lemma cache_update_Inr_iff:
  "(\<exists>c'. cache_update msg c = Inr c') \<longleftrightarrow>
   (\<exists>pk. filter is_pk_col (rm_columns msg) = [pk] \<and> allowedPKOIDs (col_oid pk))"
  by (cases "filter is_pk_col (rm_columns msg)" rule: remdups_adj.cases)
     (auto simp: cache_update_def Let_def)

lemma cache_update_Inr:
  assumes "cache_update msg c = Inr c'"
  obtains pk where "filter is_pk_col (rm_columns msg) = [pk]" "allowedPKOIDs (col_oid pk)"
    "c' = c(rm_id msg \<mapsto>
       \<lparr>ri_oid = rm_id msg, ri_schema = rm_namespace msg, ri_table = rm_name msg,
        ri_pk_cols = [col_name pk], ri_pk_oid = col_oid pk, ri_columns = rm_columns msg\<rparr>)"
proof -
  obtain pk where "filter is_pk_col (rm_columns msg) = [pk]" "allowedPKOIDs (col_oid pk)"
    using assms cache_update_Inr_iff [of msg c] by blast
  with assms that show thesis by (simp add: cache_update_def Let_def)
qed

lemma cache_update_ok:
  assumes "cache_ok c" and "cache_update msg c = Inr c'"
  shows "cache_ok c'"
proof (rule cache_update_Inr [OF assms(2)])
  fix pk
  assume pk: "filter is_pk_col (rm_columns msg) = [pk]" "allowedPKOIDs (col_oid pk)"
    and c': "c' = c(rm_id msg \<mapsto>
       \<lparr>ri_oid = rm_id msg, ri_schema = rm_namespace msg, ri_table = rm_name msg,
        ri_pk_cols = [col_name pk], ri_pk_oid = col_oid pk, ri_columns = rm_columns msg\<rparr>)"
  have "pk \<in> set (rm_columns msg)" using pk(1) by (metis filter_eq_ConsD in_set_conv_decomp)
  with assms(1) pk show ?thesis by (auto simp: c' cache_ok_def rel_ok_def)
qed

subsection \<open>Facts on the tuple loops\<close>

text \<open>The row maps keep their keys distinct and hold valid embedded JSON only.\<close>

definition row_ok :: "'f row \<Rightarrow> bool" where
  "row_ok d \<longleftrightarrow> gm_ok d \<and> (\<forall>v \<in> snd ` set d. gval_ok v)"

lemma row_ok_Nil [simp]: "row_ok []"
  by (simp add: row_ok_def)

lemma set_gm_set: "set (gm_set k v m) \<subseteq> insert (k, v) (set m)"
  by (induction m) auto

lemma row_ok_set: "row_ok d \<Longrightarrow> gval_ok v \<Longrightarrow> row_ok (gm_set k v d)"
  using set_gm_set [of k v d] by (auto simp: row_ok_def)

lemma mapValue_gval_ok: "mapValue L m oid s b = Inr v \<Longrightarrow> gval_ok v"
  using mapValue_ok [of L m oid s b] by simp

text \<open>One round of each loop.\<close>

lemma data_loop_Cons:
  assumes "data_loop L m p (col # cols) (rc # rcs) acc = Inr (d', r)"
  obtains v acc' where
    "mapValue L m (col_oid rc) (col_data col) (col_type col = TupleDataTypeNull) = Inr v"
    "fst acc' = gm_set (col_name rc) v (fst acc)" "data_loop L m p cols rcs acc' = Inr (d', r)"
  using assms by (cases acc) (auto simp: Let_def split: sum.splits if_splits)

lemma changed_loop_Cons:
  assumes "changed_loop L m p (col # cols) (rc # rcs) acc = Inr (d', r)"
  obtains (toast) "col_type col = TupleDataTypeToast" "changed_loop L m p cols rcs acc = Inr (d', r)"
  | (mapped) v acc' where "col_type col \<noteq> TupleDataTypeToast"
    "mapValue L m (col_oid rc) (col_data col) (col_type col = TupleDataTypeNull) = Inr v"
    "fst acc' = gm_set (col_name rc) v (fst acc)" "changed_loop L m p cols rcs acc' = Inr (d', r)"
  using assms by (cases acc) (auto simp: Let_def split: sum.splits if_splits)

lemma data_loop_row_ok:
  "data_loop L m p cols rcs acc = Inr (d', r) \<Longrightarrow> row_ok (fst acc) \<Longrightarrow> row_ok d'"
proof (induction cols rcs arbitrary: acc rule: list_induct2')
  case (4 col cols rc rcs)
  then show ?case by (metis data_loop_Cons mapValue_gval_ok row_ok_set)
qed auto

lemma changed_loop_row_ok:
  "changed_loop L m p cols rcs acc = Inr (d', r) \<Longrightarrow> row_ok (fst acc) \<Longrightarrow> row_ok d'"
proof (induction cols rcs arbitrary: acc rule: list_induct2')
  case (4 col cols rc rcs)
  then show ?case by (metis changed_loop_Cons mapValue_gval_ok row_ok_set)
qed auto

text \<open>Columns the tuple does not have, or has as unchanged TOAST, keep their entry.\<close>

lemma data_loop_other:
  "data_loop L m p cols rcs acc = Inr (d', r) \<Longrightarrow>
   k \<notin> col_name ` set rcs \<Longrightarrow> gm_get d' k = gm_get (fst acc) k"
proof (induction cols rcs arbitrary: acc rule: list_induct2')
  case (4 col cols rc rcs)
  obtain v acc' where "fst acc' = gm_set (col_name rc) v (fst acc)"
      "data_loop L m p cols rcs acc' = Inr (d', r)"
    using 4(2) by (rule data_loop_Cons)
  with 4(1) [of acc'] 4(3) show ?case by simp
qed auto

lemma changed_loop_other:
  "changed_loop L m p cols rcs acc = Inr (d', r) \<Longrightarrow>
   (\<And>i. i < length cols \<Longrightarrow> i < length rcs \<Longrightarrow> col_name (rcs ! i) = k \<Longrightarrow>
      col_type (cols ! i) = TupleDataTypeToast) \<Longrightarrow>
   gm_get d' k = gm_get (fst acc) k"
proof (induction cols rcs arbitrary: acc rule: list_induct2')
  case (4 col cols rc rcs)
  have tl: "\<And>i. i < length cols \<Longrightarrow> i < length rcs \<Longrightarrow> col_name (rcs ! i) = k \<Longrightarrow>
      col_type (cols ! i) = TupleDataTypeToast"
    using 4(3) [of "Suc _"] by simp
  from 4(2) show ?case
  proof (cases rule: changed_loop_Cons)
    case toast
    with 4(1) tl show ?thesis by blast
  next
    case (mapped v acc')
    with 4(3) [of 0] have "col_name rc \<noteq> k" by auto
    moreover have "gm_get d' k = gm_get (fst acc') k"
      by (rule 4(1) [OF mapped(4)]) (rule tl)
    ultimately show ?thesis by (simp add: mapped(3))
  qed
qed auto

text \<open>The value of the \<open>i\<close>-th column, for relations with distinct column names.\<close>

lemma data_loop_column:
  "data_loop L m p cols rcs acc = Inr (d', r) \<Longrightarrow> distinct (map col_name rcs) \<Longrightarrow>
   i < length cols \<Longrightarrow> i < length rcs \<Longrightarrow>
   \<exists>v. mapValue L m (col_oid (rcs ! i)) (col_data (cols ! i)) (col_type (cols ! i) = TupleDataTypeNull) = Inr v
     \<and> gm_get d' (col_name (rcs ! i)) = Some v"
proof (induction cols rcs arbitrary: acc i rule: list_induct2')
  case (4 col cols rc rcs)
  obtain v acc' where v:
      "mapValue L m (col_oid rc) (col_data col) (col_type col = TupleDataTypeNull) = Inr v"
      "fst acc' = gm_set (col_name rc) v (fst acc)"
    and rest: "data_loop L m p cols rcs acc' = Inr (d', r)"
    using 4(2) by (rule data_loop_Cons)
  show ?case
  proof (cases i)
    case 0
    with data_loop_other [OF rest, of "col_name rc"] v 4(3) show ?thesis by simp
  next
    case (Suc j)
    with 4(1) [OF rest, of j] 4(3-) show ?thesis by simp
  qed
qed auto

lemma changed_loop_column:
  "changed_loop L m p cols rcs acc = Inr (d', r) \<Longrightarrow> distinct (map col_name rcs) \<Longrightarrow>
   i < length cols \<Longrightarrow> i < length rcs \<Longrightarrow> col_type (cols ! i) \<noteq> TupleDataTypeToast \<Longrightarrow>
   \<exists>v. mapValue L m (col_oid (rcs ! i)) (col_data (cols ! i)) (col_type (cols ! i) = TupleDataTypeNull) = Inr v
     \<and> gm_get d' (col_name (rcs ! i)) = Some v"
proof (induction cols rcs arbitrary: acc i rule: list_induct2')
  case (4 col cols rc rcs)
  have "col_name rc \<notin> col_name ` set rcs" using 4(3) by simp
  then have notin: "j < length rcs \<Longrightarrow> col_name (rcs ! j) \<noteq> col_name rc" for j
    by (metis imageI nth_mem)
  from 4(2) show ?case
  proof (cases rule: changed_loop_Cons)
    case toast
    with 4(1) [OF toast(2)] 4(3-) show ?thesis by (cases i) auto
  next
    case (mapped v acc')
    show ?thesis
    proof (cases i)
      case 0
      have "gm_get d' (col_name rc) = gm_get (fst acc') (col_name rc)"
        by (rule changed_loop_other [OF mapped(4)]) (use notin in blast)
      with mapped(2,3) 0 show ?thesis by simp
    next
      case (Suc j)
      with 4(1) [OF mapped(4), of j] 4(3-) show ?thesis by simp
    qed
  qed
qed auto

text \<open>The key column's text is the primary key of the change.\<close>

lemma data_loop_pk_other:
  "data_loop L m p cols rcs acc = Inr (d', pk, pkCol) \<Longrightarrow> p \<notin> col_name ` set rcs \<Longrightarrow>
   (pk, pkCol) = snd acc"
proof (induction cols rcs arbitrary: acc rule: list_induct2')
  case (4 col cols rc rcs)
  then show ?case by (cases acc) (force simp: Let_def split: sum.splits if_splits)
qed auto

lemma data_loop_pk:
  "data_loop L m p cols rcs acc = Inr (d', pk, pkCol) \<Longrightarrow> distinct (map col_name rcs) \<Longrightarrow>
   i < length cols \<Longrightarrow> i < length rcs \<Longrightarrow> col_name (rcs ! i) = p \<Longrightarrow>
   pk = textPK (cols ! i) \<and> pkCol = p"
proof (induction cols rcs arbitrary: acc i rule: list_induct2')
  case (4 col cols rc rcs)
  obtain d q qc where acc: "acc = (d, q, qc)" by (cases acc)
  show ?case
  proof (cases i)
    case 0
    with 4(3,6) have p: "col_name rc = p" "p \<notin> col_name ` set rcs" by auto
    with 4(2) obtain d2 where "data_loop L m p cols rcs (d2, textPK col, p) = Inr (d', pk, pkCol)"
      by (auto simp: acc Let_def split: sum.splits)
    from data_loop_pk_other [OF this p(2)] 0 show ?thesis by simp
  next
    case (Suc j)
    moreover obtain v acc' where "data_loop L m p cols rcs acc' = Inr (d', pk, pkCol)"
      using 4(2) by (rule data_loop_Cons)
    ultimately show ?thesis using 4(1) [of acc' j] 4(3-) by simp
  qed
qed auto

end
