(* ===== verification/Wal_Config.thy ===== *)
theory Wal_Config
  imports Go_Json
begin

text \<open>
  \<open>internal/wal/config.go\<close>: the reader's settings, their validation, the name of the
  temporary replication slot, and the two connection strings made from
  \<open>WALERA_DATABASE_URL\<close>. The parsers of \<open>net/url\<close> and of the package \<open>pgconn\<close> are parameters.
\<close>

subsection \<open>PostgreSQL identifiers\<close>

definition ident_start :: "char \<Rightarrow> bool" where
  "ident_start c \<longleftrightarrow> is_upper c \<or> is_lower c \<or> c = CHR ''_''"

definition ident_char :: "char \<Rightarrow> bool" where
  "ident_char c \<longleftrightarrow> ident_start c \<or> is_digit c"

text \<open>\<open>pgIdentRe\<close>: a start character and at most 62 more.\<close>

definition pgIdentRe :: "string \<Rightarrow> bool" where
  "pgIdentRe s \<longleftrightarrow>
     (case s of [] \<Rightarrow> False | c # cs \<Rightarrow> ident_start c \<and> list_all ident_char cs \<and> length cs \<le> 62)"

text \<open>\<open>pgQualifiedTableRe\<close>; identifiers hold no dot, so the first dot is the separator.\<close>

definition pgQualifiedTableRe :: "string \<Rightarrow> bool" where
  "pgQualifiedTableRe s \<longleftrightarrow>
     (case str_cut (CHR ''.'') s of (schema, table, found) \<Rightarrow> found \<and> pgIdentRe schema \<and> pgIdentRe table)"

subsection \<open>Settings\<close>

record wal_config =
  PostgresDSN :: string
  ReplicationDSN :: string
  PublicationName :: string
  Tables :: "string list"
  SlotNamePrefix :: string
  SlotHeadroomMin :: int
  NaiveTimestampAssumeUTC :: bool
  ResetAfterSuccessDuration :: int

definition wal_Defaults :: wal_config where
  "wal_Defaults =
     \<lparr>PostgresDSN = [], ReplicationDSN = [], PublicationName = ''walera_pub'', Tables = [],
      SlotNamePrefix = ''walera'', SlotHeadroomMin = 2, NaiveTimestampAssumeUTC = True,
      ResetAfterSuccessDuration = 60 * 1000000000\<rparr>"

datatype wal_cfg_err =
    BadPublication | BadSlotPrefix string | BadTable nat | PublicationIsPrefix string | BadReset

definition wal_Validate :: "wal_config \<Rightarrow> wal_cfg_err list" where
  "wal_Validate c =
     (if PublicationName c \<noteq> [] \<and> \<not> pgIdentRe (PublicationName c) then [BadPublication] else [])
     @ (if SlotNamePrefix c \<noteq> [] \<and> \<not> pgIdentRe (SlotNamePrefix c)
        then [BadSlotPrefix (SlotNamePrefix c)] else [])
     @ concat (map (\<lambda>(i, t). if \<not> pgQualifiedTableRe t then [BadTable (i + 1)] else [])
         (enumerate 0 (Tables c)))
     @ (if SlotNamePrefix c \<noteq> [] \<and> SlotNamePrefix c = PublicationName c
        then [PublicationIsPrefix (SlotNamePrefix c)] else [])
     @ (if ResetAfterSuccessDuration c \<le> 0 then [BadReset] else [])"

subsection \<open>The slot name\<close>

definition slot_rune :: "string \<Rightarrow> char" where
  "slot_rune r =
     (case r of
        [c] \<Rightarrow> if is_lower c \<or> is_digit c \<or> c = CHR ''_'' then c
               else if is_upper c then char_of (byte c + 32)
               else CHR ''_''
      | _ \<Rightarrow> CHR ''_'')"

definition NewSlotName :: "wal_config \<Rightarrow> string \<Rightarrow> int \<Rightarrow> string" where
  "NewSlotName w hostname pid =
     SlotNamePrefix w @ ''_'' @ map slot_rune (runes hostname) @ ''_'' @ itoa pid"

subsection \<open>Connection strings\<close>

text \<open>A parsed URL keeps its query apart; \<open>String\<close> and \<open>with_query\<close> are the library's.\<close>

record 'u url_lib =
  url_Parse :: "string \<Rightarrow> 'u option"
  url_Query :: "'u \<Rightarrow> (string, string list) gomap"
  url_with_query :: "'u \<Rightarrow> (string, string list) gomap \<Rightarrow> 'u" \<comment> \<open>\<open>RawQuery = q.Encode()\<close>\<close>
  url_String :: "'u \<Rightarrow> string"
  pgconn_ok :: "string \<Rightarrow> bool" \<comment> \<open>\<open>pgconn.ParseConfig\<close> returns no error\<close>

datatype dsn_err = DSNRequired | DSNScheme | DSNInvalid

definition DeriveDSNs :: "'u url_lib \<Rightarrow> string \<Rightarrow> dsn_err + (string \<times> string)" where
  "DeriveDSNs U base =
     (if base = [] then Inl DSNRequired
      else if \<not> prefix ''postgres://'' base \<and> \<not> prefix ''postgresql://'' base then Inl DSNScheme
      else (case url_Parse U base of
              None \<Rightarrow> Inl DSNInvalid
            | Some u \<Rightarrow>
                (let q = filter (\<lambda>(k, vs). \<not> equal_fold_ascii k ''replication'') (url_Query U u);
                     adminURL = url_with_query U u q;
                     admin = url_String U adminURL
                 in if \<not> pgconn_ok U base then Inl DSNInvalid
                    else if \<not> pgconn_ok U admin then Inl DSNInvalid
                    else Inr (admin,
                      url_String U (url_with_query U adminURL
                        (gm_set ''replication'' [''database''] (url_Query U adminURL)))))))"

subsection \<open>Facts\<close>

text \<open>The characters PostgreSQL allows in the name of a replication slot.\<close>

definition slot_char :: "char \<Rightarrow> bool" where
  "slot_char c \<longleftrightarrow> is_lower c \<or> is_digit c \<or> c = CHR ''_''"

lemma slot_rune_char: "slot_char (slot_rune r)"
proof (cases "\<exists>c. r = [c] \<and> is_upper c")
  case True
  then obtain c where "r = [c]" "is_upper c" by blast
  then show ?thesis by (auto simp: slot_rune_def slot_char_def is_upper_def is_lower_def)
next
  case False
  then show ?thesis by (auto simp: slot_rune_def slot_char_def split: list.splits)
qed

lemma itoa_digits: "0 \<le> n \<Longrightarrow> list_all is_digit (itoa n)"
  using nat_digits_digit by (simp add: itoa_def)

lemma NewSlotName_chars:
  assumes "list_all slot_char (SlotNamePrefix w)" and "0 \<le> pid"
  shows "list_all slot_char (NewSlotName w hostname pid)"
proof -
  have "list_all slot_char (itoa pid)"
    using itoa_digits [OF assms(2)] by (auto simp: list_all_iff slot_char_def)
  moreover have "slot_char (CHR ''_'')" by (simp add: slot_char_def)
  ultimately show ?thesis
    using assms(1) slot_rune_char by (auto simp: NewSlotName_def list_all_iff)
qed

text \<open>One character per rune, so the length is bounded by the host name's.\<close>

lemma length_runes: "length (runes s) \<le> length s"
  by (induction s rule: runes.induct) (auto simp: Let_def simp del: utf8_len.simps)

lemma NewSlotName_length:
  "length (NewSlotName w hostname pid)
     \<le> length (SlotNamePrefix w) + length hostname + length (itoa pid) + 2"
  using length_runes [of hostname] by (simp add: NewSlotName_def)

text \<open>
  Nothing cuts the name to the 63 bytes PostgreSQL allows for a slot: with the default prefix a
  host name of ASCII characters longer than 54 makes a name that is too long.
\<close>

lemma runes_ascii: "list_all (\<lambda>c. byte c < 128) s \<Longrightarrow> length (runes s) = length s"
  by (induction s rule: runes.induct) (simp_all add: Let_def max_def)

lemma NewSlotName_too_long:
  assumes "list_all (\<lambda>c. byte c < 128) hostname" and "54 < length hostname" and "SlotNamePrefix w = ''walera''"
  shows "63 < length (NewSlotName w hostname pid)"
proof -
  have "itoa pid \<noteq> []" by simp
  then have "1 \<le> length (itoa pid)" by (simp add: Suc_leI)
  moreover have "length (NewSlotName w hostname pid) = 8 + length hostname + length (itoa pid)"
    by (simp add: NewSlotName_def assms(3) runes_ascii [OF assms(1)])
  ultimately show ?thesis using assms(2) by linarith
qed

lemma pgIdentRe_chars: "pgIdentRe s \<Longrightarrow> list_all ident_char s \<and> s \<noteq> [] \<and> length s \<le> 63"
  by (auto simp: pgIdentRe_def ident_char_def split: list.splits)

lemma ident_char_no_dot: "ident_char c \<Longrightarrow> c \<noteq> CHR ''.'' \<and> c \<noteq> CHR 0x22 \<and> c \<noteq> CHR 0x27"
  by (auto simp: ident_char_def ident_start_def is_upper_def is_lower_def is_digit_def)

lemma pgQualifiedTableRe_iff:
  "pgQualifiedTableRe s \<longleftrightarrow> (\<exists>a b. s = a @ CHR ''.'' # b \<and> pgIdentRe a \<and> pgIdentRe b)"
proof
  assume "\<exists>a b. s = a @ CHR ''.'' # b \<and> pgIdentRe a \<and> pgIdentRe b"
  then obtain a b where ab: "s = a @ CHR ''.'' # b" "pgIdentRe a" "pgIdentRe b" by blast
  have "CHR ''.'' \<notin> set a"
    using pgIdentRe_chars [OF ab(2)] ident_char_no_dot by (auto simp: list_all_iff)
  with ab show "pgQualifiedTableRe s" by (simp add: pgQualifiedTableRe_def str_cut_append)
next
  assume "pgQualifiedTableRe s"
  then obtain a b where "str_cut (CHR ''.'') s = (a, b, True)" "pgIdentRe a" "pgIdentRe b"
    by (auto simp: pgQualifiedTableRe_def split: prod.splits)
  then show "\<exists>a b. s = a @ CHR ''.'' # b \<and> pgIdentRe a \<and> pgIdentRe b"
    using str_cut_True by blast
qed

text \<open>The settings that pass validation.\<close>

lemma wal_Validate_Nil_iff:
  "wal_Validate c = [] \<longleftrightarrow>
     (PublicationName c = [] \<or> pgIdentRe (PublicationName c)) \<and>
     (SlotNamePrefix c = [] \<or> pgIdentRe (SlotNamePrefix c)) \<and>
     list_all pgQualifiedTableRe (Tables c) \<and>
     (SlotNamePrefix c = [] \<or> SlotNamePrefix c \<noteq> PublicationName c) \<and>
     0 < ResetAfterSuccessDuration c"
proof -
  have "concat (map (\<lambda>(i, t). if \<not> pgQualifiedTableRe t then [BadTable (i + 1)] else [])
      (enumerate n ts)) = [] \<longleftrightarrow> list_all pgQualifiedTableRe ts" for n ts
    by (induction ts arbitrary: n) simp_all
  moreover have "(if P then [x] else []) = [] \<longleftrightarrow> \<not> P" for P and x :: wal_cfg_err
    by simp
  ultimately show ?thesis
    unfolding wal_Validate_def append_is_Nil_conv by (simp only: not_le) blast
qed

lemma wal_Defaults_valid: "wal_Validate wal_Defaults = []"
  by code_simp

text \<open>The admin connection string asks for no replication, the other one for replication.\<close>

lemma DeriveDSNs_query:
  assumes "\<And>u q. url_Query U (url_with_query U u q) = q" and "\<And>u. gm_ok (url_Query U u)"
    and "DeriveDSNs U base = Inr (admin, repl)"
  obtains a r where "admin = url_String U a" "repl = url_String U r"
    "\<And>k. equal_fold_ascii k ''replication'' \<Longrightarrow> gm_get (url_Query U a) k = None"
    "gm_get (url_Query U r) = (gm_get (url_Query U a))(''replication'' \<mapsto> [''database''])"
    "pgconn_ok U admin"
proof -
  obtain u where u: "url_Parse U base = Some u"
    using assms(3) by (auto simp: DeriveDSNs_def split: if_splits option.splits)
  define q where "q = filter (\<lambda>(k, vs). \<not> equal_fold_ascii k ''replication'') (url_Query U u)"
  define a where "a = url_with_query U u q"
  define r where "r = url_with_query U a (gm_set ''replication'' [''database''] (url_Query U a))"
  have "admin = url_String U a" "repl = url_String U r" "pgconn_ok U admin"
    using assms(3) u by (auto simp: DeriveDSNs_def Let_def a_def q_def r_def split: if_splits)
  moreover have "gm_get (url_Query U a) k = None" if "equal_fold_ascii k ''replication''" for k
    using that assms(1,2) gm_get_filter [of "url_Query U u" "\<lambda>k. \<not> equal_fold_ascii k ''replication''" k]
    by (simp add: a_def q_def)
  moreover have "gm_get (url_Query U r) = (gm_get (url_Query U a))(''replication'' \<mapsto> [''database''])"
    by (simp add: r_def assms(1) fun_eq_iff)
  ultimately show thesis using that by blast
qed

end
