(* ===== verification/Wal_Reader.thy ===== *)
theory Wal_Reader
  imports Complex_Main Wal_Decode Wal_Config
begin

text \<open>
  \<open>internal/wal/reader.go\<close>: the goroutine that owns the replication connection. The
  reader's state is a record; a receive, a tick of the standby ticker and the choices of a
  \<open>select\<close> are inputs, so a run of the loop is a fold over what happened. Times and
  durations are nanoseconds. The parsers of the package \<open>pglogrepl\<close> are a parameter.
\<close>

subsection \<open>State\<close>

record 't repl_lib =
  Parse :: "string \<Rightarrow> 't wal_msg option"
  ParseXLogData :: "string \<Rightarrow> string option" \<comment> \<open>the WAL data of the message\<close>
  ParsePrimaryKeepaliveMessage :: "string \<Rightarrow> (lsn \<times> bool) option"
    \<comment> \<open>\<open>ServerWALEnd\<close>, \<open>ReplyRequested\<close>\<close>

text \<open>
  \<open>lastCommittedLSN\<close> is the package variable. \<open>txCh\<close> holds the transactions sent on the
  channel, oldest first, and \<open>acks\<close> the positions of the standby updates sent.
\<close>

record ('f, 't) reader =
  standbyInterval :: int
  connected :: bool
  ackLSN :: lsn
  lastCommittedLSN :: lsn
  txBld :: "'f tx_builder"
  relCache :: relation_cache
  nextStandby :: int
  txCh :: "('f, 't) tx list"
  acks :: "lsn list"

datatype reader_err =
    ErrReplConnect | ErrIdentifySystem | ErrCreateReplicationSlot | ErrParseLSN | ErrStartReplication
  | ErrReceiveMessage | ErrProcessWAL | ErrNotConnected

definition CurrentLSN :: "('f, 't) reader \<Rightarrow> lsn" where
  "CurrentLSN r = lastCommittedLSN r"

definition setLSN :: "lsn \<Rightarrow> ('f, 't) reader \<Rightarrow> ('f, 't) reader" where
  "setLSN p r = r\<lparr>lastCommittedLSN := p\<rparr>"

definition IsConnected :: "('f, 't) reader \<Rightarrow> bool" where
  "IsConnected r = connected r"

definition CheckPG :: "('f, 't) reader \<Rightarrow> reader_err option" where
  "CheckPG r = (if connected r then None else Some ErrNotConnected)"

subsection \<open>Standby updates\<close>

definition defaultStandbyInterval :: int where
  "defaultStandbyInterval = 5 * second_ns"

definition standbyEvery :: "('f, 't) reader \<Rightarrow> int" where
  "standbyEvery r = (if 0 < standbyInterval r then standbyInterval r else defaultStandbyInterval)"

definition advanceAck :: "lsn \<Rightarrow> ('f, 't) reader \<Rightarrow> ('f, 't) reader" where
  "advanceAck p r = (if ackLSN r < p then r\<lparr>ackLSN := p\<rparr> else r)"

definition sendStandby :: "('f, 't) reader \<Rightarrow> ('f, 't) reader" where
  "sendStandby r = r\<lparr>acks := acks r @ [ackLSN r]\<rparr>"

definition handleKeepaliveMsg :: "bool \<Rightarrow> ('f, 't) reader \<Rightarrow> bool \<times> ('f, 't) reader" where
  "handleKeepaliveMsg replyRequested r =
     (if replyRequested then (True, sendStandby r) else (False, r))"

subsection \<open>Delivery to the router\<close>

text \<open>
  Each round of the \<open>select\<close> in \<open>deliver\<close> takes one of its cases. The result is \<open>None\<close>
  while the call has not returned.
\<close>

datatype deliver_ev = DSent | DDone | DTick

fun deliver :: "('f, 't) tx \<Rightarrow> deliver_ev list \<Rightarrow> ('f, 't) reader \<Rightarrow> bool option \<times> ('f, 't) reader" where
  "deliver tx [] r = (None, r)"
| "deliver tx (DSent # evs) r = (Some True, r\<lparr>txCh := txCh r @ [tx]\<rparr>)"
| "deliver tx (DDone # evs) r = (Some False, r)"
| "deliver tx (DTick # evs) r = deliver tx evs (sendStandby r)"

subsection \<open>WAL messages\<close>

datatype outcome = Continue | Blocked | Failed reader_err

definition keep_result :: "'e + 'f tx_builder \<Rightarrow> ('f, 't) reader \<Rightarrow> ('f, 't) reader" where
  "keep_result res r = (case res of Inl e \<Rightarrow> r | Inr b \<Rightarrow> r\<lparr>txBld := b\<rparr>)"

text \<open>The type switch of \<open>processWALMessage\<close>; an error of a handler only skips the change.\<close>

fun handle_msg ::
  "('f, 't) go_lib \<Rightarrow> 't wal_msg \<Rightarrow> deliver_ev list \<Rightarrow> ('f, 't) reader \<Rightarrow> outcome \<times> ('f, 't) reader"
where
  "handle_msg L (BeginMessage final x) evs r =
     (Continue, r\<lparr>txBld := HandleBegin final x (txBld r)\<rparr>)"
| "handle_msg L (RelationMessage m) evs r =
     (Continue, (case cache_update m (relCache r) of Inl e \<Rightarrow> r | Inr c \<Rightarrow> r\<lparr>relCache := c\<rparr>))"
| "handle_msg L (InsertMessage rid tuple) evs r =
     (Continue, keep_result (HandleInsert L rid tuple (relCache r) (txBld r)) r)"
| "handle_msg L (UpdateMessage rid oldTuple newTuple) evs r =
     (Continue, keep_result (HandleUpdate L rid oldTuple newTuple (relCache r) (txBld r)) r)"
| "handle_msg L (DeleteMessage rid oldTuple) evs r =
     (Continue, keep_result (HandleDelete rid oldTuple (relCache r) (txBld r)) r)"
| "handle_msg L (CommitMessage lsn ts) evs r =
     (case HandleCommit lsn ts (txBld r) of
        (None, b) \<Rightarrow> (Continue, r\<lparr>txBld := b\<rparr>)
      | (Some tx, b) \<Rightarrow>
          (case deliver tx evs (advanceAck lsn (setLSN lsn (r\<lparr>txBld := b\<rparr>))) of
             (None, r') \<Rightarrow> (Blocked, r')
           | (Some True, r') \<Rightarrow> (Continue, r')
           | (Some False, r') \<Rightarrow> (Failed ErrProcessWAL, r')))"
| "handle_msg L TypeMessage evs r = (Continue, r)"
| "handle_msg L OriginMessage evs r = (Continue, r)"
| "handle_msg L (TruncateMessage ids) evs r = (Continue, r)"
| "handle_msg L OtherMessage evs r = (Continue, r)"

definition processWALMessage ::
  "('f, 't) go_lib \<Rightarrow> 't repl_lib \<Rightarrow> string \<Rightarrow> deliver_ev list \<Rightarrow> ('f, 't) reader
   \<Rightarrow> outcome \<times> ('f, 't) reader"
where
  "processWALMessage L R walData evs r =
     (if walData = [] then (Continue, r)
      else (case Parse R walData of
              None \<Rightarrow> (Continue, r)
            | Some m \<Rightarrow> handle_msg L m evs r))"

subsection \<open>The loop\<close>

text \<open>
  What one iteration of \<open>runLoop\<close> meets: the clock at its head, after the standby update and
  after a reply, what \<open>ReceiveMessage\<close> returned, and the rounds of a \<open>deliver\<close>.
\<close>

datatype recv_err = RecvTimeout | RecvDeadlineExceeded | RecvBroken

datatype recv = RecvErr recv_err | RecvOther | RecvCopyData string

record iteration =
  it_now :: int
  it_after_ack :: int
  it_recv :: recv
  it_ctx_done :: bool
  it_after_reply :: int
  it_deliver :: "deliver_ev list"

definition receiveTimedOut :: "bool \<Rightarrow> recv_err \<Rightarrow> bool" where
  "receiveTimedOut ctxDone e \<longleftrightarrow> \<not> ctxDone \<and> (e = RecvTimeout \<or> e = RecvDeadlineExceeded)"

definition PrimaryKeepaliveMessageByteID :: char where
  "PrimaryKeepaliveMessageByteID = CHR ''k''"

definition XLogDataByteID :: char where
  "XLogDataByteID = CHR ''w''"

definition loop_head :: "iteration \<Rightarrow> ('f, 't) reader \<Rightarrow> ('f, 't) reader" where
  "loop_head it r =
     (if \<not> it_now it < nextStandby r
      then (let r' = sendStandby r in r'\<lparr>nextStandby := it_after_ack it + standbyEvery r'\<rparr>)
      else r)"

definition handle_keepalive ::
  "lsn \<Rightarrow> bool \<Rightarrow> int \<Rightarrow> ('f, 't) reader \<Rightarrow> ('f, 't) reader" where
  "handle_keepalive serverWALEnd reply now r =
     (let r1 = (if InTx (txBld r) then r else advanceAck serverWALEnd r);
          (sent, r2) = handleKeepaliveMsg reply r1
      in if sent then r2\<lparr>nextStandby := now + standbyEvery r2\<rparr> else r2)"

definition reset_builder :: "('f, 't) reader \<Rightarrow> ('f, 't) reader" where
  "reset_builder r = r\<lparr>txBld := builder_Reset (txBld r)\<rparr>"

definition handle_recv ::
  "('f, 't) go_lib \<Rightarrow> 't repl_lib \<Rightarrow> iteration \<Rightarrow> ('f, 't) reader \<Rightarrow> outcome \<times> ('f, 't) reader"
where
  "handle_recv L R it r =
     (case it_recv it of
        RecvErr e \<Rightarrow>
          (if receiveTimedOut (it_ctx_done it) e then (Continue, r)
           else (Failed ErrReceiveMessage, reset_builder r))
      | RecvOther \<Rightarrow> (Continue, r)
      | RecvCopyData data \<Rightarrow>
          (case data of
             [] \<Rightarrow> (Continue, r)
           | b # rest \<Rightarrow>
               (if b = PrimaryKeepaliveMessageByteID then
                  (case ParsePrimaryKeepaliveMessage R rest of
                     None \<Rightarrow> (Continue, r)
                   | Some (serverWALEnd, reply) \<Rightarrow>
                       (Continue, handle_keepalive serverWALEnd reply (it_after_reply it) r))
                else if b = XLogDataByteID then
                  (case ParseXLogData R rest of
                     None \<Rightarrow> (Continue, r)
                   | Some walData \<Rightarrow>
                       (case processWALMessage L R walData (it_deliver it) r of
                          (Failed e, r') \<Rightarrow> (Failed ErrProcessWAL, reset_builder r')
                        | res \<Rightarrow> res))
                else (Continue, r))))"

definition loop_step ::
  "('f, 't) go_lib \<Rightarrow> 't repl_lib \<Rightarrow> iteration \<Rightarrow> ('f, 't) reader \<Rightarrow> outcome \<times> ('f, 't) reader"
where
  "loop_step L R it r = handle_recv L R it (loop_head it r)"

fun loop_steps ::
  "('f, 't) go_lib \<Rightarrow> 't repl_lib \<Rightarrow> iteration list \<Rightarrow> ('f, 't) reader \<Rightarrow> outcome \<times> ('f, 't) reader"
where
  "loop_steps L R [] r = (Continue, r)"
| "loop_steps L R (it # its) r =
     (case loop_step L R it r of
        (Continue, r') \<Rightarrow> loop_steps L R its r'
      | res \<Rightarrow> res)"

definition runLoop ::
  "('f, 't) go_lib \<Rightarrow> 't repl_lib \<Rightarrow> bool \<Rightarrow> int \<Rightarrow> iteration list \<Rightarrow> ('f, 't) reader
   \<Rightarrow> outcome \<times> ('f, 't) reader"
where
  "runLoop L R assumeUTC now its r =
     loop_steps L R its
       (r\<lparr>txBld := newTxBuilderWithConfig assumeUTC, ackLSN := 0, relCache := newRelationCache,
          nextStandby := now + standbyEvery r\<rparr>)"

subsection \<open>The replication slot and one connection\<close>

text \<open>
  \<open>internal/wal/slot.go\<close>: the server's answers are inputs. \<open>sa_create\<close> is the consistent
  point the server names, as \<open>ParseLSN\<close> reads it (\<open>None\<close> when it does not parse).
\<close>

record slot_answers =
  sa_hostname :: "string option"
  sa_pid :: int
  sa_identify :: bool
  sa_create :: "lsn option option"
  sa_start :: bool

definition bootstrapSlot ::
  "wal_config \<Rightarrow> slot_answers \<Rightarrow> ('f, 't) reader \<Rightarrow> (reader_err + string \<times> lsn) \<times> ('f, 't) reader"
where
  "bootstrapSlot cfg sa r =
     (let hostname = (case sa_hostname sa of None \<Rightarrow> ''unknown'' | Some h \<Rightarrow> h);
          slotName = NewSlotName cfg hostname (sa_pid sa)
      in if \<not> sa_identify sa then (Inl ErrIdentifySystem, r)
         else (case sa_create sa of
                 None \<Rightarrow> (Inl ErrCreateReplicationSlot, r)
               | Some None \<Rightarrow> (Inl ErrParseLSN, r)
               | Some (Some startLSN) \<Rightarrow>
                   (let r' = setLSN startLSN r
                    in if \<not> sa_start sa then (Inl ErrStartReplication, r')
                       else (Inr (slotName, startLSN), r'))))"

text \<open>\<open>runOnce\<close>; the deferred \<open>connected.Store(false)\<close> runs on every return.\<close>

definition runOnce ::
  "('f, 't) go_lib \<Rightarrow> 't repl_lib \<Rightarrow> wal_config \<Rightarrow> bool \<Rightarrow> slot_answers \<Rightarrow> int \<Rightarrow> iteration list
   \<Rightarrow> ('f, 't) reader \<Rightarrow> outcome \<times> ('f, 't) reader"
where
  "runOnce L R cfg connects sa now its r =
     (if \<not> connects then (Failed ErrReplConnect, r\<lparr>connected := False\<rparr>)
      else (case bootstrapSlot cfg sa (r\<lparr>connected := True\<rparr>) of
              (Inl e, r') \<Rightarrow> (Failed e, r'\<lparr>connected := False\<rparr>)
            | (Inr slot, r') \<Rightarrow>
                (case runLoop L R (NaiveTimestampAssumeUTC cfg) now its r' of
                   (Failed e, r'') \<Rightarrow> (Failed e, r''\<lparr>connected := False\<rparr>)
                 | res \<Rightarrow> res)))"

subsection \<open>Reconnecting\<close>

definition backoff_curve :: "int list" where
  "backoff_curve = map (\<lambda>s. s * second_ns) [1, 2, 4, 8, 16, 30]"

text \<open>
  \<open>rnd\<close> is the generator's next \<open>Float64\<close>, in \<open>[0, 1)\<close>. The product is taken exactly
  before it is truncated to a whole duration.
\<close>

definition computeBackoff :: "rat \<Rightarrow> int \<Rightarrow> int" where
  "computeBackoff rnd attempt =
     (let idx = (if attempt < 0 then 0 else attempt);
          idx' = (if int (length backoff_curve) \<le> idx then int (length backoff_curve) - 1 else idx);
          base = backoff_curve ! nat idx';
          factor = 3 / 4 + rnd * (1 / 2)
      in \<lfloor>of_int base * factor\<rfloor>)"

text \<open>
  What one round of \<open>Run\<close> meets: whether the context was done when \<open>runOnce\<close> returned, how
  long the attempt took, the random number, and which of the timer and the context fired.
\<close>

record round =
  rd_ctx_done :: bool
  rd_elapsed :: int
  rd_rnd :: rat
  rd_timer :: bool

definition next_attempt :: "wal_config \<Rightarrow> int \<Rightarrow> int \<Rightarrow> int" where
  "next_attempt cfg elapsed attempt =
     (if 0 < ResetAfterSuccessDuration cfg \<and> ResetAfterSuccessDuration cfg \<le> elapsed then 0 else attempt)"

text \<open>The waits before each reconnect, and whether \<open>Run\<close> has returned.\<close>

fun Run :: "wal_config \<Rightarrow> int \<Rightarrow> round list \<Rightarrow> int list \<times> bool" where
  "Run cfg attempt [] = ([], False)"
| "Run cfg attempt (rd # rds) =
     (if rd_ctx_done rd then ([], True)
      else
        (let attempt' = next_attempt cfg (rd_elapsed rd) attempt;
             backoff = computeBackoff (rd_rnd rd) attempt'
         in if \<not> rd_timer rd then ([backoff], True)
            else (case Run cfg (attempt' + 1) rds of (ws, fin) \<Rightarrow> (backoff # ws, fin))))"

lemmas [wal_defs] =
  setLSN_def advanceAck_def sendStandby_def handleKeepaliveMsg_def keep_result_def
  processWALMessage_def loop_head_def handle_keepalive_def reset_builder_def handle_recv_def
  loop_step_def runLoop_def

subsection \<open>Facts on reconnecting\<close>

lemma backoff_base:
  assumes "b = backoff_curve ! nat (min (max 0 attempt) 5)"
  shows "second_ns \<le> b" and "b \<le> 30 * second_ns"
proof -
  have "nat (min (max 0 attempt) 5) < length backoff_curve" by (simp add: backoff_curve_def)
  then have "b \<in> set backoff_curve" using assms nth_mem by blast
  then show "second_ns \<le> b" "b \<le> 30 * second_ns"
    by (auto simp: backoff_curve_def second_ns_def)
qed

lemma computeBackoff_eq:
  "computeBackoff rnd attempt =
     \<lfloor>of_int (backoff_curve ! nat (min (max 0 attempt) 5)) * (3 / 4 + rnd / 2)\<rfloor>"
proof -
  have "(let idx = (if attempt < 0 then 0 else attempt)
         in if int (length backoff_curve) \<le> idx then int (length backoff_curve) - 1 else idx)
        = min (max 0 attempt) 5"
    by (simp add: backoff_curve_def Let_def)
  then show ?thesis by (simp add: computeBackoff_def Let_def)
qed

lemma computeBackoff_step_bounds:
  fixes attempt :: int
  assumes "0 \<le> rnd" and "rnd < 1"
  defines "b \<equiv> backoff_curve ! nat (min (max 0 attempt) 5)"
  shows "3 * b \<le> 4 * computeBackoff rnd attempt" and "4 * computeBackoff rnd attempt \<le> 5 * b"
    and "750000000 \<le> computeBackoff rnd attempt" and "computeBackoff rnd attempt \<le> 37500000000"
proof -
  note b = backoff_base [OF b_def [THEN meta_eq_to_obj_eq]]
  have "b mod 4 = 0"
  proof -
    have "nat (min (max 0 attempt) 5) < length backoff_curve" by (simp add: backoff_curve_def)
    then have "b \<in> set backoff_curve" unfolding b_def by (rule nth_mem)
    then show ?thesis by (auto simp: backoff_curve_def second_ns_def)
  qed
  then obtain q where q: "b = 4 * q" by (metis dvd_eq_mod_eq_0 dvdE)
  have q0: "0 \<le> q" using b(1) q by (simp add: second_ns_def)
  have eq: "computeBackoff rnd attempt = \<lfloor>of_int (3 * q) + of_int q * (2 * rnd)\<rfloor>"
    by (simp add: computeBackoff_eq flip: b_def) (simp add: q algebra_simps)
  have "0 \<le> of_int q * (2 * rnd)" using q0 assms(1) by simp
  then have lo: "3 * q \<le> computeBackoff rnd attempt"
    unfolding eq le_floor_iff by simp
  have "of_int q * (2 * rnd) \<le> of_int q * 2"
    using q0 assms(2) by (intro mult_left_mono) auto
  then have "of_int (3 * q) + of_int q * (2 * rnd) \<le> of_int (5 * q)" by simp
  then have hi: "computeBackoff rnd attempt \<le> 5 * q"
    unfolding eq by (metis floor_mono floor_of_int)
  from lo hi q b show "3 * b \<le> 4 * computeBackoff rnd attempt" "4 * computeBackoff rnd attempt \<le> 5 * b"
    "750000000 \<le> computeBackoff rnd attempt" "computeBackoff rnd attempt \<le> 37500000000"
    by (simp_all add: second_ns_def)
qed

text \<open>
  The wait before a reconnect is within a quarter of its step of the curve 1, 2, 4, 8, 16,
  30 seconds, whatever the attempt number; so it is at least 750 ms and at most 37.5 s.
\<close>

lemma computeBackoff_bounds:
  assumes "0 \<le> rnd" and "rnd < 1"
  shows "let b = backoff_curve ! nat (min (max 0 attempt) 5); w = computeBackoff rnd attempt in
     3 * b \<le> 4 * w \<and> 4 * w \<le> 5 * b \<and> 750000000 \<le> w \<and> w \<le> 37500000000"
  using computeBackoff_step_bounds [OF assms] by (simp add: Let_def)

text \<open>After an attempt that lasted long enough the curve starts over.\<close>

lemma Run_reset:
  assumes "\<not> rd_ctx_done rd" and "0 < ResetAfterSuccessDuration cfg"
    and "ResetAfterSuccessDuration cfg \<le> rd_elapsed rd"
  shows "hd (fst (Run cfg attempt (rd # rds))) = computeBackoff (rd_rnd rd) 0"
  using assms by (simp add: next_attempt_def Let_def split: prod.splits)

lemma Run_waits:
  "list_all (\<lambda>rd. 0 \<le> rd_rnd rd \<and> rd_rnd rd < 1) rds \<Longrightarrow>
   list_all (\<lambda>w. 750000000 \<le> w \<and> w \<le> 37500000000) (fst (Run cfg attempt rds))"
  by (induction cfg attempt rds rule: Run.induct)
     (auto simp: Let_def computeBackoff_step_bounds(3,4) split: prod.splits)

text \<open>\<open>Run\<close> only returns when its context is done: never on an error of the connection.\<close>

lemma Run_returns:
  "snd (Run cfg attempt rds) \<longleftrightarrow> (\<exists>rd \<in> set rds. rd_ctx_done rd \<or> \<not> rd_timer rd)"
  by (induction cfg attempt rds rule: Run.induct) (auto simp: Let_def split: prod.splits)

text \<open>The connected flag is down whenever \<open>runOnce\<close> has returned.\<close>

lemma runOnce_disconnects:
  "runOnce L R cfg connects sa now its r = (Failed e, r') \<Longrightarrow> \<not> IsConnected r' \<and> CheckPG r' = Some ErrNotConnected"
  by (auto simp: runOnce_def IsConnected_def CheckPG_def
      split: if_splits prod.splits sum.splits outcome.splits)

end
