(* ===== verification/Wal_Assembly.thy ===== *)
theory Wal_Assembly
  imports Wal_Reader
begin

text \<open>
  What the reader of \<open>internal/wal\<close> promises its client: a specification that only knows the
  decoded messages (no clock, no standby updates, no channel), the simulation of it by the
  reader's loop, and the consequences: every transaction sent on the channel is the whole of
  one BEGIN to COMMIT span of the stream, in order, less the rows that do not decode.
\<close>

subsection \<open>The specification\<close>

definition is_body :: "'t wal_msg \<Rightarrow> bool" where
  "is_body msg \<longleftrightarrow> (case msg of BeginMessage _ _ \<Rightarrow> False | CommitMessage _ _ \<Rightarrow> False | _ \<Rightarrow> True)"

text \<open>The change a row message stands for, if it decodes.\<close>

definition row_change ::
  "('f, 't) go_lib \<Rightarrow> value_mapper \<Rightarrow> relation_cache \<Rightarrow> 't wal_msg \<Rightarrow> 'f change option" where
  "row_change L m cache msg =
     (let row = (\<lambda>rid f. case cache rid of None \<Rightarrow> None | Some rel \<Rightarrow> f rel) in
      case msg of
        InsertMessage rid tuple \<Rightarrow>
          row rid (\<lambda>rel. case buildDataMap L m tuple rel of Inl _ \<Rightarrow> None
            | Inr (data, pk, pkCol) \<Rightarrow> Some \<lparr>Schema = ri_schema rel, Table = ri_table rel,
                Op = OpInsert, PK = pk, PKCol = pkCol, Data = data, Changed = None\<rparr>)
      | UpdateMessage rid oldTuple newTuple \<Rightarrow>
          row rid (\<lambda>rel. case buildChangedMap L m newTuple rel of Inl _ \<Rightarrow> None
            | Inr (data, pk, pkCol) \<Rightarrow>
                (let (pk', pkCol') = (if pk \<noteq> [] \<or> oldTuple = None then (pk, pkCol)
                   else case extractPKFromTuple oldTuple rel of Inl _ \<Rightarrow> (pk, pkCol) | Inr q \<Rightarrow> q)
                 in Some \<lparr>Schema = ri_schema rel, Table = ri_table rel, Op = OpUpdate, PK = pk',
                   PKCol = pkCol', Data = None, Changed = data\<rparr>))
      | DeleteMessage rid oldTuple \<Rightarrow>
          row rid (\<lambda>rel.
            (let (pk, pkCol) = (case extractPKFromTuple oldTuple rel of Inl _ \<Rightarrow> ([], []) | Inr q \<Rightarrow> q)
             in Some \<lparr>Schema = ri_schema rel, Table = ri_table rel, Op = OpDelete, PK = pk,
               PKCol = pkCol, Data = None, Changed = None\<rparr>))
      | _ \<Rightarrow> None)"

definition next_cache :: "'t wal_msg \<Rightarrow> relation_cache \<Rightarrow> relation_cache" where
  "next_cache msg cache =
     (case msg of
        RelationMessage m \<Rightarrow> (case cache_update m cache of Inl _ \<Rightarrow> cache | Inr c \<Rightarrow> c)
      | _ \<Rightarrow> cache)"

record ('f, 't) asm =
  open_tx :: "(u32 \<times> 'f change list) option"
  known :: relation_cache
  sent :: "('f, 't) tx list"

definition asm_step ::
  "('f, 't) go_lib \<Rightarrow> value_mapper \<Rightarrow> ('f, 't) asm \<Rightarrow> 't wal_msg \<Rightarrow> ('f, 't) asm" where
  "asm_step L m a msg =
     (case msg of
        BeginMessage _ x \<Rightarrow> a\<lparr>open_tx := Some (x, [])\<rparr>
      | CommitMessage c ts \<Rightarrow>
          (case open_tx a of
             None \<Rightarrow> a
           | Some (x, chs) \<Rightarrow>
               a\<lparr>open_tx := None,
                 sent := sent a @ [\<lparr>ID = x, CommitLSN = c, CommitTS = ts, Changes = chs\<rparr>]\<rparr>)
      | _ \<Rightarrow>
          a\<lparr>open_tx := map_option (\<lambda>(x, chs).
               (x, chs @ (case row_change L m (known a) msg of None \<Rightarrow> [] | Some ch \<Rightarrow> [ch]))) (open_tx a),
             known := next_cache msg (known a)\<rparr>)"

definition asm_run ::
  "('f, 't) go_lib \<Rightarrow> value_mapper \<Rightarrow> 't wal_msg list \<Rightarrow> ('f, 't) asm \<Rightarrow> ('f, 't) asm" where
  "asm_run L m msgs a = foldl (asm_step L m) a msgs"

lemma asm_run_simps [simp]:
  "asm_run L m [] a = a"
  "asm_run L m (msg # msgs) a = asm_run L m msgs (asm_step L m a msg)"
  "asm_run L m (msgs @ msgs') a = asm_run L m msgs' (asm_run L m msgs a)"
  by (simp_all add: asm_run_def)

text \<open>The changes of a span of messages: each row decoded with the relations known by then.\<close>

fun span_changes ::
  "('f, 't) go_lib \<Rightarrow> value_mapper \<Rightarrow> relation_cache \<Rightarrow> 't wal_msg list \<Rightarrow> 'f change list" where
  "span_changes L m cache [] = []"
| "span_changes L m cache (msg # msgs) =
     (case row_change L m cache msg of None \<Rightarrow> [] | Some ch \<Rightarrow> [ch])
     @ span_changes L m (next_cache msg cache) msgs"

definition relations_after :: "'t wal_msg list \<Rightarrow> relation_cache \<Rightarrow> relation_cache" where
  "relations_after msgs cache = foldl (\<lambda>c msg. next_cache msg c) cache msgs"

lemma relations_after_simps [simp]:
  "relations_after [] cache = cache"
  "relations_after (msg # msgs) cache = relations_after msgs (next_cache msg cache)"
  "relations_after (msgs @ msgs') cache = relations_after msgs' (relations_after msgs cache)"
  by (simp_all add: relations_after_def)

lemma asm_step_known [simp]: "known (asm_step L m a msg) = next_cache msg (known a)"
  by (auto simp: asm_step_def next_cache_def split: wal_msg.splits option.splits)

lemma asm_run_known [simp]: "known (asm_run L m msgs a) = relations_after msgs (known a)"
  by (induction msgs arbitrary: a) simp_all

lemma asm_step_body:
  "is_body msg \<Longrightarrow> open_tx a = Some (x, chs) \<Longrightarrow>
   open_tx (asm_step L m a msg) =
     Some (x, chs @ (case row_change L m (known a) msg of None \<Rightarrow> [] | Some ch \<Rightarrow> [ch]))
   \<and> sent (asm_step L m a msg) = sent a"
  by (cases msg) (auto simp: asm_step_def is_body_def)

lemma asm_run_body:
  "list_all is_body msgs \<Longrightarrow> open_tx a = Some (x, chs) \<Longrightarrow>
   open_tx (asm_run L m msgs a) = Some (x, chs @ span_changes L m (known a) msgs)
   \<and> sent (asm_run L m msgs a) = sent a"
proof (induction msgs arbitrary: a chs)
  case (Cons msg msgs)
  then show ?case
    using asm_step_body [of msg a x chs L m] Cons.IH [of "asm_step L m a msg"] by simp
qed simp

text \<open>One whole span.\<close>

lemma asm_run_span:
  assumes "list_all is_body body"
  shows "sent (asm_run L m (BeginMessage l x # body @ [CommitMessage c ts]) a) =
     sent a @ [\<lparr>ID = x, CommitLSN = c, CommitTS = ts, Changes = span_changes L m (known a) body\<rparr>]"
    and "open_tx (asm_run L m (BeginMessage l x # body @ [CommitMessage c ts]) a) = None"
proof -
  let ?a = "asm_step L m a (BeginMessage l x)"
  have "open_tx ?a = Some (x, [])" "known ?a = known a" "sent ?a = sent a"
    by (simp_all add: asm_step_def)
  with asm_run_body [OF assms, of ?a x "[]" L m] show
    "sent (asm_run L m (BeginMessage l x # body @ [CommitMessage c ts]) a) =
     sent a @ [\<lparr>ID = x, CommitLSN = c, CommitTS = ts, Changes = span_changes L m (known a) body\<rparr>]"
    "open_tx (asm_run L m (BeginMessage l x # body @ [CommitMessage c ts]) a) = None"
    by (simp_all add: asm_step_def [of _ _ _ "CommitMessage c ts"])
qed

text \<open>Every transaction sent is one whole span of the stream.\<close>

definition tx_of_span ::
  "('f, 't) go_lib \<Rightarrow> value_mapper \<Rightarrow> relation_cache \<Rightarrow> 't wal_msg list \<Rightarrow> ('f, 't) tx \<Rightarrow> bool" where
  "tx_of_span L m cache msgs tx \<longleftrightarrow>
     (\<exists>pre l body post.
        msgs = pre @ BeginMessage l (ID tx) # body @ CommitMessage (CommitLSN tx) (CommitTS tx) # post
        \<and> list_all is_body body
        \<and> Changes tx = span_changes L m (relations_after pre cache) body)"

definition open_span ::
  "('f, 't) go_lib \<Rightarrow> value_mapper \<Rightarrow> relation_cache \<Rightarrow> 't wal_msg list \<Rightarrow> u32 \<Rightarrow> 'f change list \<Rightarrow> bool" where
  "open_span L m cache msgs x chs \<longleftrightarrow>
     (\<exists>pre l body. msgs = pre @ BeginMessage l x # body \<and> list_all is_body body
        \<and> chs = span_changes L m (relations_after pre cache) body)"

lemma tx_of_span_snoc: "tx_of_span L m cache msgs tx \<Longrightarrow> tx_of_span L m cache (msgs @ [msg]) tx"
  unfolding tx_of_span_def by fastforce

lemma tx_of_span_append: "tx_of_span L m cache msgs tx \<Longrightarrow> tx_of_span L m cache (msgs @ msgs') tx"
  unfolding tx_of_span_def by fastforce

lemma span_changes_append:
  "span_changes L m cache (msgs @ msgs') =
   span_changes L m cache msgs @ span_changes L m (relations_after msgs cache) msgs'"
  by (induction msgs arbitrary: cache) simp_all

lemma open_span_snoc:
  assumes "open_span L m cache msgs x chs" and "is_body msg"
  shows "open_span L m cache (msgs @ [msg]) x
    (chs @ (case row_change L m (relations_after msgs cache) msg of None \<Rightarrow> [] | Some ch \<Rightarrow> [ch]))"
proof -
  obtain pre l body where s: "msgs = pre @ BeginMessage l x # body" "list_all is_body body"
      "chs = span_changes L m (relations_after pre cache) body"
    using assms(1) unfolding open_span_def by blast
  have "span_changes L m (relations_after pre cache) (body @ [msg]) =
      chs @ (case row_change L m (relations_after msgs cache) msg of None \<Rightarrow> [] | Some ch \<Rightarrow> [ch])"
    by (simp add: s next_cache_def [of "BeginMessage l x"] span_changes_append)
  moreover have "msgs @ [msg] = pre @ BeginMessage l x # (body @ [msg])" "list_all is_body (body @ [msg])"
    using s assms(2) by simp_all
  ultimately show ?thesis unfolding open_span_def by metis
qed

lemma asm_sound:
  assumes "open_tx a = None"
  shows "\<exists>txs. sent (asm_run L m msgs a) = sent a @ txs \<and> list_all (tx_of_span L m (known a) msgs) txs
    \<and> (\<forall>x chs. open_tx (asm_run L m msgs a) = Some (x, chs) \<longrightarrow> open_span L m (known a) msgs x chs)"
proof (induction msgs rule: rev_induct)
  case (snoc msg msgs)
  let ?b = "asm_run L m msgs a"
  obtain txs where txs: "sent ?b = sent a @ txs" "list_all (tx_of_span L m (known a) msgs) txs"
    and op: "\<And>x chs. open_tx ?b = Some (x, chs) \<Longrightarrow> open_span L m (known a) msgs x chs"
    using snoc by blast
  have old: "list_all (tx_of_span L m (known a) (msgs @ [msg])) txs"
    using txs(2) by (auto simp: list_all_iff intro: tx_of_span_snoc)
  show ?case
  proof (cases "is_body msg")
    case True
    show ?thesis
    proof (cases "open_tx ?b")
      case None
      then have "open_tx (asm_step L m ?b msg) = None" "sent (asm_step L m ?b msg) = sent ?b"
        using True by (cases msg; simp add: asm_step_def is_body_def)+
      then show ?thesis using old txs(1) by auto
    next
      case (Some xc)
      obtain x chs where xc: "xc = (x, chs)" by (cases xc)
      have "open_span L m (known a) (msgs @ [msg]) x
          (chs @ (case row_change L m (known ?b) msg of None \<Rightarrow> [] | Some ch \<Rightarrow> [ch]))"
        using open_span_snoc [OF op True] Some xc by simp
      then show ?thesis
        using asm_step_body [OF True Some [unfolded xc], of L m] old txs(1) by auto
    qed
  next
    case False
    then consider (begin_msg) l x where "msg = BeginMessage l x"
      | (commit) c ts where "msg = CommitMessage c ts"
      by (cases msg) (auto simp: is_body_def)
    then show ?thesis
    proof cases
      case begin_msg
      then have "open_span L m (known a) (msgs @ [msg]) x []"
        unfolding open_span_def by force
      then show ?thesis using old txs(1) begin_msg by (auto simp: asm_step_def)
    next
      case commit
      show ?thesis
      proof (cases "open_tx ?b")
        case None
        with commit old txs(1) show ?thesis by (auto simp: asm_step_def)
      next
        case (Some xc)
        obtain x chs where xc: "xc = (x, chs)" by (cases xc)
        let ?tx = "\<lparr>ID = x, CommitLSN = c, CommitTS = ts, Changes = chs\<rparr>"
        obtain pre l body where "msgs = pre @ BeginMessage l x # body" "list_all is_body body"
            "chs = span_changes L m (relations_after pre (known a)) body"
          using op [of x chs] Some xc unfolding open_span_def by auto
        then have "tx_of_span L m (known a) (msgs @ [msg]) ?tx"
          unfolding tx_of_span_def commit by force
        then show ?thesis
          using old txs(1) by (auto simp: asm_step_def commit Some xc intro!: exI [of _ "txs @ [?tx]"])
      qed
    qed
  qed
qed (simp add: assms)

subsection \<open>The reader implements it\<close>

definition abs_reader :: "('f, 't) reader \<Rightarrow> ('f, 't) asm" where
  "abs_reader r =
     \<lparr>open_tx = map_option (\<lambda>t. (xid t, changes t)) (inFlight (txBld r)), known = relCache r,
      sent = txCh r\<rparr>"

lemma abs_reader_sel [simp]:
  "open_tx (abs_reader r) = map_option (\<lambda>t. (xid t, changes t)) (inFlight (txBld r))"
  "known (abs_reader r) = relCache r" "sent (abs_reader r) = txCh r"
  by (simp_all add: abs_reader_def)

lemma deliver_frame:
  "deliver tx evs r = (res, r') \<Longrightarrow>
   txBld r' = txBld r \<and> relCache r' = relCache r \<and> ackLSN r' = ackLSN r
   \<and> lastCommittedLSN r' = lastCommittedLSN r \<and> nextStandby r' = nextStandby r
   \<and> connected r' = connected r \<and> standbyInterval r' = standbyInterval r
   \<and> txCh r' = txCh r @ (if res = Some True then [tx] else [])
   \<and> (\<exists>l. acks r' = acks r @ l \<and> set l \<subseteq> {ackLSN r})"
proof (induction tx evs r rule: deliver.induct)
  case (4 tx evs r)
  then show ?case by (auto simp: sendStandby_def)
qed auto

lemma handle_insert_change:
  "keep_result (HandleInsert L rid tuple (relCache r) (txBld r)) r =
     r\<lparr>txBld := txBld r\<lparr>inFlight := map_option (\<lambda>t. t\<lparr>changes := changes t @
       (case row_change L (mapper (txBld r)) (relCache r) (InsertMessage rid tuple) of
          None \<Rightarrow> [] | Some ch \<Rightarrow> [ch])\<rparr>) (inFlight (txBld r))\<rparr>\<rparr>"
  by (cases "inFlight (txBld r)")
     (auto simp: wal_defs row_change_def split: option.splits sum.splits)

lemma handle_update_change:
  "keep_result (HandleUpdate L rid old new (relCache r) (txBld r)) r =
     r\<lparr>txBld := txBld r\<lparr>inFlight := map_option (\<lambda>t. t\<lparr>changes := changes t @
       (case row_change L (mapper (txBld r)) (relCache r) (UpdateMessage rid old new) of
          None \<Rightarrow> [] | Some ch \<Rightarrow> [ch])\<rparr>) (inFlight (txBld r))\<rparr>\<rparr>"
  by (cases "inFlight (txBld r)")
     (auto simp: wal_defs row_change_def Let_def split: option.splits sum.splits)

lemma handle_delete_change:
  "keep_result (HandleDelete rid old (relCache r) (txBld r)) r =
     r\<lparr>txBld := txBld r\<lparr>inFlight := map_option (\<lambda>t. t\<lparr>changes := changes t @
       (case row_change L (mapper (txBld r)) (relCache r) (DeleteMessage rid old) of
          None \<Rightarrow> [] | Some ch \<Rightarrow> [ch])\<rparr>) (inFlight (txBld r))\<rparr>\<rparr>"
  by (cases "inFlight (txBld r)")
     (auto simp: wal_defs row_change_def Let_def extractPKFromTuple_def split: option.splits sum.splits)

lemma handle_msg_sim:
  assumes "handle_msg L msg evs r = (Continue, r')"
  shows "abs_reader r' = asm_step L (mapper (txBld r)) (abs_reader r) msg
    \<and> mapper (txBld r') = mapper (txBld r)"
proof (cases msg)
  case (CommitMessage c ts)
  with assms show ?thesis
    by (cases "inFlight (txBld r)")
       (auto simp: asm_step_def wal_defs abs_reader_def split: prod.splits option.splits bool.splits
         dest!: deliver_frame)
next
  case (RelationMessage m)
  with assms show ?thesis
    by (auto simp: asm_step_def abs_reader_def next_cache_def row_change_def option.map_id0 split: sum.splits)
next
  case (InsertMessage rid tuple)
  with assms show ?thesis
    by (auto simp: asm_step_def abs_reader_def next_cache_def handle_insert_change option.map_comp comp_def)
next
  case (UpdateMessage rid old new)
  with assms show ?thesis
    by (auto simp: asm_step_def abs_reader_def next_cache_def handle_update_change option.map_comp comp_def)
next
  case (DeleteMessage rid old)
  with assms show ?thesis
    by (auto simp: asm_step_def abs_reader_def next_cache_def handle_delete_change [where L = L]
        option.map_comp comp_def)
qed (use assms in \<open>auto simp: asm_step_def abs_reader_def wal_defs next_cache_def row_change_def option.map_id0\<close>)

lemma handle_msg_stop:
  assumes "handle_msg L msg evs r = (res, r')" and "res \<noteq> Continue"
  shows "txCh r' = txCh r" and "relCache r' = relCache r"
  using assms
  by (cases msg; auto simp: wal_defs split: prod.splits option.splits bool.splits if_splits
      dest!: deliver_frame)+

text \<open>The message an iteration of the loop decodes, if any.\<close>

definition iter_msg :: "'t repl_lib \<Rightarrow> iteration \<Rightarrow> 't wal_msg list" where
  "iter_msg R it =
     (case it_recv it of
        RecvCopyData (b # rest) \<Rightarrow>
          (if b = XLogDataByteID then
             (case ParseXLogData R rest of
                Some (w # ws) \<Rightarrow> (case Parse R (w # ws) of Some m \<Rightarrow> [m] | None \<Rightarrow> [])
              | _ \<Rightarrow> [])
           else [])
      | _ \<Rightarrow> [])"

lemma abs_loop_head [simp]:
  "abs_reader (loop_head it r) = abs_reader r" "txBld (loop_head it r) = txBld r"
  by (simp_all add: wal_defs abs_reader_def Let_def)

lemma abs_keepalive [simp]:
  "abs_reader (handle_keepalive p b now r) = abs_reader r" "txBld (handle_keepalive p b now r) = txBld r"
  by (simp_all add: wal_defs abs_reader_def Let_def)

lemma byte_ids [simp]: "PrimaryKeepaliveMessageByteID \<noteq> XLogDataByteID" "XLogDataByteID \<noteq> PrimaryKeepaliveMessageByteID"
  by (simp_all add: PrimaryKeepaliveMessageByteID_def XLogDataByteID_def)

text \<open>An iteration either decodes no message and keeps the state, or is one \<open>handle_msg\<close>.\<close>

lemma handle_recv_cases:
  assumes "handle_recv L R it r = (res, r')"
  obtains (quiet) "iter_msg R it = []" "res = Continue" "abs_reader r' = abs_reader r" "txBld r' = txBld r"
  | (lost) "iter_msg R it = []" "res = Failed ErrReceiveMessage" "r' = reset_builder r"
  | (message) msg s res' where "iter_msg R it = [msg]" "handle_msg L msg (it_deliver it) r = (res', s)"
      "res' = Continue \<and> res = Continue \<and> r' = s \<or> res' = Blocked \<and> res = Blocked \<and> r' = s \<or>
       (\<exists>e. res' = Failed e) \<and> res = Failed ErrProcessWAL \<and> r' = reset_builder s"
proof (cases "it_recv it")
  case (RecvErr e)
  with assms that show thesis
    by (auto simp: handle_recv_def iter_msg_def split: if_splits)
next
  case RecvOther
  with assms that show thesis by (auto simp: handle_recv_def iter_msg_def)
next
  case (RecvCopyData data)
  show thesis
  proof (cases data)
    case Nil
    with RecvCopyData assms that show thesis by (auto simp: handle_recv_def iter_msg_def)
  next
    case (Cons b rest)
    show thesis
    proof (cases "b = XLogDataByteID")
      case False
      with RecvCopyData Cons assms that(1) show thesis
        by (auto simp: handle_recv_def iter_msg_def split: if_splits option.splits prod.splits)
    next
      case True
      show thesis
      proof (cases "iter_msg R it")
        case Nil
        with RecvCopyData Cons True assms that(1) show thesis
          by (auto simp: handle_recv_def iter_msg_def processWALMessage_def
              split: if_splits option.splits list.splits)
      next
        case (Cons msg ms)
        obtain walData where w: "ParseXLogData R rest = Some walData" "walData \<noteq> []"
            "Parse R walData = Some msg" "ms = []"
          using Cons RecvCopyData \<open>data = b # rest\<close> True
          by (auto simp: iter_msg_def split: option.splits list.splits)
        obtain res' s where h: "handle_msg L msg (it_deliver it) r = (res', s)" by fastforce
        have "handle_recv L R it r = (case (res', s) of
            (Failed e, r') \<Rightarrow> (Failed ErrProcessWAL, reset_builder r') | res \<Rightarrow> res)"
          using RecvCopyData \<open>data = b # rest\<close> True w h by (simp add: handle_recv_def processWALMessage_def)
        with assms show thesis
          using that(3) [of msg res' s] Cons w(4) h by (cases res') auto
      qed
    qed
  qed
qed

lemma loop_step_sim:
  assumes "loop_step L R it r = (Continue, r')"
  shows "abs_reader r' = asm_run L (mapper (txBld r)) (iter_msg R it) (abs_reader r)
    \<and> mapper (txBld r') = mapper (txBld r)"
  using assms unfolding loop_step_def
proof (cases rule: handle_recv_cases)
  case (message msg s res')
  then show ?thesis using handle_msg_sim [of L msg "it_deliver it" "loop_head it r" r'] by auto
qed auto

lemma loop_step_stop:
  assumes "loop_step L R it r = (res, r')" and "res \<noteq> Continue"
  shows "txCh r' = txCh r"
proof -
  have h: "txCh (loop_head it r) = txCh r" by (simp add: loop_head_def Let_def sendStandby_def)
  have "txCh (reset_builder s) = txCh s" for s :: "('a, 'b) reader" by (simp add: reset_builder_def)
  with assms h show ?thesis
    unfolding loop_step_def
    by (cases rule: handle_recv_cases) (auto dest: handle_msg_stop(1))
qed

text \<open>The run of the loop sends what the specification sends for the messages it got through.\<close>

lemma loop_steps_sim:
  "loop_steps L R its r = (res, r') \<Longrightarrow>
   \<exists>n \<le> length its. txCh r' = sent (asm_run L (mapper (txBld r)) (concat (map (iter_msg R) (take n its))) (abs_reader r))
     \<and> (res = Continue \<longrightarrow> n = length its
          \<and> abs_reader r' = asm_run L (mapper (txBld r)) (concat (map (iter_msg R) its)) (abs_reader r))"
proof (induction its arbitrary: r)
  case (Cons it its)
  obtain res1 r1 where s: "loop_step L R it r = (res1, r1)" by fastforce
  show ?case
  proof (cases "res1 = Continue")
    case True
    with s Cons.prems have "loop_steps L R its r1 = (res, r')" by simp
    from Cons.IH [OF this] obtain n where n: "n \<le> length its"
      "txCh r' = sent (asm_run L (mapper (txBld r1)) (concat (map (iter_msg R) (take n its))) (abs_reader r1))"
      "res = Continue \<Longrightarrow> n = length its
          \<and> abs_reader r' = asm_run L (mapper (txBld r1)) (concat (map (iter_msg R) its)) (abs_reader r1)"
      by blast
    then show ?thesis
      using loop_step_sim [of L R it r r1] s True by (intro exI [of _ "Suc n"]) auto
  next
    case False
    with s Cons.prems have "res = res1" "r' = r1" by (cases res1; simp)+
    then show ?thesis
      using loop_step_stop [OF s False] False by (intro exI [of _ 0]) simp
  qed
qed (simp flip: abs_reader_sel(3))

subsection \<open>What the router receives\<close>

lemma abs_reader_start:
  "abs_reader (r\<lparr>txBld := newTxBuilderWithConfig u, ackLSN := 0, relCache := newRelationCache,
     nextStandby := t\<rparr>) = \<lparr>open_tx = None, known = newRelationCache, sent = txCh r\<rparr>"
  by (simp add: abs_reader_def newTxBuilderWithConfig_def)

lemma runLoop_spans:
  assumes "runLoop L R assumeUTC now its r = (res, r')"
  shows "\<exists>n \<le> length its. \<exists>txs. txCh r' = txCh r @ txs
    \<and> list_all (tx_of_span L \<lparr>naiveTimestampAssumeUTC = assumeUTC\<rparr> newRelationCache
         (concat (map (iter_msg R) (take n its)))) txs"
proof -
  let ?m = "\<lparr>naiveTimestampAssumeUTC = assumeUTC\<rparr>"
  let ?a = "\<lparr>open_tx = None, known = newRelationCache, sent = txCh r\<rparr>"
  let ?r = "r\<lparr>txBld := newTxBuilderWithConfig assumeUTC, ackLSN := 0, relCache := newRelationCache,
     nextStandby := now + standbyEvery r\<rparr>"
  have r: "abs_reader ?r = ?a" "mapper (txBld ?r) = ?m"
    by (rule abs_reader_start) (simp add: newTxBuilderWithConfig_def)
  obtain n where "n \<le> length its"
    "txCh r' = sent (asm_run L ?m (concat (map (iter_msg R) (take n its))) ?a)"
    using loop_steps_sim [OF assms [unfolded runLoop_def]] unfolding r by blast
  then show ?thesis
    using asm_sound [of ?a L ?m "concat (map (iter_msg R) (take n its))"] by auto
qed

text \<open>
  C2: whatever happens on a connection (lost messages, keepalives, a router that blocks, a
  shutdown), every transaction \<open>runLoop\<close> sends on the channel is one whole BEGIN to COMMIT
  span of the messages received, with the ID of its BEGIN, the position and time of its COMMIT,
  and as its changes exactly the rows of the span that decode, in order. No transaction is
  torn, merged or sent before its COMMIT.
\<close>

theorem runLoop_sends_spans:
  assumes "runLoop L R assumeUTC now its r = (res, r')"
  shows "\<exists>n \<le> length its. \<exists>txs. txCh r' = txCh r @ txs
    \<and> list_all (tx_of_span L \<lparr>naiveTimestampAssumeUTC = assumeUTC\<rparr> newRelationCache
         (concat (map (iter_msg R) (take n its)))) txs"
  by (rule runLoop_spans [OF assms])

text \<open>
  C15: a whole span reaches the channel. While the loop goes on, the messages BEGIN, rows,
  COMMIT add exactly one transaction, holding the rows that decode, whatever transaction was
  open before (its rows are dropped) and however standby updates are interleaved.
\<close>

theorem loop_delivers_span:
  assumes "loop_steps L R its r = (Continue, r')"
    and "concat (map (iter_msg R) its) = BeginMessage l x # body @ [CommitMessage c ts]"
    and "list_all is_body body"
  shows "txCh r' = txCh r @
    [\<lparr>ID = x, CommitLSN = c, CommitTS = ts,
      Changes = span_changes L (mapper (txBld r)) (relCache r) body\<rparr>]
    \<and> \<not> InTx (txBld r')"
proof -
  have a: "abs_reader r' = asm_run L (mapper (txBld r)) (concat (map (iter_msg R) its)) (abs_reader r)"
    using loop_steps_sim [OF assms(1)] by auto
  have "txCh r' = sent (abs_reader r')" "InTx (txBld r') \<longleftrightarrow> open_tx (abs_reader r') \<noteq> None"
    by (simp_all add: InTx_def)
  then show ?thesis
    unfolding a assms(2) asm_run_span [OF assms(3)] by simp
qed

subsection \<open>Positions reported to the server\<close>

lemma handle_msg_ack:
  "handle_msg L msg evs r = (res, r') \<Longrightarrow>
   ackLSN r \<le> ackLSN r' \<and> (\<exists>l. acks r' = acks r @ l \<and> set l \<subseteq> {ackLSN r'})
   \<and> (InTx (txBld r') \<longrightarrow> ackLSN r' = ackLSN r)"
  by (cases msg; auto simp: wal_defs split: prod.splits option.splits bool.splits if_splits sum.splits
      dest!: deliver_frame)

lemma handle_keepalive_ack:
  "ackLSN r \<le> ackLSN (handle_keepalive p b now r)"
  "\<exists>l. acks (handle_keepalive p b now r) = acks r @ l \<and> set l \<subseteq> {ackLSN (handle_keepalive p b now r)}"
  "InTx (txBld r) \<Longrightarrow> ackLSN (handle_keepalive p b now r) = ackLSN r"
  by (auto simp: wal_defs Let_def)

lemma handle_recv_ack:
  assumes "handle_recv L R it r = (res, r')"
  shows "ackLSN r \<le> ackLSN r' \<and> (\<exists>l. acks r' = acks r @ l \<and> set l \<subseteq> {ackLSN r'})
    \<and> (InTx (txBld r) \<longrightarrow> InTx (txBld r') \<longrightarrow> ackLSN r' = ackLSN r)"
proof (cases "\<exists>rest p b. it_recv it = RecvCopyData (PrimaryKeepaliveMessageByteID # rest)
    \<and> ParsePrimaryKeepaliveMessage R rest = Some (p, b)")
  case True
  with assms show ?thesis using handle_keepalive_ack by (fastforce simp: handle_recv_def)
next
  case False
  have reset: "acks (reset_builder s) = acks s" "ackLSN (reset_builder s) = ackLSN s"
    "\<not> InTx (txBld (reset_builder s))" for s :: "('a, 'b) reader"
    by (simp_all add: reset_builder_def builder_Reset_def InTx_def)
  from False assms show ?thesis
    by (auto simp: handle_recv_def processWALMessage_def reset
        split: recv.splits list.splits if_splits option.splits prod.splits outcome.splits
        dest!: handle_msg_ack)
qed

lemma loop_head_ack:
  "ackLSN (loop_head it r) = ackLSN r" "\<exists>l. acks (loop_head it r) = acks r @ l \<and> set l \<subseteq> {ackLSN r}"
  by (auto simp: wal_defs Let_def)

lemma loop_step_ack:
  assumes "loop_step L R it r = (res, r')"
  obtains l l' where "acks r' = acks r @ l @ l'" "set l \<subseteq> {ackLSN r}" "set l' \<subseteq> {ackLSN r'}"
    "ackLSN r \<le> ackLSN r'" "InTx (txBld r) \<Longrightarrow> InTx (txBld r') \<Longrightarrow> ackLSN r' = ackLSN r"
proof -
  obtain l where l: "acks (loop_head it r) = acks r @ l" "set l \<subseteq> {ackLSN r}"
    using loop_head_ack(2) by blast
  note h = handle_recv_ack [OF assms [unfolded loop_step_def], unfolded loop_head_ack(1) abs_loop_head(2)]
  from h obtain l' where "acks r' = acks (loop_head it r) @ l'" "set l' \<subseteq> {ackLSN r'}" by blast
  with h l show thesis by (intro that [of l l']) simp_all
qed

lemma sorted_blocks:
  fixes a b :: "'a::linorder"
  assumes "set l \<subseteq> {a}" "set l' \<subseteq> {b}" "a \<le> b"
  shows "sorted (l @ l')"
proof -
  have "sorted k" if "set k \<subseteq> {c}" for k :: "'a list" and c
    using that by (induction k) auto
  with assms show ?thesis by (auto simp: sorted_append)
qed

text \<open>
  C30: while a transaction stays open, the position reported to the server does not move:
  keepalives do not advance it past rows that have not been delivered.
\<close>

theorem ack_waits_for_commit:
  assumes "loop_step L R it r = (res, r')" and "InTx (txBld r)" and "InTx (txBld r')"
  shows "ackLSN r' = ackLSN r \<and> (\<exists>l. acks r' = acks r @ l \<and> set l \<subseteq> {ackLSN r})"
proof (rule loop_step_ack [OF assms(1)])
  fix l l'
  assume "acks r' = acks r @ l @ l'" "set l \<subseteq> {ackLSN r}" "set l' \<subseteq> {ackLSN r'}"
    and "InTx (txBld r) \<Longrightarrow> InTx (txBld r') \<Longrightarrow> ackLSN r' = ackLSN r"
  with assms(2,3) show ?thesis by (intro conjI exI [of _ "l @ l'"]) auto
qed

lemma loop_steps_ack:
  "loop_steps L R its r = (res, r') \<Longrightarrow>
   ackLSN r \<le> ackLSN r' \<and> (\<exists>l. acks r' = acks r @ l \<and> sorted l \<and> (\<forall>a \<in> set l. ackLSN r \<le> a \<and> a \<le> ackLSN r'))"
proof (induction its arbitrary: r)
  case (Cons it its)
  obtain res1 r1 where s: "loop_step L R it r = (res1, r1)" by fastforce
  obtain l l' where l: "acks r1 = acks r @ l @ l'" "set l \<subseteq> {ackLSN r}" "set l' \<subseteq> {ackLSN r1}"
      "ackLSN r \<le> ackLSN r1"
    by (rule loop_step_ack [OF s])
  have sorted: "sorted (l @ l')" using l(2-4) by (rule sorted_blocks)
  have rng: "\<forall>a \<in> set (l @ l'). ackLSN r \<le> a \<and> a \<le> ackLSN r1" using l(2-4) by auto
  show ?case
  proof (cases "res1 = Continue")
    case True
    with s Cons.prems have "loop_steps L R its r1 = (res, r')" by simp
    from Cons.IH [OF this] obtain k where k: "ackLSN r1 \<le> ackLSN r'" "acks r' = acks r1 @ k" "sorted k"
      "\<forall>a \<in> set k. ackLSN r1 \<le> a \<and> a \<le> ackLSN r'" by blast
    have "sorted ((l @ l') @ k)"
      unfolding sorted_append [of "l @ l'" k] using sorted k(3,4) rng by (auto intro: order_trans)
    moreover have "\<forall>a \<in> set ((l @ l') @ k). ackLSN r \<le> a \<and> a \<le> ackLSN r'"
      using rng k(1,4) l(4) by (auto intro: order_trans)
    ultimately show ?thesis
      using k(1,2) l(1,4) by (intro conjI exI [of _ "(l @ l') @ k"]) auto
  next
    case False
    with s Cons.prems have "r' = r1" by (cases res1; simp)
    with sorted rng l show ?thesis by (intro conjI exI [of _ "l @ l'"]) auto
  qed
qed auto

text \<open>
  on one connection the positions reported to the server never go back, and none is past
  the reader's position.
\<close>

lemma acks_sorted:
  assumes "runLoop L R assumeUTC now its r = (res, r')"
  shows "\<exists>l. acks r' = acks r @ l \<and> sorted l \<and> (\<forall>a \<in> set l. a \<le> ackLSN r')"
  using loop_steps_ack [OF assms [unfolded runLoop_def]] by auto

end
