(* ===== verification/Router_Index.thy ===== *)
theory Router_Index
  imports Prelude
begin

text \<open>
  \<open>internal/router/index.go\<close> and \<open>wildcard.go\<close>: the two tables from channel keys to
  subscribers. A subscriber pointer is its address, a number. The exact index holds a set per
  key, the wildcard index a slice per key; both meet the interface \<open>sub_index\<close> the
  broadcaster relies on.
\<close>

type_synonym sid = nat
type_synonym key = string

subsection \<open>The exact index\<close>

text \<open>A Go map used as a set is the list of its keys, each once.\<close>

type_synonym exact_index = "(key, sid list) gomap"

definition newIndex :: exact_index where
  "newIndex = []"

definition entries :: "(key, sid list) gomap \<Rightarrow> key \<Rightarrow> sid list" where
  "entries m k = (case gm_get m k of None \<Rightarrow> [] | Some subs \<Rightarrow> subs)"

definition exact_Add :: "key \<Rightarrow> sid \<Rightarrow> exact_index \<Rightarrow> exact_index" where
  "exact_Add k s m = gm_set k (List.insert s (entries m k)) m"

definition exact_Remove :: "key \<Rightarrow> sid \<Rightarrow> exact_index \<Rightarrow> exact_index" where
  "exact_Remove k s m =
     (case gm_get m k of
        None \<Rightarrow> m
      | Some subs \<Rightarrow>
          (let subs' = removeAll s subs
           in if length subs' = 0 then gm_del k m else gm_set k subs' m))"

definition exact_Lookup :: "exact_index \<Rightarrow> key \<Rightarrow> sid list" where
  "exact_Lookup m k = entries m k"

definition exact_Len :: "exact_index \<Rightarrow> nat" where
  "exact_Len m = gm_sum length m"

definition exact_Snapshot :: "exact_index \<Rightarrow> sid list" where
  "exact_Snapshot m = concat (map snd m)"

subsection \<open>The wildcard index\<close>

type_synonym wildcard_index = "(key, sid list) gomap"

definition newWildcardIndex :: wildcard_index where
  "newWildcardIndex = []"

definition wild_Add :: "key \<Rightarrow> sid \<Rightarrow> wildcard_index \<Rightarrow> wildcard_index" where
  "wild_Add k s m = gm_set k (entries m k @ [s]) m"

definition wild_Remove :: "key \<Rightarrow> sid \<Rightarrow> wildcard_index \<Rightarrow> wildcard_index" where
  "wild_Remove k s m =
     (let subs = entries m k in
      if s \<in> set subs
      then (let subs' = remove1 s subs
            in if length subs' = 0 then gm_del k m else gm_set k subs' m)
      else m)"

definition wild_Lookup :: "wildcard_index \<Rightarrow> key \<Rightarrow> sid list" where
  "wild_Lookup m k = entries m k"

definition wild_Len :: "wildcard_index \<Rightarrow> nat" where
  "wild_Len m = gm_sum length m"

definition wild_Snapshot :: "wildcard_index \<Rightarrow> sid list" where
  "wild_Snapshot m = concat (map snd m)"

subsection \<open>The interface\<close>

text \<open>
  What the broadcaster relies on: under each key a set of subscribers, a count that follows
  registrations one by one, and a snapshot that misses nobody. \<open>ok\<close> is the invariant; adding
  requires that the subscriber is not there yet, since the wildcard index is a slice.
\<close>

locale sub_index =
  fixes ok :: "'i \<Rightarrow> bool"
    and none :: 'i
    and add :: "key \<Rightarrow> sid \<Rightarrow> 'i \<Rightarrow> 'i"
    and del :: "key \<Rightarrow> sid \<Rightarrow> 'i \<Rightarrow> 'i"
    and look :: "'i \<Rightarrow> key \<Rightarrow> sid list"
    and len :: "'i \<Rightarrow> nat"
    and snap :: "'i \<Rightarrow> sid list"
  assumes ok_none: "ok none"
    and ok_add: "ok i \<Longrightarrow> s \<notin> set (look i k) \<Longrightarrow> ok (add k s i)"
    and ok_del: "ok i \<Longrightarrow> ok (del k s i)"
    and look_none: "look none k = []"
    and look_add: "ok i \<Longrightarrow> set (look (add k s i) k') = (if k' = k then insert s (set (look i k)) else set (look i k'))"
    and look_del: "ok i \<Longrightarrow> set (look (del k s i) k') = (if k' = k then set (look i k) - {s} else set (look i k'))"
    and snap_all: "ok i \<Longrightarrow> set (snap i) = (\<Union>k. set (look i k))"
    and len_none: "len none = 0"
    and len_add: "ok i \<Longrightarrow> s \<notin> set (look i k) \<Longrightarrow> len (add k s i) = Suc (len i)"
    and len_del: "ok i \<Longrightarrow> s \<in> set (look i k) \<Longrightarrow> Suc (len (del k s i)) = len i"
    and len_snap: "ok i \<Longrightarrow> len i = length (snap i)"
begin

lemma look_del_add:
  "ok i \<Longrightarrow> s \<notin> set (look i k) \<Longrightarrow> set (look (del k s (add k s i)) k') = set (look i k')"
  by (simp add: look_del look_add ok_add)

lemma len_del_add:
  "ok i \<Longrightarrow> s \<notin> set (look i k) \<Longrightarrow> len (del k s (add k s i)) = len i"
  using len_del [of "add k s i" s k] by (simp add: ok_add look_add len_add)

lemma snap_add: "ok i \<Longrightarrow> s \<notin> set (look i k) \<Longrightarrow> set (snap (add k s i)) = insert s (set (snap i))"
  by (auto simp: snap_all ok_add look_add split: if_splits)

lemma len_0_iff: "ok i \<Longrightarrow> len i = 0 \<longleftrightarrow> (\<forall>k. look i k = [])"
  using snap_all [of i] by (auto simp: len_snap simp flip: set_empty)

end

subsection \<open>Both tables provide it\<close>

text \<open>No key twice, no subscriber twice under a key, and no empty entry is kept.\<close>

definition index_ok :: "(key, sid list) gomap \<Rightarrow> bool" where
  "index_ok m \<longleftrightarrow> gm_ok m \<and> (\<forall>subs \<in> snd ` set m. distinct subs \<and> subs \<noteq> [])"

lemma index_ok_Nil [simp]: "index_ok []"
  by (simp add: index_ok_def)

lemma entries_set [simp]: "entries (gm_set k v m) k' = (if k' = k then v else entries m k')"
  by (simp add: entries_def)

lemma entries_del [simp]: "entries (gm_del k m) k' = (if k' = k then [] else entries m k')"
  by (simp add: entries_def)

lemma entries_Nil [simp]: "entries [] k = []"
  by (simp add: entries_def)

lemma set_gm_del: "set (gm_del k m) \<subseteq> set m"
  by (auto simp: AList.delete_eq)

lemma set_gm_update: "set (gm_set k v m) \<subseteq> insert (k, v) (set m)"
  by (induction m) auto

lemma index_ok_set: "index_ok m \<Longrightarrow> distinct v \<Longrightarrow> v \<noteq> [] \<Longrightarrow> index_ok (gm_set k v m)"
  using set_gm_update [of k v m] by (auto simp: index_ok_def)

lemma index_ok_del: "index_ok m \<Longrightarrow> index_ok (gm_del k m)"
  using set_gm_del [of k m] by (auto simp: index_ok_def)

lemma index_ok_get: "index_ok m \<Longrightarrow> gm_get m k = Some subs \<Longrightarrow> distinct subs \<and> subs \<noteq> []"
  unfolding index_ok_def by (metis gm_mem_iff image_eqI snd_conv)

lemma entries_distinct: "index_ok m \<Longrightarrow> distinct (entries m k)"
  by (auto simp: entries_def index_ok_get split: option.splits)

lemma entries_snapshot:
  assumes "index_ok m"
  shows "set (concat (map snd m)) = (\<Union>k. set (entries m k))"
proof (intro equalityI subsetI)
  fix s assume "s \<in> set (concat (map snd m))"
  then obtain k subs where "(k, subs) \<in> set m" "s \<in> set subs" by auto
  with assms have "s \<in> set (entries m k)"
    by (simp add: entries_def index_ok_def gm_mem_iff)
  then show "s \<in> (\<Union>k. set (entries m k))" by blast
next
  fix s assume "s \<in> (\<Union>k. set (entries m k))"
  then obtain k where "s \<in> set (entries m k)" by blast
  then obtain subs where "gm_get m k = Some subs" "s \<in> set subs"
    by (cases "gm_get m k") (auto simp: entries_def)
  then show "s \<in> set (concat (map snd m))" by (force dest: map_of_SomeD)
qed

lemma gm_sum_entries_set:
  "gm_ok m \<Longrightarrow> gm_sum length (gm_set k v m) + length (entries m k) = gm_sum length m + length v"
  using gm_sum_set [of m length k v] by (simp add: entries_def split: option.splits)

lemma gm_sum_entries_del:
  "gm_ok m \<Longrightarrow> gm_sum length (gm_del k m) + length (entries m k) = gm_sum length m"
  using gm_sum_del [of m length k] by (simp add: entries_def split: option.splits)

lemma gm_sum_length: "gm_sum length m = length (concat (map snd m))"
  by (induction m) (auto simp: gm_sum_def)

lemma index_ok_gm: "index_ok m \<Longrightarrow> gm_ok m"
  by (simp add: index_ok_def)

lemma len_removed:
  assumes "index_ok m" and "s \<in> set (entries m k)"
  shows "Suc (gm_sum length (if length (remove1 s (entries m k)) = 0 then gm_del k m
     else gm_set k (remove1 s (entries m k)) m)) = gm_sum length m"
  using gm_sum_entries_del [OF index_ok_gm [OF assms(1)], of k]
    gm_sum_entries_set [OF index_ok_gm [OF assms(1)], of k "remove1 s (entries m k)"]
    length_remove1_in [OF assms(2)]
  by auto

text \<open>On a set, both removals are \<open>remove1\<close> with the empty entry deleted.\<close>

lemma exact_Remove_eq: "index_ok m \<Longrightarrow> exact_Remove k s m = wild_Remove k s m"
proof -
  assume ok: "index_ok m"
  show ?thesis
  proof (cases "gm_get m k")
    case None
    then show ?thesis by (simp add: exact_Remove_def wild_Remove_def entries_def)
  next
    case (Some subs)
    then have "distinct subs" "subs \<noteq> []"
      using index_ok_get [OF ok] by simp_all
    moreover have "gm_set k subs m = m" if "gm_get m k = Some subs"
      using that by (induction m) (auto split: if_splits)
    ultimately show ?thesis using Some
      by (simp add: exact_Remove_def wild_Remove_def entries_def Let_def distinct_remove1_removeAll)
  qed
qed

lemma wild_Remove_ok: "index_ok m \<Longrightarrow> index_ok (wild_Remove k s m)"
  using entries_distinct [of m k]
  by (auto simp: wild_Remove_def Let_def intro!: index_ok_set index_ok_del)

lemma wild_Remove_entries:
  assumes "index_ok m"
  shows "set (entries (wild_Remove k s m) k') =
     (if k' = k then set (entries m k) - {s} else set (entries m k'))"
proof -
  have set1: "set (remove1 s (entries m k)) = set (entries m k) - {s}"
    by (rule set_remove1_eq) (rule entries_distinct [OF assms])
  show ?thesis
  proof (cases "remove1 s (entries m k) = []")
    case True
    with set1 have "set (entries m k) - {s} = {}" by simp
    with True show ?thesis by (auto simp: wild_Remove_def Let_def)
  next
    case False
    with set1 show ?thesis by (auto simp: wild_Remove_def Let_def)
  qed
qed

interpretation exact: sub_index index_ok newIndex exact_Add exact_Remove exact_Lookup exact_Len exact_Snapshot
proof unfold_locales
  show "index_ok newIndex" "exact_Lookup newIndex k = []" "exact_Len newIndex = 0" for k
    by (simp_all add: newIndex_def exact_Lookup_def exact_Len_def)
next
  fix i s k k'
  assume ok: "index_ok i"
  show "index_ok (exact_Remove k s i)"
    using ok by (simp add: exact_Remove_eq wild_Remove_ok)
  show "set (exact_Lookup (exact_Add k s i) k') =
      (if k' = k then insert s (set (exact_Lookup i k)) else set (exact_Lookup i k'))"
    by (simp add: exact_Lookup_def exact_Add_def)
  show "set (exact_Lookup (exact_Remove k s i) k') =
      (if k' = k then set (exact_Lookup i k) - {s} else set (exact_Lookup i k'))"
    using wild_Remove_entries [OF ok] by (simp add: exact_Lookup_def exact_Remove_eq ok)
  show "set (exact_Snapshot i) = (\<Union>k. set (exact_Lookup i k))"
    using entries_snapshot [OF ok] by (simp add: exact_Snapshot_def exact_Lookup_def)
  show "exact_Len i = length (exact_Snapshot i)"
    by (simp add: exact_Len_def exact_Snapshot_def gm_sum_length)
  show "Suc (exact_Len (exact_Remove k s i)) = exact_Len i" if "s \<in> set (exact_Lookup i k)"
    using len_removed [OF ok] that
    by (simp add: exact_Len_def exact_Lookup_def exact_Remove_eq [OF ok] wild_Remove_def Let_def)
  assume new: "s \<notin> set (exact_Lookup i k)"
  show "index_ok (exact_Add k s i)"
    using ok new entries_distinct [OF ok, of k]
    by (auto simp: exact_Add_def exact_Lookup_def intro!: index_ok_set)
  show "exact_Len (exact_Add k s i) = Suc (exact_Len i)"
    using new gm_sum_entries_set [OF index_ok_gm [OF ok], of k "List.insert s (entries i k)"]
    by (simp add: exact_Add_def exact_Lookup_def exact_Len_def)
qed

interpretation wild: sub_index index_ok newWildcardIndex wild_Add wild_Remove wild_Lookup wild_Len wild_Snapshot
proof unfold_locales
  show "index_ok newWildcardIndex" "wild_Lookup newWildcardIndex k = []" "wild_Len newWildcardIndex = 0" for k
    by (simp_all add: newWildcardIndex_def wild_Lookup_def wild_Len_def)
next
  fix i s k k'
  assume ok: "index_ok i"
  show "index_ok (wild_Remove k s i)"
    using ok by (rule wild_Remove_ok)
  show "set (wild_Lookup (wild_Add k s i) k') =
      (if k' = k then insert s (set (wild_Lookup i k)) else set (wild_Lookup i k'))"
    by (simp add: wild_Lookup_def wild_Add_def)
  show "set (wild_Lookup (wild_Remove k s i) k') =
      (if k' = k then set (wild_Lookup i k) - {s} else set (wild_Lookup i k'))"
    using wild_Remove_entries [OF ok] by (simp add: wild_Lookup_def)
  show "set (wild_Snapshot i) = (\<Union>k. set (wild_Lookup i k))"
    using entries_snapshot [OF ok] by (simp add: wild_Snapshot_def wild_Lookup_def)
  show "wild_Len i = length (wild_Snapshot i)"
    by (simp add: wild_Len_def wild_Snapshot_def gm_sum_length)
  show "Suc (wild_Len (wild_Remove k s i)) = wild_Len i" if "s \<in> set (wild_Lookup i k)"
    using len_removed [OF ok] that by (simp add: wild_Len_def wild_Lookup_def wild_Remove_def Let_def)
  assume new: "s \<notin> set (wild_Lookup i k)"
  show "index_ok (wild_Add k s i)"
    using ok new entries_distinct [OF ok, of k]
    by (auto simp: wild_Add_def wild_Lookup_def intro!: index_ok_set)
  show "wild_Len (wild_Add k s i) = Suc (wild_Len i)"
    using new gm_sum_entries_set [OF index_ok_gm [OF ok], of k "entries i k @ [s]"]
    by (simp add: wild_Add_def wild_Lookup_def wild_Len_def)
qed

end
