(* ===== verification/Router.thy ===== *)
theory Router
  imports Router_Index Wal_Types
begin

text \<open>
  \<open>internal/router\<close>: subscribers (\<open>subscriber.go\<close>), the broadcaster with its registration
  and shutdown, and the dispatch of a committed transaction (\<open>router.go\<close>). Subscribers live
  in a heap from addresses to records; the encoder and a subscriber's filter are function
  values, as in the code. Log lines are left out.
\<close>

subsection \<open>Subscribers\<close>

datatype kind = KindExact | KindWildcard | KindOther string

text \<open>
  The function \<open>WireSendFunc\<close> stores offers the frame to a bounded queue without blocking; it
  is represented by that queue and its capacity. \<open>sub_done\<close> is the state of the context,
  \<open>sub_reason\<close> the stored reason, set by the one call of \<open>Drop\<close> that runs.
\<close>

type_synonym 'f row_filter_fn = "'f change \<Rightarrow> lsn \<Rightarrow> 'f change \<times> bool"

record 'f subscriber =
  sub_id :: string
  sub_kind :: kind
  sub_schema :: string
  sub_table :: string
  sub_pk :: string
  sub_startLSN :: lsn
  sub_send :: "(string list \<times> nat) option"
  sub_done :: bool
  sub_reason :: "string option"
  sub_Filter :: "'f row_filter_fn option"

record sub_config =
  sc_ID :: string
  sc_Kind :: kind
  sc_Schema :: string
  sc_Table :: string
  sc_PK :: string
  sc_StartLSN :: lsn

text \<open>\<open>rnd\<close> is the hex text of the 16 random bytes.\<close>

definition NewSubscriber :: "sub_config \<Rightarrow> string \<Rightarrow> bool \<Rightarrow> 'f subscriber" where
  "NewSubscriber cfg rnd parentDone =
     \<lparr>sub_id = (if sc_ID cfg = [] then rnd else sc_ID cfg), sub_kind = sc_Kind cfg,
      sub_schema = sc_Schema cfg, sub_table = sc_Table cfg, sub_pk = sc_PK cfg,
      sub_startLSN = sc_StartLSN cfg, sub_send = None, sub_done = parentDone, sub_reason = None,
      sub_Filter = None\<rparr>"

definition WireSendFunc :: "nat \<Rightarrow> 'f subscriber \<Rightarrow> 'f subscriber" where
  "WireSendFunc cap s = s\<lparr>sub_send := Some ([], cap)\<rparr>"

definition Send :: "string \<Rightarrow> 'f subscriber \<Rightarrow> bool \<times> 'f subscriber" where
  "Send frame s =
     (case sub_send s of
        None \<Rightarrow> (False, s)
      | Some (q, cap) \<Rightarrow>
          (if length q < cap then (True, s\<lparr>sub_send := Some (q @ [frame], cap)\<rparr>) else (False, s)))"

definition Reason :: "'f subscriber \<Rightarrow> string" where
  "Reason s = (case sub_reason s of None \<Rightarrow> [] | Some r \<Rightarrow> r)"

definition Drop :: "string \<Rightarrow> 'f subscriber \<Rightarrow> 'f subscriber" where
  "Drop reason s =
     (if sub_reason s = None then s\<lparr>sub_reason := Some reason, sub_done := True\<rparr> else s)"

subsection \<open>Settings\<close>

record router_config =
  ExactBuffer :: int
  WildcardBuffer :: int
  MaxChangesPerTx :: int
  HeartbeatInterval :: int

definition router_Defaults :: router_config where
  "router_Defaults =
     \<lparr>ExactBuffer = 64, WildcardBuffer = 512, MaxChangesPerTx = 10000,
      HeartbeatInterval = 15 * 1000000000\<rparr>"

datatype router_cfg_err = BadExactBuffer | BadWildcardBuffer | BadMaxChanges | BadHeartbeat

definition router_Validate :: "router_config \<Rightarrow> router_cfg_err list" where
  "router_Validate c =
     (if ExactBuffer c \<le> 0 then [BadExactBuffer] else [])
     @ (if WildcardBuffer c \<le> 0 then [BadWildcardBuffer] else [])
     @ (if MaxChangesPerTx c \<le> 0 then [BadMaxChanges] else [])
     @ (if HeartbeatInterval c \<le> 0 then [BadHeartbeat] else [])"

subsection \<open>The broadcaster\<close>

type_synonym 'f heap = "sid \<Rightarrow> 'f subscriber"

record ('f, 't) event =
  ev_Tx :: "('f, 't) tx"
  MatchedIndices :: "int list"

type_synonym ('f, 't) encode_fn = "('f, 't) event \<Rightarrow> string \<times> bool"

record 'f broadcaster =
  bc_cfg :: router_config
  bc_exact :: exact_index
  bc_wildcard :: wildcard_index
  bc_closed :: bool
  active_exact :: int \<comment> \<open>the gauge \<open>SubscribersActive\<close> of kind \<open>exact\<close>\<close>
  active_wildcard :: int
  bc_heap :: "'f heap"

definition New_broadcaster :: "router_config \<Rightarrow> 'f heap \<Rightarrow> 'f broadcaster" where
  "New_broadcaster cfg h =
     \<lparr>bc_cfg = cfg, bc_exact = newIndex, bc_wildcard = newWildcardIndex, bc_closed = False,
      active_exact = 0, active_wildcard = 0, bc_heap = h\<rparr>"

definition drop_sub :: "string \<Rightarrow> sid \<Rightarrow> 'f broadcaster \<Rightarrow> 'f broadcaster" where
  "drop_sub reason s b = b\<lparr>bc_heap := (bc_heap b)(s := Drop reason (bc_heap b s))\<rparr>"

text \<open>The channel key of a subscriber (\<open>subChannelKey\<close>).\<close>

definition subChannelKey :: "'f subscriber \<Rightarrow> string" where
  "subChannelKey sub =
     (let k = sub_schema sub @ ''.'' @ sub_table sub in
      if sub_kind sub = KindExact then k @ '':'' @ sub_pk sub else k)"

text \<open>\<open>Register\<close> adds the subscriber first and then looks at \<open>closed\<close> (its deferred function).\<close>

definition register_add :: "sid \<Rightarrow> 'f broadcaster \<Rightarrow> 'f broadcaster" where
  "register_add s b =
     (let sub = bc_heap b s in
      case sub_kind sub of
        KindExact \<Rightarrow>
          b\<lparr>bc_exact := exact_Add (sub_schema sub @ ''.'' @ sub_table sub @ '':'' @ sub_pk sub) s (bc_exact b),
            active_exact := active_exact b + 1\<rparr>
      | KindWildcard \<Rightarrow>
          b\<lparr>bc_wildcard := wild_Add (sub_schema sub @ ''.'' @ sub_table sub) s (bc_wildcard b),
            active_wildcard := active_wildcard b + 1\<rparr>
      | KindOther _ \<Rightarrow> b)"

definition register_check :: "sid \<Rightarrow> 'f broadcaster \<Rightarrow> 'f broadcaster" where
  "register_check s b = (if bc_closed b then drop_sub ''shutdown'' s b else b)"

definition Register :: "sid \<Rightarrow> 'f broadcaster \<Rightarrow> 'f broadcaster" where
  "Register s b = register_check s (register_add s b)"

definition Deregister :: "sid \<Rightarrow> 'f broadcaster \<Rightarrow> 'f broadcaster" where
  "Deregister s b =
     (let sub = bc_heap b s in
      case sub_kind sub of
        KindExact \<Rightarrow>
          b\<lparr>bc_exact := exact_Remove (sub_schema sub @ ''.'' @ sub_table sub @ '':'' @ sub_pk sub) s (bc_exact b),
            active_exact := active_exact b - 1\<rparr>
      | KindWildcard \<Rightarrow>
          b\<lparr>bc_wildcard := wild_Remove (sub_schema sub @ ''.'' @ sub_table sub) s (bc_wildcard b),
            active_wildcard := active_wildcard b - 1\<rparr>
      | KindOther _ \<Rightarrow> b)"

definition ExactLen :: "'f broadcaster \<Rightarrow> nat" where
  "ExactLen b = exact_Len (bc_exact b)"

definition WildcardLen :: "'f broadcaster \<Rightarrow> nat" where
  "WildcardLen b = wild_Len (bc_wildcard b)"

definition shutdown_subs :: "'f broadcaster \<Rightarrow> sid list" where
  "shutdown_subs b = exact_Snapshot (bc_exact b) @ wild_Snapshot (bc_wildcard b)"

definition Shutdown :: "'f broadcaster \<Rightarrow> 'f broadcaster" where
  "Shutdown b =
     (let b' = b\<lparr>bc_closed := True\<rparr> in fold (drop_sub ''shutdown'') (shutdown_subs b') b')"

subsection \<open>Matching\<close>

definition matchesAnchor :: "'f subscriber \<Rightarrow> 'f change \<Rightarrow> bool" where
  "matchesAnchor sub ch =
     (if Schema ch \<noteq> sub_schema sub \<or> Table ch \<noteq> sub_table sub then False
      else (case sub_kind sub of
              KindExact \<Rightarrow> PK ch = sub_pk sub
            | KindWildcard \<Rightarrow> True
            | KindOther _ \<Rightarrow> False))"

fun anchor_roots :: "string \<Rightarrow> string \<Rightarrow> string \<Rightarrow> 'f change list \<Rightarrow> bool" where
  "anchor_roots schema table first [] = False"
| "anchor_roots schema table first (ch # chs) =
     (if Schema ch \<noteq> schema \<or> Table ch \<noteq> table then anchor_roots schema table first chs
      else if first = [] then anchor_roots schema table (PK ch) chs
      else if PK ch \<noteq> first then True
      else anchor_roots schema table first chs)"

definition hasMultipleAnchorRoots :: "('f, 't) tx \<Rightarrow> string \<Rightarrow> string \<Rightarrow> bool" where
  "hasMultipleAnchorRoots tx schema table = anchor_roots schema table [] (Changes tx)"

text \<open>The map used as the set of eligible subscribers, one entry per address.\<close>

fun mergeMatches :: "'f broadcaster \<Rightarrow> 'f change list \<Rightarrow> sid list \<Rightarrow> sid list" where
  "mergeMatches b [] eligible = eligible"
| "mergeMatches b (ch # chs) eligible =
     (let e1 = fold List.insert (exact_Lookup (bc_exact b) (Key ch)) eligible;
          e2 = fold List.insert (wild_Lookup (bc_wildcard b) (WildcardKey ch)) e1
      in mergeMatches b chs e2)"

subsection \<open>Dispatch\<close>

text \<open>The loop over the indices: the changes kept and whether the anchor row is among them.\<close>

fun filter_loop ::
  "'f subscriber \<Rightarrow> 'f row_filter_fn \<Rightarrow> ('f, 't) tx \<Rightarrow> nat list \<Rightarrow> 'f change list \<Rightarrow> bool
   \<Rightarrow> 'f change list \<times> bool"
where
  "filter_loop sub flt tx [] filtered anchorSurvived = (filtered, anchorSurvived)"
| "filter_loop sub flt tx (i # is) filtered anchorSurvived =
     (let raw = Changes tx ! i in
      if Schema raw \<noteq> sub_schema sub then filter_loop sub flt tx is filtered anchorSurvived
      else
        (let rawAnchor = matchesAnchor sub raw in
         case flt raw (CommitLSN tx) of
           (ch, dropped) \<Rightarrow>
             (if dropped then filter_loop sub flt tx is filtered anchorSurvived
              else filter_loop sub flt tx is (filtered @ [ch])
                     (if rawAnchor then True else anchorSurvived))))"

definition dispatchEvent ::
  "router_config \<Rightarrow> ('f, 't) encode_fn \<Rightarrow> ('f, 't) tx \<Rightarrow> nat list \<Rightarrow> 'f subscriber \<Rightarrow> 'f subscriber"
where
  "dispatchEvent cfg enc tx indices sub =
     (if CommitLSN tx \<le> sub_startLSN sub then sub
      else if sub_done sub then sub
      else
        (case sub_Filter sub of
           None \<Rightarrow> sub
         | Some flt \<Rightarrow>
             (if sub_kind sub = KindExact \<and> hasMultipleAnchorRoots tx (sub_schema sub) (sub_table sub)
              then sub
              else
                (case filter_loop sub flt tx indices [] False of
                   (filtered, anchorSurvived) \<Rightarrow>
                     (if length filtered = 0 \<or> \<not> anchorSurvived then sub
                      else if MaxChangesPerTx cfg < int (length filtered) then Drop ''tx_too_large'' sub
                      else
                        (let ev = \<lparr>ev_Tx = tx\<lparr>Changes := filtered\<rparr>,
                                   MatchedIndices = map int [0..<length filtered]\<rparr>
                         in case enc ev of
                              (frame, overflow) \<Rightarrow>
                                (if overflow then Drop ''tx_too_large'' sub
                                 else
                                   (case Send frame sub of
                                      (sent_ok, sub') \<Rightarrow>
                                        if \<not> sent_ok then Drop ''slow_consumer'' sub' else sub'))))))))"

text \<open>\<open>order\<close> is the iteration order of the Go map of eligible subscribers.\<close>

definition dispatch_to ::
  "('f, 't) encode_fn \<Rightarrow> ('f, 't) tx \<Rightarrow> sid \<Rightarrow> 'f broadcaster \<Rightarrow> 'f broadcaster" where
  "dispatch_to enc tx s b =
     b\<lparr>bc_heap := (bc_heap b)(s := dispatchEvent (bc_cfg b) enc tx [0..<length (Changes tx)] (bc_heap b s))\<rparr>"

definition routeTx ::
  "('f, 't) encode_fn \<Rightarrow> (sid list \<Rightarrow> sid list) \<Rightarrow> ('f, 't) tx \<Rightarrow> 'f broadcaster \<Rightarrow> 'f broadcaster" where
  "routeTx enc order tx b =
     (let eligible = mergeMatches b (Changes tx) [] in
      if length eligible = 0 then b else fold (dispatch_to enc tx) (order eligible) b)"

text \<open>One round of \<open>Ingest\<close>: a transaction, the closed channel, or the done context.\<close>

datatype ('f, 't) ingest_ev = IngestTx "('f, 't) tx" | IngestClosed | IngestDone

fun Ingest ::
  "('f, 't) encode_fn \<Rightarrow> (sid list \<Rightarrow> sid list) \<Rightarrow> ('f, 't) ingest_ev list \<Rightarrow> 'f broadcaster
   \<Rightarrow> bool option \<times> 'f broadcaster"
where
  "Ingest enc order [] b = (None, b)"
| "Ingest enc order (IngestTx tx # evs) b = Ingest enc order evs (routeTx enc order tx b)"
| "Ingest enc order (IngestClosed # evs) b = (Some True, b)"
| "Ingest enc order (IngestDone # evs) b = (Some False, b)"

lemmas [router_defs] =
  register_add_def register_check_def Register_def Deregister_def drop_sub_def Drop_def
  Reason_def Send_def

end
