(* ===== verification/Router_Dispatch.thy ===== *)
theory Router_Dispatch
  imports Router
begin

text \<open>
  What \<open>internal/router\<close> delivers: the closed form of the filter loop, who is eligible, when a
  frame is queued and what it holds, independence of the order in which the Go map of eligible
  subscribers is walked, and the two contracts the broadcaster has with its collaborators, the
  subscriber's row filter (\<open>row_filter\<close>) and the frame encoder (\<open>tx_encoder\<close>).
\<close>

subsection \<open>The filter loop\<close>

text \<open>The changes of the subscriber's schema that the filter grants, as it rewrites them.\<close>

definition granted :: "'f subscriber \<Rightarrow> 'f row_filter_fn \<Rightarrow> ('f, 't) tx \<Rightarrow> 'f change list" where
  "granted sub flt tx =
     map (\<lambda>c. fst (flt c (CommitLSN tx)))
       (filter (\<lambda>c. Schema c = sub_schema sub \<and> \<not> snd (flt c (CommitLSN tx))) (Changes tx))"

definition anchor_granted :: "'f subscriber \<Rightarrow> 'f row_filter_fn \<Rightarrow> ('f, 't) tx \<Rightarrow> bool" where
  "anchor_granted sub flt tx \<longleftrightarrow>
     (\<exists>c \<in> set (Changes tx). matchesAnchor sub c \<and> \<not> snd (flt c (CommitLSN tx)))"

lemma matchesAnchor_schema: "matchesAnchor sub c \<Longrightarrow> Schema c = sub_schema sub \<and> Table c = sub_table sub"
  by (auto simp: matchesAnchor_def split: if_splits)

lemma filter_loop_eq:
  "filter_loop sub flt tx is acc a =
     (acc @ map (\<lambda>c. fst (flt c (CommitLSN tx)))
        (filter (\<lambda>c. Schema c = sub_schema sub \<and> \<not> snd (flt c (CommitLSN tx))) (map ((!) (Changes tx)) is)),
      a \<or> (\<exists>c \<in> set (map ((!) (Changes tx)) is). matchesAnchor sub c \<and> \<not> snd (flt c (CommitLSN tx))))"
proof (induction "is" arbitrary: acc a)
  case (Cons i "is")
  show ?case
    using matchesAnchor_schema [of sub "Changes tx ! i"]
    by (auto simp: Let_def Cons.IH split: prod.splits)
qed simp

lemma filter_loop_full:
  "filter_loop sub flt tx [0..<length (Changes tx)] [] False = (granted sub flt tx, anchor_granted sub flt tx)"
  by (simp add: filter_loop_eq map_nth granted_def anchor_granted_def)

lemma anchor_granted_ne: "anchor_granted sub flt tx \<Longrightarrow> granted sub flt tx \<noteq> []"
  by (auto simp: anchor_granted_def granted_def filter_empty_conv dest: matchesAnchor_schema)

lemma granted_subseq:
  assumes "\<And>c. \<not> snd (flt c (CommitLSN tx)) \<Longrightarrow> f (fst (flt c (CommitLSN tx))) = f c"
  shows "subseq (map f (granted sub flt tx)) (map f (Changes tx))"
proof -
  have "map f (granted sub flt tx) =
      map f (filter (\<lambda>c. Schema c = sub_schema sub \<and> \<not> snd (flt c (CommitLSN tx))) (Changes tx))"
    using assms by (simp add: granted_def)
  then show ?thesis using subseq_map_filter [of f] by simp
qed

subsection \<open>Several roots in one transaction\<close>

definition anchor_pks :: "string \<Rightarrow> string \<Rightarrow> ('f, 't) tx \<Rightarrow> string list" where
  "anchor_pks schema table tx = map PK (filter (\<lambda>c. Schema c = schema \<and> Table c = table) (Changes tx))"

text \<open>The guard over the bare list of primary keys.\<close>

fun pk_roots :: "string \<Rightarrow> string list \<Rightarrow> bool" where
  "pk_roots first [] = False"
| "pk_roots first (p # ps) =
     (if first = [] then pk_roots p ps else if p \<noteq> first then True else pk_roots first ps)"

lemma anchor_roots_pks:
  "anchor_roots schema table first chs =
     pk_roots first (map PK (filter (\<lambda>c. Schema c = schema \<and> Table c = table) chs))"
  by (induction schema table first chs rule: anchor_roots.induct) auto

lemma hasMultipleAnchorRoots_pks:
  "hasMultipleAnchorRoots tx schema table = pk_roots [] (anchor_pks schema table tx)"
  by (simp add: hasMultipleAnchorRoots_def anchor_roots_pks anchor_pks_def)

lemma pk_roots_first: "first \<noteq> [] \<Longrightarrow> pk_roots first pks \<longleftrightarrow> \<not> set pks \<subseteq> {first}"
  by (induction pks) auto

lemma pk_roots_empty:
  assumes "\<not> pk_roots [] pks"
  shows "\<exists>p. set pks \<subseteq> {[], p}"
  using assms
proof (induction pks)
  case (Cons p ps)
  then show ?case by (cases "p = []") (auto simp: pk_roots_first)
qed simp

lemma pk_roots_nonempty:
  "[] \<notin> set pks \<Longrightarrow> pk_roots [] pks \<longleftrightarrow> (\<exists>p \<in> set pks. \<exists>q \<in> set pks. p \<noteq> q)"
  by (cases pks) (auto simp: pk_roots_first)

subsection \<open>One subscriber\<close>

definition queue :: "'f subscriber \<Rightarrow> string list" where
  "queue sub = (case sub_send sub of None \<Rightarrow> [] | Some (q, cap) \<Rightarrow> q)"

definition can_send :: "'f subscriber \<Rightarrow> bool" where
  "can_send sub \<longleftrightarrow> (case sub_send sub of None \<Rightarrow> False | Some (q, cap) \<Rightarrow> length q < cap)"

definition sub_event :: "'f subscriber \<Rightarrow> 'f row_filter_fn \<Rightarrow> ('f, 't) tx \<Rightarrow> ('f, 't) event" where
  "sub_event sub flt tx =
     \<lparr>ev_Tx = tx\<lparr>Changes := granted sub flt tx\<rparr>, MatchedIndices = map int [0..<length (granted sub flt tx)]\<rparr>"

text \<open>Whether the transaction concerns the subscriber at all.\<close>

definition concerns :: "('f, 't) tx \<Rightarrow> 'f subscriber \<Rightarrow> 'f row_filter_fn \<Rightarrow> bool" where
  "concerns tx sub flt \<longleftrightarrow>
     sub_startLSN sub < CommitLSN tx \<and> \<not> sub_done sub \<and> sub_Filter sub = Some flt
     \<and> \<not> (sub_kind sub = KindExact \<and> hasMultipleAnchorRoots tx (sub_schema sub) (sub_table sub))
     \<and> anchor_granted sub flt tx"

abbreviation dispatch :: "router_config \<Rightarrow> ('f, 't) encode_fn \<Rightarrow> ('f, 't) tx \<Rightarrow> 'f subscriber \<Rightarrow> 'f subscriber" where
  "dispatch cfg enc tx sub \<equiv> dispatchEvent cfg enc tx [0..<length (Changes tx)] sub"

lemma dispatch_not_concerned:
  assumes "\<And>flt. \<not> concerns tx sub flt"
  shows "dispatch cfg enc tx sub = sub"
  using assms
  by (auto simp: dispatchEvent_def concerns_def filter_loop_full not_le split: option.splits)

lemma dispatch_concerned:
  assumes "concerns tx sub flt"
  shows "dispatch cfg enc tx sub =
    (if MaxChangesPerTx cfg < int (length (granted sub flt tx)) \<or> snd (enc (sub_event sub flt tx))
     then Drop ''tx_too_large'' sub
     else if can_send sub then snd (Send (fst (enc (sub_event sub flt tx))) sub)
     else Drop ''slow_consumer'' sub)"
proof -
  have "filter_loop sub flt tx [0..<length (Changes tx)] [] False = (granted sub flt tx, True)"
    "granted sub flt tx \<noteq> []"
    using assms anchor_granted_ne [of sub flt tx] by (simp_all add: filter_loop_full concerns_def)
  with assms show ?thesis
    by (auto simp: dispatchEvent_def concerns_def Let_def sub_event_def Send_def can_send_def
        split: prod.splits option.splits)
qed

lemma queue_Drop [simp]: "queue (Drop reason sub) = queue sub"
  by (simp add: queue_def Drop_def)

lemma queue_Send: "queue (snd (Send f sub)) = queue sub @ (if can_send sub then [f] else [])"
  by (auto simp: queue_def Send_def can_send_def split: option.splits)

lemma dispatch_cases:
  obtains (unchanged) "\<And>flt. \<not> concerns tx sub flt" "dispatch cfg enc tx sub = sub"
  | (dropped) flt reason where "concerns tx sub flt" "dispatch cfg enc tx sub = Drop reason sub"
      "reason = ''tx_too_large'' \<or> reason = ''slow_consumer''"
  | (delivered) flt frame where "concerns tx sub flt" "enc (sub_event sub flt tx) = (frame, False)"
      "int (length (granted sub flt tx)) \<le> MaxChangesPerTx cfg" "can_send sub"
      "dispatch cfg enc tx sub = snd (Send frame sub)"
proof (cases "\<exists>flt. concerns tx sub flt")
  case False
  then show ?thesis using unchanged dispatch_not_concerned by metis
next
  case True
  then obtain flt where flt: "concerns tx sub flt" by blast
  note d = dispatch_concerned [OF flt, of cfg enc]
  obtain frame over where e: "enc (sub_event sub flt tx) = (frame, over)" by fastforce
  show ?thesis
    using d e flt dropped delivered by (auto simp: not_less split: if_splits)
qed

lemma dispatch_frame [simp]:
  "sub_id (dispatch cfg enc tx sub) = sub_id sub" "sub_kind (dispatch cfg enc tx sub) = sub_kind sub"
  "sub_schema (dispatch cfg enc tx sub) = sub_schema sub" "sub_table (dispatch cfg enc tx sub) = sub_table sub"
  "sub_pk (dispatch cfg enc tx sub) = sub_pk sub" "sub_startLSN (dispatch cfg enc tx sub) = sub_startLSN sub"
  "sub_Filter (dispatch cfg enc tx sub) = sub_Filter sub"
  by (cases rule: dispatch_cases [of tx sub cfg enc];
      auto simp: Drop_def Send_def split: option.splits)+

subsection \<open>All subscribers\<close>

lemma fold_insert: "set (fold List.insert xs e) = set xs \<union> set e"
  "distinct e \<Longrightarrow> distinct (fold List.insert xs e)"
  by (induction xs arbitrary: e) auto

definition eligible :: "'f broadcaster \<Rightarrow> ('f, 't) tx \<Rightarrow> sid \<Rightarrow> bool" where
  "eligible b tx s \<longleftrightarrow>
     (\<exists>ch \<in> set (Changes tx). s \<in> set (exact_Lookup (bc_exact b) (Key ch))
        \<or> s \<in> set (wild_Lookup (bc_wildcard b) (WildcardKey ch)))"

lemma mergeMatches_set:
  "s \<in> set (mergeMatches b chs e) \<longleftrightarrow>
     s \<in> set e \<or> (\<exists>ch \<in> set chs. s \<in> set (exact_Lookup (bc_exact b) (Key ch))
        \<or> s \<in> set (wild_Lookup (bc_wildcard b) (WildcardKey ch)))"
  by (induction b chs e rule: mergeMatches.induct) (auto simp: Let_def fold_insert)

lemma mergeMatches_distinct: "distinct e \<Longrightarrow> distinct (mergeMatches b chs e)"
  by (induction b chs e rule: mergeMatches.induct) (auto simp: Let_def fold_insert)

lemma fold_dispatch:
  "distinct l \<Longrightarrow>
   fold (dispatch_to enc tx) l b =
     b\<lparr>bc_heap := \<lambda>s. if s \<in> set l then dispatch (bc_cfg b) enc tx (bc_heap b s) else bc_heap b s\<rparr>"
proof (induction l arbitrary: b)
  case (Cons s l)
  then show ?case by (auto simp: dispatch_to_def fun_eq_iff intro!: broadcaster.equality)
qed (simp add: fun_eq_iff)

lemma routeTx_eq:
  assumes "\<And>l. mset (order l) = mset l"
  shows "routeTx enc order tx b =
    b\<lparr>bc_heap := \<lambda>s. if eligible b tx s then dispatch (bc_cfg b) enc tx (bc_heap b s) else bc_heap b s\<rparr>"
proof -
  let ?e = "mergeMatches b (Changes tx) []"
  have e: "s \<in> set ?e \<longleftrightarrow> eligible b tx s" for s by (simp add: mergeMatches_set eligible_def)
  have "distinct (order ?e)" "set (order ?e) = set ?e"
    using assms [of ?e] mergeMatches_distinct [of "[]" b "Changes tx"]
    by (metis distinct.simps(1) mset_eq_imp_distinct_iff, metis mset_eq_setD)
  then show ?thesis
    using e by (auto simp: routeTx_def Let_def fold_dispatch fun_eq_iff intro!: broadcaster.equality)
qed

text \<open>
  C37: the outcome of routing a transaction does not depend on the order in which Go walks the
  map of eligible subscribers.
\<close>

theorem routeTx_order_independent:
  assumes "\<And>l. mset (order l) = mset l" and "\<And>l. mset (order' l) = mset l"
  shows "routeTx enc order tx b = routeTx enc order' tx b"
  using routeTx_eq [OF assms(1), of enc tx b] routeTx_eq [OF assms(2), of enc tx b] by simp

subsection \<open>Contracts with the filter and the encoder\<close>

definition columns :: "'f change \<Rightarrow> string set" where
  "columns c = (case Data c of None \<Rightarrow> {} | Some d \<Rightarrow> fst ` set d)
     \<union> (case Changed c of None \<Rightarrow> {} | Some d \<Rightarrow> fst ` set d)"

text \<open>
  A row filter for a grant: at each position of the log, the columns allowed per table. A row
  it lets through is the same row of the same table with no other column than those and its key.
\<close>

locale row_filter =
  fixes flt :: "'f change \<Rightarrow> lsn \<Rightarrow> 'f change \<times> bool"
    and allowed :: "lsn \<Rightarrow> string \<Rightarrow> string set"
  assumes same_row: "\<not> snd (flt c p) \<Longrightarrow>
      Schema (fst (flt c p)) = Schema c \<and> Table (fst (flt c p)) = Table c
      \<and> Op (fst (flt c p)) = Op c \<and> PK (fst (flt c p)) = PK c \<and> PKCol (fst (flt c p)) = PKCol c"
    and no_extra: "\<not> snd (flt c p) \<Longrightarrow> columns (fst (flt c p)) \<subseteq> insert (PKCol c) (allowed p (Table c))"
begin

lemma granted_columns:
  "c \<in> set (granted sub flt tx) \<Longrightarrow>
   columns c \<subseteq> insert (PKCol c) (allowed (CommitLSN tx) (Table c))"
  using no_extra same_row by (fastforce simp: granted_def)

lemma granted_schema: "c \<in> set (granted sub flt tx) \<Longrightarrow> Schema c = sub_schema sub"
  using same_row by (auto simp: granted_def)

lemma granted_rows:
  "subseq (map (\<lambda>c. (Schema c, Table c, Op c, PK c)) (granted sub flt tx))
     (map (\<lambda>c. (Schema c, Table c, Op c, PK c)) (Changes tx))"
  using same_row by (intro granted_subseq) simp

end

text \<open>An encoder whose frames are all well formed.\<close>

locale tx_encoder =
  fixes enc :: "('f, 't) event \<Rightarrow> string \<times> bool"
    and frame_ok :: "string \<Rightarrow> bool"
  assumes enc_ok: "enc ev = (frame, False) \<Longrightarrow> frame_ok frame"
begin

lemma dispatch_queue_ok:
  "list_all frame_ok (queue sub) \<Longrightarrow> list_all frame_ok (queue (dispatch cfg enc tx sub))"
  by (cases rule: dispatch_cases [of tx sub cfg enc]) (auto simp: queue_Send dest: enc_ok)

lemma routeTx_queue_ok:
  assumes "\<And>l. mset (order l) = mset l" and "\<And>s. list_all frame_ok (queue (bc_heap b s))"
  shows "list_all frame_ok (queue (bc_heap (routeTx enc order tx b) s))"
  using assms(2) dispatch_queue_ok by (simp add: routeTx_eq [OF assms(1)])

lemma Ingest_queue_ok:
  assumes "\<And>l. mset (order l) = mset l"
  shows "Ingest enc order evs b = (res, b') \<Longrightarrow> (\<And>s. list_all frame_ok (queue (bc_heap b s))) \<Longrightarrow>
    list_all frame_ok (queue (bc_heap b' s))"
proof (induction evs arbitrary: b)
  case (Cons ev evs)
  then show ?case using routeTx_queue_ok [OF assms] by (cases ev) auto
qed simp

end

end
