(* ===== verification/Sse_Encoder.thy ===== *)
theory Sse_Encoder
  imports Wal_Mapper Router_Dispatch
begin

text \<open>
  \<open>internal/sse/encoder.go\<close>: the frames of the event stream. A transaction becomes JSON as
  \<open>json.Marshal\<close> writes it (fields in declaration order, map keys sorted, HTML characters
  escaped) in a frame of three lines. The facts are that each frame is one event, however the
  values of the row look, and that a client that parses the stream gets the events back.
\<close>

subsection \<open>Events\<close>

record 'f change_event =
  ce_Op :: string
  ce_Table :: string
  ce_PK :: string
  ce_Data :: "'f row option"

record 'f tx_event =
  te_TxID :: u32
  te_CommitTS :: string
  te_Changes :: "'f change_event list"

definition mkChangeEvent :: "'f change \<Rightarrow> 'f change_event" where
  "mkChangeEvent ch =
     (let data = (if Data ch = None then Changed ch else Data ch)
      in \<lparr>ce_Op = Op ch, ce_Table = Table ch, ce_PK = PK ch, ce_Data = data\<rparr>)"

text \<open>\<open>matched\<close> is \<open>None\<close> for a nil slice; an index out of range is skipped.\<close>

fun matched_events :: "'f change list \<Rightarrow> int list \<Rightarrow> 'f change_event list" where
  "matched_events chs [] = []"
| "matched_events chs (i # is) =
     (if i < 0 \<or> int (length chs) \<le> i then matched_events chs is
      else mkChangeEvent (chs ! nat i) # matched_events chs is)"

definition txToEvent :: "('f, 't) go_lib \<Rightarrow> ('f, 't) tx \<Rightarrow> int list option \<Rightarrow> 'f tx_event" where
  "txToEvent L tx matched =
     \<lparr>te_TxID = ID tx, te_CommitTS = time_rfc3339 L (CommitTS tx),
      te_Changes =
        (case matched of
           None \<Rightarrow> map mkChangeEvent (Changes tx)
         | Some is \<Rightarrow> matched_events (Changes tx) is)\<rparr>"

subsection \<open>JSON\<close>

definition json_list :: "string list \<Rightarrow> string" where
  "json_list xs = CHR ''['' # str_join xs '','' @ '']''"

fun opt_list :: "'a option list \<Rightarrow> 'a list option" where
  "opt_list [] = Some []"
| "opt_list (x # xs) =
     (case x of None \<Rightarrow> None
      | Some y \<Rightarrow> (case opt_list xs of None \<Rightarrow> None | Some ys \<Rightarrow> Some (y # ys)))"

primrec marshal_value :: "('f, 't) go_lib \<Rightarrow> 'f gval \<Rightarrow> string option" where
  "marshal_value L GNil = Some ''null''"
| "marshal_value L (GInt n) = Some (itoa n)"
| "marshal_value L (GFloat f) = float_json L f"
| "marshal_value L (GBool b) = Some (if b then ''true'' else ''false'')"
| "marshal_value L (GStr s) = Some (json_quote s)"
| "marshal_value L (GRaw s) = json_compact True s"
| "marshal_value L (GList vs) = map_option json_list (opt_list (map (marshal_value L) vs))"

definition marshal_field :: "string \<Rightarrow> string \<Rightarrow> string" where
  "marshal_field name v = json_quote name @ '':'' @ v"

text \<open>A map is written in the order of its keys.\<close>

definition marshal_row :: "('f, 't) go_lib \<Rightarrow> 'f row \<Rightarrow> string option" where
  "marshal_row L d =
     map_option (\<lambda>fs. CHR ''{'' # str_join fs '','' @ ''}'')
       (opt_list (map (\<lambda>(k, v). map_option (marshal_field k) (marshal_value L v)) (sort_key fst d)))"

text \<open>\<open>omitempty\<close>: a nil or empty map leaves the field out.\<close>

definition marshal_change :: "('f, 't) go_lib \<Rightarrow> 'f change_event \<Rightarrow> string option" where
  "marshal_change L ce =
     (let head = [marshal_field ''op'' (json_quote (ce_Op ce)),
                  marshal_field ''table'' (json_quote (ce_Table ce)),
                  marshal_field ''pk'' (json_quote (ce_PK ce))];
          obj = (\<lambda>fs. CHR ''{'' # str_join fs '','' @ ''}'')
      in case ce_Data ce of
           None \<Rightarrow> Some (obj head)
         | Some [] \<Rightarrow> Some (obj head)
         | Some d \<Rightarrow> map_option (\<lambda>s. obj (head @ [marshal_field ''data'' s])) (marshal_row L d))"

definition marshal_tx :: "('f, 't) go_lib \<Rightarrow> 'f tx_event \<Rightarrow> string option" where
  "marshal_tx L te =
     map_option (\<lambda>cs. CHR ''{'' # str_join
         [marshal_field ''tx_id'' (itoa (uint (te_TxID te))),
          marshal_field ''commit_ts'' (json_quote (te_CommitTS te)),
          marshal_field ''changes'' (json_list cs)] '','' @ ''}'')
       (opt_list (map (marshal_change L) (te_Changes te)))"

subsection \<open>Frames\<close>

definition LF :: char where "LF = CHR 0x0A"

definition dquote :: char where "dquote = CHR 0x22"

definition heartbeatBytes :: string where
  "heartbeatBytes = '':'' @ [LF, LF]"

definition shutdownBytes :: string where
  "shutdownBytes =
     ''event: shutdown'' @ [LF] @ ''data: {'' @ [dquote] @ ''reason'' @ [dquote] @ '':'' @ [dquote]
     @ ''service_restart'' @ [dquote] @ ''}'' @ [LF, LF]"

definition preludeFrame :: string where
  "preludeFrame = ''retry: 15000'' @ [LF, LF]"

text \<open>The payload written when the event does not marshal.\<close>

definition empty_payload :: string where
  "empty_payload =
     ''{'' @ [dquote] @ ''tx_id'' @ [dquote] @ '':0,'' @ [dquote] @ ''commit_ts'' @ [dquote] @ '':''
     @ [dquote, dquote] @ '','' @ [dquote] @ ''changes'' @ [dquote] @ '':[]}''"

text \<open>\<open>Encode\<close>: the frame, or the overflow flag.\<close>

definition Encode :: "('f, 't) go_lib \<Rightarrow> int \<Rightarrow> ('f, 't) event \<Rightarrow> string \<times> bool" where
  "Encode L maxPayloadBytes ev =
     (let payload = (case marshal_tx L (txToEvent L (ev_Tx ev) (Some (MatchedIndices ev))) of
                       None \<Rightarrow> empty_payload | Some p \<Rightarrow> p);
          buf = ''event: tx'' @ [LF] @ ''id: '' @ itoa (uint (ID (ev_Tx ev))) @ [LF]
                @ ''data: '' @ payload @ [LF, LF]
      in if 0 < maxPayloadBytes \<and> maxPayloadBytes < int (length buf) then ([], True)
         else (buf, False))"

definition EncodeError :: "string \<Rightarrow> string" where
  "EncodeError reason =
     ''event: error'' @ [LF] @ ''data: {'' @ [dquote] @ ''reason'' @ [dquote] @ '':''
     @ json_quote reason @ ''}'' @ [LF, LF]"

definition EncodeInitialData :: "int \<Rightarrow> string \<Rightarrow> string option \<times> bool" where
  "EncodeInitialData maxPayloadBytes raw =
     (if length raw = 0 then (None, False)
      else if trim_space raw = ''null'' then (None, False)
      else (case json_compact False raw of
              None \<Rightarrow> (None, False)
            | Some c \<Rightarrow>
                (let buf = ''event: initial_data'' @ [LF] @ ''data: '' @ c @ [LF, LF]
                 in if 0 < maxPayloadBytes \<and> maxPayloadBytes < int (length buf) then (None, True)
                    else (Some buf, False))))"

definition EncodeHeartbeat :: string where
  "EncodeHeartbeat = heartbeatBytes"

definition EncodeShutdown :: string where
  "EncodeShutdown = shutdownBytes"

lemmas [sse_defs] =
  LF_def dquote_def heartbeatBytes_def shutdownBytes_def preludeFrame_def EncodeHeartbeat_def
  EncodeShutdown_def

subsection \<open>A client's view of the stream\<close>

text \<open>
  The stream as an event-source client reads it: lines end at a line feed, an empty line ends
  an event, an unfinished event is not delivered.
\<close>

fun sse_group :: "string list \<Rightarrow> string list \<Rightarrow> string list list" where
  "sse_group cur [] = []"
| "sse_group cur (l # ls) =
     (if l = [] then (if cur = [] then sse_group [] ls else cur # sse_group [] ls)
      else sse_group (cur @ [l]) ls)"

definition sse_events :: "string \<Rightarrow> string list list" where
  "sse_events s = sse_group [] (str_split LF s)"

definition frame_of :: "string list \<Rightarrow> string" where
  "frame_of ls = concat (map (\<lambda>l. l @ [LF]) ls) @ [LF]"

definition lines_ok :: "string list \<Rightarrow> bool" where
  "lines_ok ls \<longleftrightarrow> ls \<noteq> [] \<and> list_all (\<lambda>l. l \<noteq> [] \<and> no_break l) ls"

text \<open>A frame that is exactly one event, of the given lines.\<close>

definition one_event :: "string \<Rightarrow> bool" where
  "one_event f \<longleftrightarrow> (\<exists>ls. lines_ok ls \<and> f = frame_of ls)"

lemma LF_not_in: "no_break l \<Longrightarrow> LF \<notin> set l"
  by (simp add: no_break_def LF_def)

lemma sse_group_lines:
  "list_all (\<lambda>l. l \<noteq> [] \<and> no_break l) ls \<Longrightarrow>
   sse_group cur (str_split LF (concat (map (\<lambda>l. l @ [LF]) ls) @ t)) = sse_group (cur @ ls) (str_split LF t)"
  by (induction ls arbitrary: cur) (auto simp: str_split_append LF_not_in)

lemma sse_group_frame:
  assumes "lines_ok ls"
  shows "sse_group [] (str_split LF (frame_of ls @ t)) = ls # sse_group [] (str_split LF t)"
  using assms sse_group_lines [of ls "[]" "LF # t"] str_split_append [of LF "[]" t]
  by (simp add: lines_ok_def frame_of_def)

lemma sse_events_frames:
  "list_all lines_ok lss \<Longrightarrow> sse_events (concat (map frame_of lss)) = lss"
  by (induction lss) (simp_all add: sse_events_def sse_group_frame)

subsection \<open>No value breaks a frame\<close>

text \<open>What the code relies on for floats: \<open>encoding/json\<close> writes a number.\<close>

definition float_text :: "('f, 't) go_lib \<Rightarrow> bool" where
  "float_text L \<longleftrightarrow> (\<forall>f s. float_json L f = Some s \<longrightarrow> no_break s)"

lemma no_break_join: "list_all no_break xs \<Longrightarrow> no_break sep \<Longrightarrow> no_break (str_join xs sep)"
  by (induction xs sep rule: str_join.induct) auto

lemma no_break_itoa [simp]: "no_break (itoa n)"
  by (rule no_break_graph) (rule itoa_graph)

lemma no_break_field [simp]: "no_break (marshal_field name v) \<longleftrightarrow> no_break v"
  by (simp add: marshal_field_def no_break_Cons)

lemma opt_list_all: "opt_list xs = Some ys \<Longrightarrow> list_all2 (\<lambda>x y. x = Some y) xs ys"
  by (induction xs arbitrary: ys) (auto split: option.splits)

lemma opt_list_set: "opt_list xs = Some ys \<Longrightarrow> y \<in> set ys \<Longrightarrow> Some y \<in> set xs"
  by (induction xs arbitrary: ys) (auto split: option.splits)

lemma no_break_json_list: "list_all no_break xs \<Longrightarrow> no_break (json_list xs)"
  using no_break_join [of xs "'',''"] by (simp add: json_list_def no_break_Cons)

lemma marshal_value_no_break:
  assumes "float_text L"
  shows "marshal_value L v = Some s \<Longrightarrow> no_break s"
proof (induction v arbitrary: s)
  case (GList vs)
  then obtain xs where xs: "opt_list (map (marshal_value L) vs) = Some xs" "s = json_list xs" by auto
  have "no_break x" if "x \<in> set xs" for x
    using opt_list_set [OF xs(1) that] GList.IH by auto
  then show ?case by (simp add: xs(2) list_all_iff no_break_json_list)
qed (use assms in \<open>auto simp: float_text_def no_break_Cons json_compact_no_break split: if_splits\<close>)

lemma marshal_row_no_break:
  assumes "float_text L" and "marshal_row L d = Some s"
  shows "no_break s"
proof -
  obtain fs where fs: "s = CHR ''{'' # str_join fs '','' @ ''}''"
    "opt_list (map (\<lambda>(k, v). map_option (marshal_field k) (marshal_value L v)) (sort_key fst d)) = Some fs"
    using assms(2) by (auto simp: marshal_row_def)
  have "no_break f" if f: "f \<in> set fs" for f
  proof -
    obtain kv where "Some f = (\<lambda>(k, v). map_option (marshal_field k) (marshal_value L v)) kv"
      using opt_list_set [OF fs(2) f] by auto
    then obtain k v where "map_option (marshal_field k) (marshal_value L v) = Some f"
      by (cases kv) simp
    then obtain w where "marshal_value L v = Some w" "f = marshal_field k w" by auto
    then show ?thesis using marshal_value_no_break [OF assms(1)] by simp
  qed
  then show ?thesis
    using no_break_join [of fs "'',''"] by (simp add: fs(1) no_break_Cons list_all_iff)
qed

lemma marshal_change_no_break:
  assumes "float_text L" and "marshal_change L ce = Some s"
  shows "no_break s"
  using assms(2) marshal_row_no_break [OF assms(1)]
  by (auto simp: marshal_change_def Let_def no_break_Cons split: option.splits list.splits)

lemma marshal_tx_no_break:
  assumes "float_text L" and "marshal_tx L te = Some s"
  shows "no_break s"
proof -
  obtain cs where cs: "opt_list (map (marshal_change L) (te_Changes te)) = Some cs"
    and s: "s = CHR ''{'' # str_join
         [marshal_field ''tx_id'' (itoa (uint (te_TxID te))),
          marshal_field ''commit_ts'' (json_quote (te_CommitTS te)),
          marshal_field ''changes'' (json_list cs)] '','' @ ''}''"
    using assms(2) by (auto simp: marshal_tx_def)
  have "list_all no_break cs"
    using opt_list_set [OF cs] marshal_change_no_break [OF assms(1)] by (fastforce simp: list_all_iff)
  then have "no_break (json_list cs)" by (rule no_break_json_list)
  then show ?thesis by (simp add: s no_break_Cons)
qed

text \<open>The lines of each frame.\<close>

definition tx_payload :: "('f, 't) go_lib \<Rightarrow> ('f, 't) event \<Rightarrow> string" where
  "tx_payload L ev =
     (case marshal_tx L (txToEvent L (ev_Tx ev) (Some (MatchedIndices ev))) of
        None \<Rightarrow> empty_payload | Some p \<Rightarrow> p)"

definition tx_lines :: "('f, 't) go_lib \<Rightarrow> ('f, 't) event \<Rightarrow> string list" where
  "tx_lines L ev = [''event: tx'', ''id: '' @ itoa (uint (ID (ev_Tx ev))), ''data: '' @ tx_payload L ev]"

lemma empty_payload_no_break: "no_break empty_payload"
  by (simp add: empty_payload_def dquote_def no_break_Cons)

lemma tx_lines_ok:
  assumes "float_text L"
  shows "lines_ok (tx_lines L ev)"
proof -
  have "no_break (tx_payload L ev)"
    using marshal_tx_no_break [OF assms] empty_payload_no_break
    by (auto simp: tx_payload_def split: option.splits)
  then show ?thesis by (simp add: lines_ok_def tx_lines_def no_break_Cons)
qed

lemma Encode_lines: "Encode L cap ev = (frame, False) \<Longrightarrow> frame = frame_of (tx_lines L ev)"
  by (auto simp: Encode_def Let_def tx_lines_def tx_payload_def frame_of_def split: if_splits)

lemma EncodeError_lines:
  "EncodeError reason =
     frame_of [''event: error'', ''data: {'' @ [dquote] @ ''reason'' @ [dquote] @ '':'' @ json_quote reason @ ''}'']"
  by (simp add: EncodeError_def frame_of_def)

lemma one_eventI: "f = frame_of ls \<Longrightarrow> lines_ok ls \<Longrightarrow> one_event f"
  by (auto simp: one_event_def)

lemma EncodeError_event: "one_event (EncodeError reason)"
  by (rule one_eventI [OF EncodeError_lines]) (simp add: lines_ok_def no_break_Cons dquote_def)

lemma heartbeat_event: "one_event EncodeHeartbeat"
  by (rule one_eventI [where ls = "['':'']"])
     (simp_all add: sse_defs frame_of_def lines_ok_def no_break_Cons)

lemma prelude_event: "one_event preludeFrame"
  by (rule one_eventI [where ls = "[''retry: 15000'']"])
     (simp_all add: sse_defs frame_of_def lines_ok_def no_break_Cons)

lemma shutdown_event: "one_event EncodeShutdown"
  by (rule one_eventI [where ls = "[''event: shutdown'', ''data: {'' @ [dquote] @ ''reason'' @ [dquote] @ '':''
        @ [dquote] @ ''service_restart'' @ [dquote] @ ''}'']"])
     (simp_all add: sse_defs frame_of_def lines_ok_def no_break_Cons)

lemma EncodeInitialData_event:
  "EncodeInitialData cap raw = (Some frame, b) \<Longrightarrow> one_event frame"
proof -
  assume "EncodeInitialData cap raw = (Some frame, b)"
  then obtain c where c: "json_compact False raw = Some c"
    "frame = frame_of [''event: initial_data'', ''data: '' @ c]"
    by (auto simp: EncodeInitialData_def Let_def frame_of_def split: if_splits option.splits)
  then have "lines_ok [''event: initial_data'', ''data: '' @ c]"
    using json_compact_no_break [OF c(1)] by (simp add: lines_ok_def no_break_Cons)
  with c(2) show ?thesis unfolding one_event_def by blast
qed

text \<open>Both outcomes of the size cap.\<close>

lemma Encode_cap:
  "Encode L cap ev =
     (if 0 < cap \<and> cap < int (length (frame_of (tx_lines L ev))) then ([], True)
      else (frame_of (tx_lines L ev), False))"
  by (simp add: Encode_def Let_def tx_lines_def tx_payload_def frame_of_def)

interpretation frames: tx_encoder "Encode L cap"
  "\<lambda>f. float_text L \<longrightarrow> one_event f \<and> (0 < cap \<longrightarrow> int (length f) \<le> cap)" for L cap
  by unfold_locales (auto simp: Encode_cap not_less intro!: one_eventI tx_lines_ok split: if_splits)

text \<open>
  C12: a client that parses the stream gets exactly the events back. Whatever the row values hold
  (line breaks, quotes, any bytes), the frames of a run of transactions, written one after the
  other, parse into one event each, with the event name, the transaction's ID and its JSON
  payload, none split, merged or lost.
\<close>

theorem stream_parses_back:
  assumes "float_text L" and "list_all2 (\<lambda>ev f. Encode L cap ev = (f, False)) evs fs"
  shows "sse_events (concat fs) = map (tx_lines L) evs"
proof -
  have "fs = map (\<lambda>ev. frame_of (tx_lines L ev)) evs"
    using assms(2) by (induction rule: list_all2_induct) (auto dest: Encode_lines)
  then have "concat fs = concat (map frame_of (map (tx_lines L) evs))" by (simp add: comp_def)
  moreover have "list_all lines_ok (map (tx_lines L) evs)"
    using tx_lines_ok [OF assms(1)] by (simp add: list_all_iff)
  ultimately show ?thesis using sse_events_frames by metis
qed

text \<open>
  C33: whatever reaches a subscriber's queue by routing transactions through the encoder is a
  single event of the stream and within the payload cap.
\<close>

theorem queued_frames_ok:
  assumes "\<And>l. mset (order l) = mset l" and "float_text L" and "0 < cap"
    and "\<And>s. list_all (\<lambda>f. one_event f \<and> int (length f) \<le> cap) (queue (bc_heap b s))"
    and "Ingest (Encode L cap) order evs b = (res, b')"
  shows "list_all (\<lambda>f. one_event f \<and> int (length f) \<le> cap) (queue (bc_heap b' s))"
  using frames.Ingest_queue_ok [OF assms(1) assms(5), of s] assms(2-4) by simp

subsection \<open>What a frame holds\<close>

lemma matched_events_map: "matched_events chs (map int is) = map mkChangeEvent (map ((!) chs) (filter (\<lambda>i. i < length chs) is))"
  by (induction "is") auto

lemma matched_events_full: "matched_events chs (map int [0..<length chs]) = map mkChangeEvent chs"
proof -
  have "filter (\<lambda>i. i < length chs) [0..<length chs] = [0..<length chs]" by simp
  then show ?thesis by (simp add: matched_events_map map_nth)
qed

lemma sub_event_changes:
  "te_Changes (txToEvent L (ev_Tx (sub_event sub flt tx)) (Some (MatchedIndices (sub_event sub flt tx)))) =
     map mkChangeEvent (granted sub flt tx)"
  by (simp add: sub_event_def txToEvent_def matched_events_full)

lemma opt_list_None: "None \<in> set xs \<Longrightarrow> opt_list xs = None"
  by (induction xs) (auto split: option.splits)

lemma marshal_change_None:
  assumes "ce_Data (mkChangeEvent ch) = Some d" and "(k, v) \<in> set d" and "marshal_value L v = None"
  shows "marshal_change L (mkChangeEvent ch) = None"
proof -
  have "opt_list (map (\<lambda>(k, v). map_option (marshal_field k) (marshal_value L v)) (sort_key fst d)) = None"
    using assms(2,3) by (intro opt_list_None) force
  then have "marshal_row L d = None" by (simp add: marshal_row_def)
  moreover have "d \<noteq> []" using assms(2) by auto
  ultimately show ?thesis
    using assms(1) by (auto simp: marshal_change_def Let_def split: list.splits)
qed


end
