(* ===== verification/Auth_Whitelist.thy ===== *)
theory Auth_Whitelist
  imports Router_Dispatch
begin

text \<open>
  \<open>internal/auth/map.go\<close>: a grant (which columns of which tables a user may see) and the
  filter that cuts a row change down to it. A nil pointer to a grant is \<open>None\<close>. Reading the
  backend's JSON into the wire struct (\<open>encoding/json\<close> on \<open>wireMap\<close>) is a parameter.
\<close>

subsection \<open>Grants\<close>

record whitelist =
  UserID :: string
  wl_Tables :: "(string, string list) gomap"
  TTLSeconds :: int
  RefreshLSN :: lsn
  InitialData :: string \<comment> \<open>raw JSON, empty when absent\<close>

definition Allowed :: "whitelist option \<Rightarrow> string \<Rightarrow> string \<Rightarrow> bool" where
  "Allowed m table column =
     (case m of
        None \<Rightarrow> False
      | Some w \<Rightarrow> (case gm_get (wl_Tables w) table of None \<Rightarrow> False | Some cols \<Rightarrow> column \<in> set cols))"

text \<open>The loop over the columns of an inserted row.\<close>

fun insert_loop :: "string list \<Rightarrow> string \<Rightarrow> 'f row \<Rightarrow> 'f row \<Rightarrow> 'f row" where
  "insert_loop cols pkCol [] out = out"
| "insert_loop cols pkCol ((k, v) # d) out =
     (if k = pkCol then insert_loop cols pkCol d (gm_set k v out)
      else if k \<in> set cols then insert_loop cols pkCol d (gm_set k v out)
      else insert_loop cols pkCol d out)"

text \<open>The loop over an update also says whether a column other than the key was kept.\<close>

fun update_loop :: "string list \<Rightarrow> string \<Rightarrow> 'f row \<Rightarrow> 'f row \<Rightarrow> bool \<Rightarrow> 'f row \<times> bool" where
  "update_loop cols pkCol [] out kept = (out, kept)"
| "update_loop cols pkCol ((k, v) # d) out kept =
     (if k = pkCol then update_loop cols pkCol d (gm_set k v out) kept
      else if k \<in> set cols then update_loop cols pkCol d (gm_set k v out) True
      else update_loop cols pkCol d out kept)"

text \<open>A \<open>range\<close> over a nil map visits nothing.\<close>

definition map_or_empty :: "'f row option \<Rightarrow> 'f row" where
  "map_or_empty d = (case d of None \<Rightarrow> [] | Some m \<Rightarrow> m)"

definition Filter :: "whitelist option \<Rightarrow> 'f change \<Rightarrow> 'f change \<times> bool" where
  "Filter m c =
     (case m of
        None \<Rightarrow> (zero_change, True)
      | Some w \<Rightarrow>
          (case gm_get (wl_Tables w) (Table c) of
             None \<Rightarrow> (zero_change, True)
           | Some cols \<Rightarrow>
               (let out = c\<lparr>Data := None, Changed := None\<rparr> in
                if Op c = OpInsert then
                  (out\<lparr>Data := Some (insert_loop cols (PKCol c) (map_or_empty (Data c)) [])\<rparr>, False)
                else if Op c = OpUpdate then
                  (case update_loop cols (PKCol c) (map_or_empty (Changed c)) [] False of
                     (d, keptNonPK) \<Rightarrow>
                       if \<not> keptNonPK then (zero_change, True)
                       else (out\<lparr>Changed := Some d\<rparr>, False))
                else if Op c = OpDelete then (out, False)
                else (zero_change, True))))"

record wire_map =
  wm_user_id :: string
  wm_tables :: "(string, string list) gomap"
  wm_ttl_seconds :: int
  wm_initial_data :: string

datatype parse_err = ErrUnmarshal | ErrUserIDEmpty

definition ParseWhitelist :: "(string \<Rightarrow> wire_map option) \<Rightarrow> string \<Rightarrow> parse_err + whitelist" where
  "ParseWhitelist unmarshal body =
     (case unmarshal body of
        None \<Rightarrow> Inl ErrUnmarshal
      | Some w \<Rightarrow>
          (if wm_user_id w = [] then Inl ErrUserIDEmpty
           else Inr \<lparr>UserID = wm_user_id w,
                  wl_Tables = map (\<lambda>(tbl, cols). (tbl, remdups cols)) (wm_tables w),
                  TTLSeconds = wm_ttl_seconds w, RefreshLSN = 0,
                  InitialData = wm_initial_data w\<rparr>))"

subsection \<open>What the filter lets through\<close>

lemma gm_set_new: "k \<notin> fst ` set m \<Longrightarrow> gm_set k v m = m @ [(k, v)]"
  by (induction m) auto

lemma insert_loop_eq:
  "gm_ok d \<Longrightarrow> fst ` set d \<inter> fst ` set out = {} \<Longrightarrow>
   insert_loop cols pkCol d out = out @ filter (\<lambda>(k, v). k = pkCol \<or> k \<in> set cols) d"
  by (induction cols pkCol d out rule: insert_loop.induct) (auto simp: gm_set_new gm_ok_def)

lemma update_loop_eq:
  "gm_ok d \<Longrightarrow> fst ` set d \<inter> fst ` set out = {} \<Longrightarrow>
   update_loop cols pkCol d out kept =
     (out @ filter (\<lambda>(k, v). k = pkCol \<or> k \<in> set cols) d,
      kept \<or> (\<exists>k \<in> fst ` set d. k \<noteq> pkCol \<and> k \<in> set cols))"
  by (induction cols pkCol d out kept rule: update_loop.induct) (auto simp: gm_set_new gm_ok_def)

lemma insert_loop_keys:
  "fst ` set (insert_loop cols pkCol d out) \<subseteq> fst ` set out \<union> {k \<in> fst ` set d. k = pkCol \<or> k \<in> set cols}"
  by (induction cols pkCol d out rule: insert_loop.induct) (auto simp: dom_update)

lemma update_loop_keys:
  "fst ` set (fst (update_loop cols pkCol d out kept))
     \<subseteq> fst ` set out \<union> {k \<in> fst ` set d. k = pkCol \<or> k \<in> set cols}"
  by (induction cols pkCol d out kept rule: update_loop.induct) (simp_all add: dom_update, blast+)

lemma change_maps_ok:
  "change_ok c \<Longrightarrow> gm_ok (map_or_empty (Data c)) \<and> gm_ok (map_or_empty (Changed c))"
  by (auto simp: change_ok_def map_or_empty_def split: option.splits)

text \<open>Each operation, on a table the grant names.\<close>

lemma Filter_insert:
  assumes "gm_get (wl_Tables w) (Table c) = Some cols" and "Op c = OpInsert" and "change_ok c"
  shows "Filter (Some w) c =
    (c\<lparr>Data := Some (filter (\<lambda>(k, v). k = PKCol c \<or> Allowed (Some w) (Table c) k) (map_or_empty (Data c))),
       Changed := None\<rparr>, False)"
  using assms change_maps_ok [OF assms(3)] by (simp add: Filter_def insert_loop_eq Allowed_def)

lemma Filter_update:
  assumes "gm_get (wl_Tables w) (Table c) = Some cols" and "Op c = OpUpdate" and "change_ok c"
  shows "Filter (Some w) c =
    (if \<exists>k \<in> fst ` set (map_or_empty (Changed c)). k \<noteq> PKCol c \<and> Allowed (Some w) (Table c) k
     then (c\<lparr>Data := None,
             Changed := Some (filter (\<lambda>(k, v). k = PKCol c \<or> Allowed (Some w) (Table c) k) (map_or_empty (Changed c)))\<rparr>, False)
     else (zero_change, True))"
  using assms change_maps_ok [OF assms(3)] by (simp add: Filter_def update_loop_eq Allowed_def)

lemma Filter_delete:
  assumes "gm_get (wl_Tables w) (Table c) = Some cols" and "Op c = OpDelete"
  shows "Filter (Some w) c = (c\<lparr>Data := None, Changed := None\<rparr>, False)"
  using assms by (simp add: Filter_def)

text \<open>
  a change the filter drops is handed on as the empty change, so that nothing of the row
  leaks to a caller that ignores the flag; and without a grant, or on a table the grant does not
  name, every change is dropped.
\<close>

lemma Filter_drop_is_empty:
  shows "snd (Filter m c) \<Longrightarrow> fst (Filter m c) = zero_change"
    and "m = None \<or> (\<exists>w. m = Some w \<and> gm_get (wl_Tables w) (Table c) = None) \<Longrightarrow> snd (Filter m c)"
  by (auto simp: Filter_def Let_def split: option.splits if_splits prod.splits)

lemma Filter_columns_facts:
  assumes "\<not> snd (Filter m c)"
  shows "columns (fst (Filter m c)) \<subseteq> insert (PKCol c) {k. Allowed m (Table c) k}"
    and "Schema (fst (Filter m c)) = Schema c \<and> Table (fst (Filter m c)) = Table c
      \<and> Op (fst (Filter m c)) = Op c \<and> PK (fst (Filter m c)) = PK c \<and> PKCol (fst (Filter m c)) = PKCol c"
proof -
  obtain w cols where w: "m = Some w" "gm_get (wl_Tables w) (Table c) = Some cols"
    using assms by (auto simp: Filter_def split: option.splits)
  note keys = insert_loop_keys [of cols "PKCol c" "map_or_empty (Data c)" "[]"]
    update_loop_keys [of cols "PKCol c" "map_or_empty (Changed c)" "[]" False]
  show "columns (fst (Filter m c)) \<subseteq> insert (PKCol c) {k. Allowed m (Table c) k}"
    using assms keys
    by (fastforce simp: w Filter_def Let_def Allowed_def columns_def split: if_splits prod.splits)
  show "Schema (fst (Filter m c)) = Schema c \<and> Table (fst (Filter m c)) = Table c
      \<and> Op (fst (Filter m c)) = Op c \<and> PK (fst (Filter m c)) = PK c \<and> PKCol (fst (Filter m c)) = PKCol c"
    using assms by (auto simp: w Filter_def Let_def split: if_splits prod.splits)
qed


text \<open>Reading a grant.\<close>

lemma ParseWhitelist_Allowed:
  assumes "ParseWhitelist unmarshal body = Inr w" and "unmarshal body = Some wm"
  shows "Allowed (Some w) table column \<longleftrightarrow>
      (\<exists>cols. gm_get (wm_tables wm) table = Some cols \<and> column \<in> set cols)"
    and "UserID w = wm_user_id wm" and "UserID w \<noteq> []" and "RefreshLSN w = 0"
proof -
  have "gm_get (map (\<lambda>(t, cs). (t, remdups cs)) m) table = map_option remdups (gm_get m table)"
    for m :: "(string, string list) gomap"
    by (induction m) auto
  with assms show "Allowed (Some w) table column \<longleftrightarrow>
      (\<exists>cols. gm_get (wm_tables wm) table = Some cols \<and> column \<in> set cols)"
    "UserID w = wm_user_id wm" "UserID w \<noteq> []" "RefreshLSN w = 0"
    by (auto simp: ParseWhitelist_def Allowed_def split: if_splits option.splits)
qed

end
