(* ===== verification/Auth_Client.thy ===== *)
theory Auth_Client
  imports Auth_Whitelist Go_Json
begin

text \<open>
  \<open>internal/auth/client.go\<close>, \<open>config.go\<close> and \<open>errors.go\<close>: the settings of the auth backend,
  which of the client's cookies and headers are passed on to it, and the call that opens a
  session. The HTTP transport is an input (what the dispatch returned), the JSON reader a
  parameter; a request is a record of what is put on the wire.
\<close>

subsection \<open>Header names\<close>

text \<open>The bytes of an RFC 6265 / HTTP token (\<open>isFieldNameToken\<close>).\<close>

definition token_punct :: string where
  "token_punct = ''!#$%&'' @ [CHR 0x27] @ ''*+-.^_|~'' @ [CHR 0x60]"

definition token_char :: "char \<Rightarrow> bool" where
  "token_char c \<longleftrightarrow> is_upper c \<or> is_lower c \<or> is_digit c \<or> c \<in> set token_punct"

definition isFieldNameToken :: "string \<Rightarrow> bool" where
  "isFieldNameToken s \<longleftrightarrow> (if s = [] then False else list_all token_char s)"

text \<open>
  \<open>textproto.CanonicalMIMEHeaderKey\<close>: upper case at the start and after each hyphen, lower
  case elsewhere; a name with a byte that is no token byte is left as it is.
\<close>

fun canon_from :: "bool \<Rightarrow> string \<Rightarrow> string" where
  "canon_from up [] = []"
| "canon_from up (c # cs) =
     (if up then to_upper_char c else to_lower_char c) # canon_from (c = CHR ''-'') cs"

definition CanonicalMIMEHeaderKey :: "string \<Rightarrow> string" where
  "CanonicalMIMEHeaderKey s = (if list_all token_char s then canon_from True s else s)"

definition reservedHeaders :: "string list" where
  "reservedHeaders = map CanonicalMIMEHeaderKey
     [''Authorization'', ''Host'', ''Content-Length'', ''Content-Type'', ''Accept'', ''Connection'',
      ''Transfer-Encoding'', ''Cookie'', ''X-Request-Id'', ''Origin'']"

definition reserved :: "string \<Rightarrow> bool" where
  "reserved name \<longleftrightarrow> name \<in> set reservedHeaders"

subsection \<open>Settings\<close>

record auth_config =
  BackendURL :: string
  DefaultTTLSeconds :: int
  RequestTimeout :: int
  ForwardedCookies :: "string list"
  ForwardedHeaders :: "string list"
  AllowPlaintext :: bool

definition auth_Defaults :: auth_config where
  "auth_Defaults =
     \<lparr>BackendURL = [], DefaultTTLSeconds = 60, RequestTimeout = 2 * second_ns,
      ForwardedCookies = [], ForwardedHeaders = [], AllowPlaintext = False\<rparr>"

datatype auth_cfg_err =
    URLRequired | URLInvalid | URLScheme | URLHost | URLPlaintext | BadTimeout | BadTTL
  | BadCookieName nat | BadHeaderName nat | ReservedHeader nat

text \<open>\<open>url.Parse\<close> is a parameter: the scheme and the host of a URL.\<close>

definition auth_Validate :: "(string \<Rightarrow> (string \<times> string) option) \<Rightarrow> auth_config \<Rightarrow> auth_cfg_err list" where
  "auth_Validate urlParse c =
     (if BackendURL c = [] then [URLRequired]
      else (case urlParse (BackendURL c) of
              None \<Rightarrow> [URLInvalid]
            | Some (scheme, host) \<Rightarrow>
                (if scheme \<noteq> ''http'' \<and> scheme \<noteq> ''https'' then [URLScheme]
                 else if host = [] then [URLHost]
                 else if scheme \<noteq> ''https'' \<and> \<not> AllowPlaintext c then [URLPlaintext]
                 else [])))
     @ (if RequestTimeout c \<le> 0 then [BadTimeout] else [])
     @ (if DefaultTTLSeconds c < 1 then [BadTTL] else [])
     @ concat (map (\<lambda>(i, name). if \<not> isFieldNameToken name then [BadCookieName (i + 1)] else [])
         (enumerate 0 (ForwardedCookies c)))
     @ concat (map (\<lambda>(i, name).
           if \<not> isFieldNameToken name then [BadHeaderName (i + 1)]
           else if reserved (CanonicalMIMEHeaderKey name) then [ReservedHeader (i + 1)]
           else [])
         (enumerate 0 (ForwardedHeaders c)))"

subsection \<open>Forwarded credentials\<close>

type_synonym http_header = "(string, string list) gomap"
type_synonym cookie = "string \<times> string"

text \<open>\<open>http.Header.Add\<close>, \<open>Set\<close> and \<open>Values\<close> work on canonical names.\<close>

definition header_Add :: "string \<Rightarrow> string \<Rightarrow> http_header \<Rightarrow> http_header" where
  "header_Add name v h =
     (let k = CanonicalMIMEHeaderKey name in
      gm_set k ((case gm_get h k of None \<Rightarrow> [] | Some vs \<Rightarrow> vs) @ [v]) h)"

definition header_Set :: "string \<Rightarrow> string \<Rightarrow> http_header \<Rightarrow> http_header" where
  "header_Set name v h = gm_set (CanonicalMIMEHeaderKey name) [v] h"

definition header_Values :: "string \<Rightarrow> http_header \<Rightarrow> string list" where
  "header_Values name h = (case gm_get h (CanonicalMIMEHeaderKey name) of None \<Rightarrow> [] | Some vs \<Rightarrow> vs)"

record forwarded_auth =
  Cookies :: "cookie list"
  Headers :: http_header

definition fwd_Empty :: "forwarded_auth \<Rightarrow> bool" where
  "fwd_Empty f \<longleftrightarrow> length (Cookies f) = 0 \<and> length (Headers f) = 0"

record auth_client =
  cl_base :: string
  cl_cookies :: "string list"
  cl_headers :: "string list"
  cl_requests :: "string \<Rightarrow> nat" \<comment> \<open>the counter \<open>AuthRequests\<close> by result\<close>

definition buildCookieAllowlist :: "string list \<Rightarrow> string list" where
  "buildCookieAllowlist names = remdups names"

definition buildHeaderAllowlist :: "string list \<Rightarrow> string list" where
  "buildHeaderAllowlist names = remdups (map CanonicalMIMEHeaderKey names)"

definition New_client :: "auth_config \<Rightarrow> auth_client" where
  "New_client cfg =
     \<lparr>cl_base = BackendURL cfg, cl_cookies = buildCookieAllowlist (ForwardedCookies cfg),
      cl_headers = buildHeaderAllowlist (ForwardedHeaders cfg), cl_requests = (\<lambda>_. 0)\<rparr>"

text \<open>The loop over the allowed header names.\<close>

fun forward_headers :: "string list \<Rightarrow> http_header \<Rightarrow> http_header \<Rightarrow> http_header" where
  "forward_headers [] req out = out"
| "forward_headers (name # names) req out =
     (if reserved name then forward_headers names req out
      else
        (let vals = header_Values name req in
         if length vals = 0 then forward_headers names req out
         else forward_headers names req (fold (header_Add name) vals out)))"

definition ForwardedFromRequest :: "auth_client \<Rightarrow> cookie list \<Rightarrow> http_header \<Rightarrow> forwarded_auth" where
  "ForwardedFromRequest c cookies header =
     \<lparr>Cookies = (if 0 < length (cl_cookies c)
                 then filter (\<lambda>(name, v). name \<in> set (cl_cookies c)) cookies else []),
      Headers = (if 0 < length (cl_headers c) then forward_headers (cl_headers c) header [] else [])\<rparr>"

subsection \<open>Opening a session\<close>

datatype auth_err =
    ErrUnauthorized string | ErrForbidden string | ErrNotFound string | ErrUnavailable string
  | ErrOther string

record session_request =
  rq_url :: string
  rq_body :: string
  rq_headers :: http_header
  rq_cookies :: "cookie list"

text \<open>What the transport does with the request: no response, a body that breaks off, or a
  status and a body. The flag says whether the request's context was done.\<close>

datatype http_result = DispatchFailed bool string | BodyFailed bool string | HttpResponse int string

definition maxResponseBytes :: nat where
  "maxResponseBytes = 64 * 1024"

definition request_id_char :: "char \<Rightarrow> bool" where
  "request_id_char c \<longleftrightarrow>
     is_upper c \<or> is_lower c \<or> is_digit c \<or> c = CHR ''.'' \<or> c = CHR ''_'' \<or> c = CHR ''-''"

definition validOutboundRequestID :: "string \<Rightarrow> bool" where
  "validOutboundRequestID s \<longleftrightarrow>
     (if s = [] \<or> 128 < length s then False else list_all request_id_char s)"

text \<open>\<open>rnd\<close> is the hex text of the random substitute.\<close>

definition sanitizeRequestID :: "string \<Rightarrow> string \<Rightarrow> string" where
  "sanitizeRequestID rnd requestID = (if validOutboundRequestID requestID then requestID else rnd)"

definition count_request :: "string \<Rightarrow> auth_client \<Rightarrow> auth_client" where
  "count_request label c = c\<lparr>cl_requests := (cl_requests c)(label := cl_requests c label + 1)\<rparr>"

definition doAndDecode ::
  "(string \<Rightarrow> wire_map option) \<Rightarrow> http_result \<Rightarrow> auth_client
   \<Rightarrow> (auth_err + whitelist) \<times> auth_client"
where
  "doAndDecode unmarshal res c =
     (case res of
        DispatchFailed ctxDone cause \<Rightarrow>
          (if ctxDone then (Inl (ErrUnavailable cause), c)
           else (Inl (ErrUnavailable cause), count_request ''unavailable'' c))
      | BodyFailed ctxDone cause \<Rightarrow>
          (if ctxDone then (Inl (ErrUnavailable cause), c)
           else (Inl (ErrUnavailable cause), count_request ''unavailable'' c))
      | HttpResponse status raw \<Rightarrow>
          (let body = take maxResponseBytes raw in
           if status = 200 then
             (case ParseWhitelist unmarshal body of
                Inl e \<Rightarrow> (Inl (ErrUnavailable ''decode''), count_request ''unavailable'' c)
              | Inr m \<Rightarrow> (Inr m, count_request ''ok'' c))
           else if status = 401 then (Inl (ErrUnauthorized body), count_request ''unauthorized'' c)
           else if status = 403 then (Inl (ErrForbidden body), count_request ''forbidden'' c)
           else if status = 404 then (Inl (ErrNotFound body), count_request ''not_found'' c)
           else (Inl (ErrUnavailable ''status''), count_request ''unavailable'' c)))"

text \<open>\<open>json.NewEncoder(buf).Encode\<close> of the one-entry map.\<close>

definition session_body :: "string \<Rightarrow> string" where
  "session_body channel =
     CHR ''{'' # json_quote ''channel'' @ '':'' @ json_quote channel @ ''}'' @ [CHR 0x0A]"

definition missing_credentials :: string where
  "missing_credentials =
     CHR ''{'' # CHR 0x22 # ''reason'' @ CHR 0x22 # '':'' @ CHR 0x22 # ''missing_credentials'' @ CHR 0x22 # ''}''"

fun add_forwarded :: "http_header \<Rightarrow> http_header \<Rightarrow> http_header" where
  "add_forwarded [] h = h"
| "add_forwarded ((name, vals) # fwd) h =
     (if reserved (CanonicalMIMEHeaderKey name) then add_forwarded fwd h
      else add_forwarded fwd (fold (header_Add name) vals h))"

definition session_request_of ::
  "auth_client \<Rightarrow> string \<Rightarrow> forwarded_auth \<Rightarrow> string \<Rightarrow> string \<Rightarrow> session_request" where
  "session_request_of c bearer fwd channel requestID =
     (let h1 = add_forwarded (Headers fwd) [];
          h2 = (if bearer \<noteq> [] then header_Set ''Authorization'' (''Bearer '' @ bearer) h1 else h1)
      in \<lparr>rq_url = cl_base c @ ''/auth/sessions'', rq_body = session_body channel,
          rq_headers = header_Set ''X-Request-ID'' requestID
            (header_Set ''Accept'' ''application/json'' (header_Set ''Content-Type'' ''application/json'' h2)),
          rq_cookies = Cookies fwd\<rparr>)"

text \<open>
  \<open>OpenSession\<close>: the request put on the wire, if any, with the result. \<open>transport\<close> is the
  HTTP client, \<open>request_ok\<close> whether \<open>http.NewRequest\<close> accepts the URL; the ID is sanitized
  twice, with two substitutes, one sent and one for the log lines.
\<close>

definition OpenSession ::
  "(string \<Rightarrow> wire_map option) \<Rightarrow> (string \<Rightarrow> bool) \<Rightarrow> (session_request \<Rightarrow> http_result)
   \<Rightarrow> string \<Rightarrow> string \<Rightarrow> forwarded_auth \<Rightarrow> string \<Rightarrow> string \<Rightarrow> auth_client
   \<Rightarrow> session_request option \<times> (auth_err + whitelist) \<times> auth_client"
where
  "OpenSession unmarshal request_ok transport rnd bearer fwd channel requestID c =
     (if bearer = [] \<and> fwd_Empty fwd then
        (None, Inl (ErrUnauthorized missing_credentials), count_request ''unauthorized'' c)
      else if \<not> request_ok (cl_base c @ ''/auth/sessions'') then
        (None, Inl (ErrUnavailable ''request''), count_request ''unavailable'' c)
      else
        (let req = session_request_of c bearer fwd channel (sanitizeRequestID rnd requestID);
             (res, c') = doAndDecode unmarshal (transport req) c
         in (Some req, res, c')))"

lemmas [auth_defs] =
  header_Add_def header_Set_def header_Values_def sanitizeRequestID_def count_request_def
  doAndDecode_def OpenSession_def

subsection \<open>Facts on header names\<close>

lemma byte_upper: "byte (to_upper_char c) = (if is_lower c then byte c - 32 else byte c)"
  using byte_less_256 [of c] by (auto simp: to_upper_char_def is_lower_def)

lemma byte_lower: "byte (to_lower_char c) = (if is_upper c then byte c + 32 else byte c)"
  by (simp add: to_lower_char_def is_upper_def)

lemma byte_eq_iff: "byte c = byte d \<longleftrightarrow> c = d"
  by (rule of_char_eq_iff)

lemma case_hyphen [simp]:
  "to_upper_char c = CHR ''-'' \<longleftrightarrow> c = CHR ''-''" "to_lower_char c = CHR ''-'' \<longleftrightarrow> c = CHR ''-''"
  using byte_eq_iff [of c "CHR ''-''"] byte_eq_iff [of "to_upper_char c" "CHR ''-''"]
    byte_eq_iff [of "to_lower_char c" "CHR ''-''"]
  by (auto simp: byte_upper byte_lower is_lower_def is_upper_def split: if_splits)

lemma case_idem [simp]:
  "to_upper_char (to_upper_char c) = to_upper_char c" "to_lower_char (to_lower_char c) = to_lower_char c"
  by (auto simp: byte_upper byte_lower is_lower_def is_upper_def simp flip: byte_eq_iff)

lemma token_char_case [simp]:
  "token_char c \<Longrightarrow> token_char (to_upper_char c)" "token_char c \<Longrightarrow> token_char (to_lower_char c)"
  by (auto simp: token_char_def to_upper_char_def to_lower_char_def is_upper_def is_lower_def is_digit_def)

lemma canon_from_tokens: "list_all token_char s \<Longrightarrow> list_all token_char (canon_from up s)"
  by (induction up s rule: canon_from.induct) auto

lemma canon_from_idem [simp]: "canon_from up (canon_from up s) = canon_from up s"
  by (induction up s rule: canon_from.induct) auto

lemma canonical_idem [simp]: "CanonicalMIMEHeaderKey (CanonicalMIMEHeaderKey s) = CanonicalMIMEHeaderKey s"
  by (simp add: CanonicalMIMEHeaderKey_def canon_from_tokens)

subsection \<open>Facts on headers\<close>

lemma get_header_Set: "gm_get (header_Set n v h) k = (if k = CanonicalMIMEHeaderKey n then Some [v] else gm_get h k)"
  by (simp add: header_Set_def)

lemma get_fold_Add:
  "gm_get (fold (header_Add n) vs h) k =
     (if k = CanonicalMIMEHeaderKey n \<and> vs \<noteq> []
      then Some ((case gm_get h k of None \<Rightarrow> [] | Some old \<Rightarrow> old) @ vs) else gm_get h k)"
  by (induction vs arbitrary: h) (auto simp: header_Add_def Let_def)

text \<open>What \<open>OpenSession\<close> adds for forwarded headers: nothing under a reserved name.\<close>

lemma add_forwarded_reserved: "reserved k \<Longrightarrow> gm_get (add_forwarded fwd h) k = gm_get h k"
  by (induction fwd h rule: add_forwarded.induct) (auto simp: get_fold_Add)

definition canonical_keys :: "http_header \<Rightarrow> bool" where
  "canonical_keys h \<longleftrightarrow> gm_ok h \<and> (\<forall>k \<in> fst ` set h. CanonicalMIMEHeaderKey k = k)"

lemma add_forwarded_get:
  "canonical_keys fwd \<Longrightarrow> \<not> reserved k \<Longrightarrow>
   gm_get (add_forwarded fwd h) k =
     (case gm_get fwd k of
        Some (v # vs) \<Rightarrow> Some ((case gm_get h k of None \<Rightarrow> [] | Some old \<Rightarrow> old) @ v # vs)
      | _ \<Rightarrow> gm_get h k)"
proof (induction fwd h rule: add_forwarded.induct)
  case (2 name vals fwd h)
  have n: "CanonicalMIMEHeaderKey name = name" and fwd: "canonical_keys fwd" "name \<notin> fst ` set fwd"
    using 2(3) by (auto simp: canonical_keys_def gm_ok_def)
  have notin: "gm_get fwd name = None" using fwd(2) by (simp add: map_of_eq_None_iff)
  define h' where "h' = fold (header_Add name) vals h"
  have g: "gm_get h' j = (if j = name \<and> vals \<noteq> []
      then Some ((case gm_get h j of None \<Rightarrow> [] | Some old \<Rightarrow> old) @ vals) else gm_get h j)" for j
    by (simp only: h'_def get_fold_Add n)
  show ?case
  proof (cases "reserved name")
    case True
    with 2(1) [OF _ fwd(1) 2(4)] 2(4) show ?thesis by (auto simp: n)
  next
    case False
    then have eq: "add_forwarded ((name, vals) # fwd) h = add_forwarded fwd h'" by (simp add: n h'_def)
    note ih = 2(2) [OF _ fwd(1) 2(4), folded h'_def]
    show ?thesis
    proof (cases "k = name")
      case True
      with ih False eq show ?thesis by (cases vals) (auto simp: n g notin)
    next
      case other: False
      then have "gm_get h' k = gm_get h k" by (simp add: g)
      from ih [unfolded this] False eq other show ?thesis by (simp add: n)
    qed
  qed
qed simp

lemma forward_headers_get:
  "distinct names \<Longrightarrow> (\<And>n. n \<in> set names \<Longrightarrow> CanonicalMIMEHeaderKey n = n) \<Longrightarrow>
   (\<And>n. n \<in> set names \<Longrightarrow> gm_get out n = None) \<Longrightarrow>
   gm_get (forward_headers names req out) k =
     (if k \<in> set names \<and> \<not> reserved k \<and> header_Values k req \<noteq> [] then Some (header_Values k req)
      else gm_get out k)"
proof (induction names arbitrary: out)
  case (Cons name names)
  define out' where "out' = (if reserved name then out else fold (header_Add name) (header_Values name req) out)"
  have n: "CanonicalMIMEHeaderKey name = name" using Cons.prems(2) by simp
  have g: "gm_get out' j = (if j = name \<and> \<not> reserved name \<and> header_Values name req \<noteq> []
      then Some (header_Values name req) else gm_get out j)" for j
    using Cons.prems(3) [of name] by (simp add: out'_def get_fold_Add n)
  have "forward_headers (name # names) req out = forward_headers names req out'"
    by (simp add: out'_def Let_def)
  moreover have "gm_get out' j = None" if "j \<in> set names" for j
    using that Cons.prems(1,3) by (auto simp: g)
  ultimately show ?case
    using Cons.IH [of out'] Cons.prems(1,2) Cons.prems(3) [of k] by (auto simp: g)
qed simp

lemma header_Add_canonical: "canonical_keys h \<Longrightarrow> canonical_keys (header_Add n v h)"
  by (simp add: header_Add_def canonical_keys_def Let_def dom_update)

lemma fold_Add_canonical: "canonical_keys h \<Longrightarrow> canonical_keys (fold (header_Add n) vs h)"
  by (induction vs arbitrary: h) (simp_all add: header_Add_canonical)

lemma forward_headers_canonical: "canonical_keys out \<Longrightarrow> canonical_keys (forward_headers names req out)"
  by (induction names req out rule: forward_headers.induct) (simp_all add: Let_def fold_Add_canonical)

subsection \<open>What the backend is sent\<close>

lemma reserved_own [simp]:
  "reserved ''Authorization''" "reserved ''Content-Type''" "reserved ''Accept''" "reserved ''X-Request-Id''"
  by code_simp+

lemma canonical_own [simp]:
  "CanonicalMIMEHeaderKey ''Authorization'' = ''Authorization''"
  "CanonicalMIMEHeaderKey ''Content-Type'' = ''Content-Type''"
  "CanonicalMIMEHeaderKey ''Accept'' = ''Accept''"
  "CanonicalMIMEHeaderKey ''X-Request-ID'' = ''X-Request-Id''"
  by code_simp+

lemma reserved_headers_facts:
  assumes "reserved k"
  shows "gm_get (rq_headers (session_request_of c bearer fwd channel rid)) k =
    (if k = ''X-Request-Id'' then Some [rid]
     else if k = ''Accept'' \<or> k = ''Content-Type'' then Some [''application/json'']
     else if k = ''Authorization'' \<and> bearer \<noteq> [] then Some [''Bearer '' @ bearer]
     else None)"
  using add_forwarded_reserved [OF assms, of "Headers fwd" "[]"]
  by (simp add: session_request_of_def Let_def get_header_Set)



subsection \<open>Outcomes\<close>

lemma OpenSession_sends:
  "fst (OpenSession unmarshal request_ok transport rnd bearer fwd channel rid c) = Some req \<Longrightarrow>
   (bearer \<noteq> [] \<or> \<not> fwd_Empty fwd) \<and>
   req = session_request_of c bearer fwd channel (sanitizeRequestID rnd rid)"
  by (auto simp: OpenSession_def Let_def split: if_splits prod.splits)

lemma validOutboundRequestID_hex:
  assumes "length rnd = 32" and "list_all request_id_char rnd"
  shows "validOutboundRequestID (sanitizeRequestID rnd rid)"
  using assms by (auto simp: sanitizeRequestID_def validOutboundRequestID_def)

lemma OpenSession_grants_facts:
  assumes "OpenSession unmarshal request_ok transport rnd bearer fwd channel rid c = (sent_req, Inr w, c')"
  shows "\<exists>req raw. sent_req = Some req \<and> transport req = HttpResponse 200 raw
    \<and> ParseWhitelist unmarshal (take maxResponseBytes raw) = Inr w
    \<and> (bearer \<noteq> [] \<or> \<not> fwd_Empty fwd)
    \<and> rq_body req = session_body channel
    \<and> (bearer \<noteq> [] \<longrightarrow> gm_get (rq_headers req) ''Authorization'' = Some [''Bearer '' @ bearer])"
proof -
  let ?req = "session_request_of c bearer fwd channel (sanitizeRequestID rnd rid)"
  from assms have s: "sent_req = Some ?req" "bearer \<noteq> [] \<or> \<not> fwd_Empty fwd"
    and d: "doAndDecode unmarshal (transport ?req) c = (Inr w, c')"
    by (auto simp: OpenSession_def Let_def split: if_splits prod.splits)
  from d obtain raw where "transport ?req = HttpResponse 200 raw"
      "ParseWhitelist unmarshal (take maxResponseBytes raw) = Inr w"
    by (auto simp: doAndDecode_def Let_def split: http_result.splits if_splits sum.splits)
  moreover have "rq_body ?req = session_body channel" by (simp add: session_request_of_def Let_def)
  ultimately show ?thesis
    using s reserved_headers_facts [of "''Authorization''" c bearer fwd channel "sanitizeRequestID rnd rid"]
    by auto
qed

text \<open>The counters: one result is counted per call, none when the caller has left.\<close>

definition caller_left :: "http_result \<Rightarrow> bool" where
  "caller_left res \<longleftrightarrow> (case res of DispatchFailed b _ \<Rightarrow> b | BodyFailed b _ \<Rightarrow> b | HttpResponse _ _ \<Rightarrow> False)"

text \<open>The label of a result, as \<open>doAndDecode\<close> counts it and \<open>refreshResultLabel\<close> computes it from the error.\<close>

definition result_label :: "auth_err + whitelist \<Rightarrow> string" where
  "result_label res = (case res of
     Inr _ \<Rightarrow> ''ok'' | Inl (ErrUnauthorized _) \<Rightarrow> ''unauthorized'' | Inl (ErrForbidden _) \<Rightarrow> ''forbidden''
   | Inl (ErrNotFound _) \<Rightarrow> ''not_found'' | Inl _ \<Rightarrow> ''unavailable'')"

lemma doAndDecode_counts:
  "doAndDecode unmarshal res c = (r, c') \<Longrightarrow>
   c' = (if caller_left res then c else count_request (result_label r) c)"
  by (auto simp: doAndDecode_def Let_def caller_left_def result_label_def
      split: http_result.splits if_splits sum.splits)

text \<open>Which answer gives which result.\<close>

lemma doAndDecode_result:
  assumes "doAndDecode unmarshal res c = (r, c')"
  shows "r = Inr w \<longleftrightarrow> (\<exists>raw. res = HttpResponse 200 raw \<and> ParseWhitelist unmarshal (take maxResponseBytes raw) = Inr w)"
    and "r = Inl (ErrUnauthorized b) \<longleftrightarrow> (\<exists>raw. res = HttpResponse 401 raw \<and> b = take maxResponseBytes raw)"
    and "r = Inl (ErrForbidden b) \<longleftrightarrow> (\<exists>raw. res = HttpResponse 403 raw \<and> b = take maxResponseBytes raw)"
    and "r = Inl (ErrNotFound b) \<longleftrightarrow> (\<exists>raw. res = HttpResponse 404 raw \<and> b = take maxResponseBytes raw)"
  using assms by (auto simp: doAndDecode_def Let_def split: http_result.splits if_splits sum.splits)


text \<open>Settings that pass validation name no reserved header and only tokens.\<close>

lemma auth_Validate_headers:
  assumes "auth_Validate urlParse c = []"
  shows "list_all isFieldNameToken (ForwardedHeaders c)" "list_all isFieldNameToken (ForwardedCookies c)"
    and "\<forall>name \<in> set (ForwardedHeaders c). \<not> reserved (CanonicalMIMEHeaderKey name)"
    and "1 \<le> DefaultTTLSeconds c" "0 < RequestTimeout c" "BackendURL c \<noteq> []"
proof -
  have "concat (map (\<lambda>(i, name). if \<not> isFieldNameToken name then [BadCookieName (i + 1)] else [])
      (enumerate n xs)) = [] \<longleftrightarrow> list_all isFieldNameToken xs" for n xs
    by (induction xs arbitrary: n) simp_all
  moreover have "concat (map (\<lambda>(i, name).
           if \<not> isFieldNameToken name then [BadHeaderName (i + 1)]
           else if reserved (CanonicalMIMEHeaderKey name) then [ReservedHeader (i + 1)]
           else []) (enumerate n xs)) = [] \<longleftrightarrow>
      list_all isFieldNameToken xs \<and> (\<forall>name \<in> set xs. \<not> reserved (CanonicalMIMEHeaderKey name))" for n xs
    by (induction xs arbitrary: n) auto
  moreover have "(if P then [x] else []) = [] \<longleftrightarrow> \<not> P" for P and x :: auth_cfg_err
    by simp
  ultimately show "list_all isFieldNameToken (ForwardedHeaders c)" "list_all isFieldNameToken (ForwardedCookies c)"
    "\<forall>name \<in> set (ForwardedHeaders c). \<not> reserved (CanonicalMIMEHeaderKey name)"
    "1 \<le> DefaultTTLSeconds c" "0 < RequestTimeout c" "BackendURL c \<noteq> []"
    using assms unfolding auth_Validate_def append_is_Nil_conv by (auto simp only: not_less not_le split: if_splits)
qed

end
