(* ===== verification/Auth_Refresh.thy ===== *)
theory Auth_Refresh
  imports Auth_Client
begin

text \<open>
  \<open>internal/auth/subscriber.go\<close>: the grant of a live stream. It filters the rows the router
  offers, is fetched again on a timer, and replaces the old grant from a position of the log
  on, so that rows committed before the refresh are still cut by the grant they were written
  under. What a timer, the backend and the contexts do is input.
\<close>

subsection \<open>State\<close>

record auth_sub =
  AuthMap :: "whitelist option"
  PrevWhitelist :: "whitelist option"
  lastRefresh :: int
  as_userID :: string
  as_channel :: string
  as_ttl :: int
  as_backoffs :: "int list"

definition defaultBackoffs :: "int list" where
  "defaultBackoffs = map (\<lambda>s. s * second_ns) [1, 3, 9]"

record auth_sub_config =
  InitialMap :: "whitelist option"
  ac_UserID :: string
  ac_Channel :: string
  ac_DefaultTTL :: int
  ac_Backoffs :: "int list option"

text \<open>The TTL of the backend counts in seconds and is turned into a 64-bit duration.\<close>

definition sub_ttl :: "auth_sub_config \<Rightarrow> int" where
  "sub_ttl cfg =
     (if 0 < ac_DefaultTTL cfg then
        (case InitialMap cfg of
           None \<Rightarrow> ac_DefaultTTL cfg
         | Some m \<Rightarrow> if 0 < TTLSeconds m then wrap_int (TTLSeconds m * second_ns) else ac_DefaultTTL cfg)
      else 0)"

definition New_auth_sub :: "auth_sub_config \<Rightarrow> int \<Rightarrow> auth_sub" where
  "New_auth_sub cfg now =
     \<lparr>AuthMap = InitialMap cfg, PrevWhitelist = None, lastRefresh = now,
      as_userID =
        (if ac_UserID cfg = [] then (case InitialMap cfg of None \<Rightarrow> [] | Some m \<Rightarrow> UserID m)
         else ac_UserID cfg),
      as_channel = ac_Channel cfg, as_ttl = sub_ttl cfg,
      as_backoffs = (case ac_Backoffs cfg of None \<Rightarrow> defaultBackoffs | Some bs \<Rightarrow> bs)\<rparr>"

subsection \<open>Filtering\<close>

definition FilterWithLSN :: "auth_sub \<Rightarrow> 'f change \<Rightarrow> lsn \<Rightarrow> 'f change \<times> bool" where
  "FilterWithLSN s c txCommitLSN =
     (case AuthMap s of
        None \<Rightarrow> (c, True)
      | Some m \<Rightarrow>
          (if txCommitLSN \<le> RefreshLSN m then
             (case PrevWhitelist s of
                None \<Rightarrow> (c, True)
              | Some prev \<Rightarrow> Filter (Some prev) c)
           else Filter (Some m) c))"

subsection \<open>Refreshing\<close>

definition tableFromChannel :: "string \<Rightarrow> string" where
  "tableFromChannel channel =
     (case str_cut (CHR '':'') channel of
        (table, _, _) \<Rightarrow>
          (if table = [] then []
           else (case str_cut (CHR ''.'') table of
                   (_, after, found) \<Rightarrow> if found then after else table)))"

definition refreshMapAllowed :: "whitelist option \<Rightarrow> auth_sub \<Rightarrow> bool" where
  "refreshMapAllowed fresh s =
     (let table = tableFromChannel (as_channel s) in
      case fresh of
        None \<Rightarrow> False
      | Some w \<Rightarrow>
          (if table = [] \<or> UserID w \<noteq> as_userID s then False
           else gm_get (wl_Tables w) table \<noteq> None))"

definition swapMap :: "whitelist option \<Rightarrow> lsn \<Rightarrow> int \<Rightarrow> auth_sub \<Rightarrow> auth_sub" where
  "swapMap fresh currentLSN now s =
     (case fresh of
        None \<Rightarrow> s
      | Some w \<Rightarrow>
          (let cp = w\<lparr>InitialData := [], RefreshLSN := currentLSN\<rparr>
           in s\<lparr>PrevWhitelist := AuthMap s, AuthMap := Some cp, lastRefresh := now\<rparr>))"

definition isRevokedErr :: "auth_err \<Rightarrow> bool" where
  "isRevokedErr e =
     (case e of ErrUnauthorized _ \<Rightarrow> True | ErrForbidden _ \<Rightarrow> True | ErrNotFound _ \<Rightarrow> True | _ \<Rightarrow> False)"

datatype attempt_result = attemptSwapped | attemptRevoked | attemptUnavailable | attemptFailed

text \<open>A refresh changes the grant and may drop the router's subscriber.\<close>

type_synonym 'f live = "auth_sub \<times> 'f subscriber"

definition applyFetched ::
  "auth_err + whitelist \<Rightarrow> lsn \<Rightarrow> int \<Rightarrow> 'f live \<Rightarrow> attempt_result \<times> 'f live" where
  "applyFetched res currentLSN now st =
     (case st of (s, sub) \<Rightarrow>
        (case res of
           Inr fresh \<Rightarrow>
             (if \<not> refreshMapAllowed (Some fresh) s then (attemptRevoked, s, Drop ''auth_revoked'' sub)
              else (attemptSwapped, swapMap (Some fresh) currentLSN now s, sub))
         | Inl e \<Rightarrow>
             (if isRevokedErr e then (attemptRevoked, s, Drop ''auth_revoked'' sub)
              else (case e of ErrUnavailable _ \<Rightarrow> (attemptUnavailable, s, sub)
                    | _ \<Rightarrow> (attemptFailed, s, sub)))))"

text \<open>
  One attempt meets: the answer of \<open>OpenSession\<close>, the context after it, the log position and
  the clock at the swap, and what ended the wait for the next attempt.
\<close>

datatype wait_ev = WaitOver | WaitCtxDone | WaitSubDone

record attempt =
  at_result :: "auth_err + whitelist"
  at_ctx_done :: bool
  at_lsn :: lsn
  at_now :: int
  at_wait :: wait_ev

text \<open>\<open>None\<close>: the call has not returned yet.\<close>

fun tryRefresh :: "nat \<Rightarrow> attempt list \<Rightarrow> 'f live \<Rightarrow> bool option \<times> 'f live" where
  "tryRefresh n [] st = (None, st)"
| "tryRefresh n (a # as) (s, sub) =
     (if at_ctx_done a then (Some False, s, sub)
      else (case applyFetched (at_result a) (at_lsn a) (at_now a) (s, sub) of
              (attemptSwapped, st') \<Rightarrow> (Some True, st')
            | (attemptRevoked, st') \<Rightarrow> (Some True, st')
            | (attemptFailed, s', sub') \<Rightarrow> (Some True, s', Drop ''auth_unavailable'' sub')
            | (attemptUnavailable, s', sub') \<Rightarrow>
                (if n = length (as_backoffs s') then (Some True, s', Drop ''auth_unavailable'' sub')
                 else (case at_wait a of
                         WaitCtxDone \<Rightarrow> (Some False, s', sub')
                       | WaitSubDone \<Rightarrow> (Some False, s', sub')
                       | WaitOver \<Rightarrow> tryRefresh (n + 1) as (s', sub')))))"

text \<open>\<open>rnd\<close> is the generator's number below its argument.\<close>

definition initialJitter :: "(int \<Rightarrow> int) \<Rightarrow> int \<Rightarrow> int" where
  "initialJitter rnd ttl =
     (if ttl \<le> 0 then 0
      else (let half = ttl div 2 in if half \<le> 0 then 0 else rnd half))"

datatype loop_ev = LoopCtxDone | LoopSubDone | LoopTick "attempt list"

fun refresh_ticks :: "loop_ev list \<Rightarrow> 'f live \<Rightarrow> bool \<times> 'f live" where
  "refresh_ticks [] st = (False, st)"
| "refresh_ticks (LoopCtxDone # evs) st = (True, st)"
| "refresh_ticks (LoopSubDone # evs) st = (True, st)"
| "refresh_ticks (LoopTick as # evs) st =
     (case tryRefresh 0 as st of
        (None, st') \<Rightarrow> (False, st')
      | (Some _, st') \<Rightarrow> refresh_ticks evs st')"

definition RefreshLoop ::
  "(int \<Rightarrow> int) \<Rightarrow> wait_ev \<Rightarrow> loop_ev list \<Rightarrow> 'f live \<Rightarrow> bool \<times> 'f live" where
  "RefreshLoop rnd jitterWait evs st =
     (if 0 < initialJitter rnd (as_ttl (fst st)) \<and> jitterWait \<noteq> WaitOver then (True, st)
      else if as_ttl (fst st) \<le> 0 then (True, st)
      else refresh_ticks evs st)"

lemmas [auth_defs] =
  refreshMapAllowed_def swapMap_def isRevokedErr_def applyFetched_def FilterWithLSN_def

subsection \<open>The filter of a live stream\<close>

text \<open>The grant in force for a transaction.\<close>

definition grant_at :: "auth_sub \<Rightarrow> lsn \<Rightarrow> whitelist option" where
  "grant_at s p =
     (case AuthMap s of
        None \<Rightarrow> None | Some m \<Rightarrow> if p \<le> RefreshLSN m then PrevWhitelist s else Some m)"

lemma FilterWithLSN_grant:
  "snd (FilterWithLSN s c p) = snd (Filter (grant_at s p) c)"
  "\<not> snd (FilterWithLSN s c p) \<Longrightarrow> FilterWithLSN s c p = Filter (grant_at s p) c"
  by (auto simp: FilterWithLSN_def grant_at_def Filter_def split: option.splits)

interpretation grant: row_filter "FilterWithLSN s" "\<lambda>p table. {k. Allowed (grant_at s p) table k}"
  for s :: auth_sub
proof unfold_locales
  fix c :: "'a change" and p
  assume kept: "\<not> snd (FilterWithLSN s c p)"
  then have "\<not> snd (Filter (grant_at s p) c)" by (simp add: FilterWithLSN_grant(1))
  from Filter_columns_facts [OF this] FilterWithLSN_grant(2) [OF kept]
  show "Schema (fst (FilterWithLSN s c p)) = Schema c \<and> Table (fst (FilterWithLSN s c p)) = Table c
      \<and> Op (fst (FilterWithLSN s c p)) = Op c \<and> PK (fst (FilterWithLSN s c p)) = PK c
      \<and> PKCol (fst (FilterWithLSN s c p)) = PKCol c"
    "columns (fst (FilterWithLSN s c p)) \<subseteq> insert (PKCol c) {k. Allowed (grant_at s p) (Table c) k}"
    by auto
qed


text \<open>
  C18: a refreshed grant holds from the position of the refresh on: later transactions are cut
  by the new grant, the ones up to it by the grant that was in force before. Only one earlier
  grant is kept: after a second refresh every transaction up to its position, also one older than
  the first refresh, is cut by the grant of the first.
\<close>

theorem swap_cuts_at_position:
  assumes "AuthMap s = Some old"
  shows "FilterWithLSN (swapMap (Some w) q t s) c p =
      (if p \<le> q then Filter (Some old) c
       else Filter (Some (w\<lparr>InitialData := [], RefreshLSN := q\<rparr>)) c) \<and>
    FilterWithLSN (swapMap (Some w') q' t' (swapMap (Some w) q t s)) c p =
      (if p \<le> q' then Filter (Some (w\<lparr>InitialData := [], RefreshLSN := q\<rparr>)) c
       else Filter (Some (w'\<lparr>InitialData := [], RefreshLSN := q'\<rparr>)) c)"
  using assms by (auto simp: FilterWithLSN_def swapMap_def Let_def)

subsection \<open>Refreshing fails closed\<close>

text \<open>A grant a refresh may install: the same user's, naming the table of the channel.\<close>

lemma refreshMapAllowed_iff:
  "refreshMapAllowed (Some w) s \<longleftrightarrow>
     tableFromChannel (as_channel s) \<noteq> [] \<and> UserID w = as_userID s
     \<and> (\<exists>cols. gm_get (wl_Tables w) (tableFromChannel (as_channel s)) = Some cols)"
  by (auto simp: refreshMapAllowed_def Let_def)

lemma tableFromChannel_plain:
  assumes "CHR '':'' \<notin> set t" and "CHR ''.'' \<notin> set t"
  shows "tableFromChannel (t @ '':'' @ p) = t"
  using assms by (simp add: tableFromChannel_def str_cut_append str_cut_notin)

definition same_identity :: "auth_sub \<Rightarrow> auth_sub \<Rightarrow> bool" where
  "same_identity s s' \<longleftrightarrow> as_userID s' = as_userID s \<and> as_channel s' = as_channel s
     \<and> as_ttl s' = as_ttl s \<and> as_backoffs s' = as_backoffs s"

lemma same_identity_simps [simp]: "same_identity s s"
  "same_identity s (swapMap w p now s)"
  by (auto simp: same_identity_def swapMap_def Let_def split: option.splits)

text \<open>One answer of the backend.\<close>

lemma applyFetched_cases:
  assumes "applyFetched res p now (s, sub) = (r, s', sub')"
  obtains (swapped) w where "r = attemptSwapped" "res = Inr w" "refreshMapAllowed (Some w) s"
      "s' = swapMap (Some w) p now s" "sub' = sub"
  | (revoked) "r = attemptRevoked" "s' = s" "sub' = Drop ''auth_revoked'' sub"
      "\<exists>w. res = Inr w \<and> \<not> refreshMapAllowed (Some w) s \<or> (\<exists>e. res = Inl e \<and> isRevokedErr e)"
  | (unavailable) cause where "r = attemptUnavailable" "res = Inl (ErrUnavailable cause)" "s' = s" "sub' = sub"
  | (other) "r = attemptFailed" "s' = s" "sub' = sub"
proof (cases res)
  case (Inl e)
  show ?thesis
  proof (cases "isRevokedErr e")
    case True
    with assms Inl have "r = attemptRevoked" "s' = s" "sub' = Drop ''auth_revoked'' sub"
      by (simp_all add: applyFetched_def)
    then show ?thesis using Inl True by (intro that(2)) auto
  next
    case False
    show ?thesis
    proof (cases "\<exists>cause. e = ErrUnavailable cause")
      case True
      then obtain cause where "e = ErrUnavailable cause" by blast
      with assms Inl False show ?thesis by (intro that(3) [of cause]) (simp_all add: applyFetched_def)
    next
      case other: False
      with assms Inl False show ?thesis
        by (intro that(4); cases e; simp add: applyFetched_def isRevokedErr_def)
    qed
  qed
next
  case (Inr w)
  show ?thesis
  proof (cases "refreshMapAllowed (Some w) s")
    case True
    with assms Inr show ?thesis by (intro that(1) [of w]) (simp_all add: applyFetched_def)
  next
    case False
    with assms Inr show ?thesis by (intro that(2)) (auto simp: applyFetched_def)
  qed
qed

definition fetched :: "auth_sub \<Rightarrow> attempt list \<Rightarrow> auth_sub \<Rightarrow> bool" where
  "fetched s as s' \<longleftrightarrow>
     (\<exists>a w. a \<in> set as \<and> at_result a = Inr w \<and> UserID w = as_userID s
       \<and> gm_get (wl_Tables w) (tableFromChannel (as_channel s)) \<noteq> None
       \<and> AuthMap s' = Some (w\<lparr>InitialData := [], RefreshLSN := at_lsn a\<rparr>)
       \<and> PrevWhitelist s' = AuthMap s)"

lemma Drop_reason: "sub_reason (Drop r sub) \<noteq> None"
  by (simp add: Drop_def)

lemma tryRefresh_closed:
  "tryRefresh n as (s, sub) = (Some True, s', sub') \<Longrightarrow>
   (sub_reason sub' \<noteq> None \<and> s' = s) \<or> (fetched s as s' \<and> sub' = sub)"
proof (induction as arbitrary: n)
  case (Cons a as)
  obtain r s1 sub1 where ap: "applyFetched (at_result a) (at_lsn a) (at_now a) (s, sub) = (r, s1, sub1)"
    by (metis prod_cases3)
  have ctx: "\<not> at_ctx_done a" using Cons.prems by (auto split: if_splits)
  from ap show ?case
  proof (cases rule: applyFetched_cases)
    case (swapped w)
    with ap ctx Cons.prems have "fetched s (a # as) s'" "sub' = sub"
      by (auto simp: fetched_def refreshMapAllowed_iff swapMap_def Let_def)
    then show ?thesis by simp
  next
    case revoked
    with ap ctx Cons.prems have "s' = s" "sub' = Drop ''auth_revoked'' sub" by simp_all
    then show ?thesis by (simp add: Drop_reason del: not_None_eq)
  next
    case (unavailable cause)
    show ?thesis
    proof (cases "n = length (as_backoffs s)")
      case True
      with unavailable ap ctx Cons.prems have "s' = s" "sub' = Drop ''auth_unavailable'' sub" by simp_all
      then show ?thesis by (simp add: Drop_reason del: not_None_eq)
    next
      case False
      with unavailable ap ctx Cons.prems have "tryRefresh (n + 1) as (s, sub) = (Some True, s', sub')"
        by (auto split: wait_ev.splits)
      from Cons.IH [OF this] show ?thesis by (auto simp: fetched_def)
    qed
  next
    case other
    with ap ctx Cons.prems have "s' = s" "sub' = Drop ''auth_unavailable'' sub" by simp_all
    then show ?thesis by (simp add: Drop_reason del: not_None_eq)
  qed
qed simp


lemma tryRefresh_identity:
  "tryRefresh n as (s, sub) = (r, s', sub') \<Longrightarrow> same_identity s s'"
proof (induction as arbitrary: n)
  case (Cons a as)
  obtain r s1 sub1 where ap: "applyFetched (at_result a) (at_lsn a) (at_now a) (s, sub) = (r, s1, sub1)"
    by (metis prod_cases3)
  from ap show ?case
    by (cases rule: applyFetched_cases)
       (use ap Cons in \<open>auto split: if_splits wait_ev.splits\<close>)
qed simp


lemma tryRefresh_returns:
  "n \<le> length (as_backoffs s) \<Longrightarrow> length (as_backoffs s) - n < length as \<Longrightarrow>
   fst (tryRefresh n as (s, sub)) \<noteq> None"
proof (induction as arbitrary: n)
  case (Cons a as)
  obtain r s1 sub1 where ap: "applyFetched (at_result a) (at_lsn a) (at_now a) (s, sub) = (r, s1, sub1)"
    by (metis prod_cases3)
  from ap show ?case
    by (cases rule: applyFetched_cases)
       (use ap Cons in \<open>auto split: if_splits wait_ev.splits\<close>)
qed simp

subsection \<open>Refreshing at all\<close>


end
