(* ===== verification/Limiter.thy ===== *)
theory Limiter
  imports Prelude
begin

text \<open>
  \<open>internal/limits\<close>: the two admission limits, a counting semaphore for the whole process and
  a counter per user. Both meet the contract \<open>admission\<close>; the per-user counter, which is raised
  before it is compared, also keeps its bound when its steps interleave on many goroutines.
\<close>

subsection \<open>Settings\<close>

record limits_config =
  GlobalConcurrent :: int
  PerUserConcurrentMax :: int

definition limits_Defaults :: limits_config where
  "limits_Defaults = \<lparr>GlobalConcurrent = 50000, PerUserConcurrentMax = 10\<rparr>"

datatype limits_cfg_err = BadGlobal | BadPerUser

definition limits_Validate :: "limits_config \<Rightarrow> limits_cfg_err list" where
  "limits_Validate c =
     (if GlobalConcurrent c \<le> 0 then [BadGlobal] else [])
     @ (if PerUserConcurrentMax c \<le> 0 then [BadPerUser] else [])"

subsection \<open>Operations\<close>

text \<open>The channel used as a semaphore is its length; the counters are in a \<open>sync.Map\<close>.\<close>

record limits =
  lim_cfg :: limits_config
  globalSem :: nat
  perUserConcurrent :: "string \<rightharpoonup> int"

definition New_limits :: "limits_config \<Rightarrow> limits" where
  "New_limits cfg = \<lparr>lim_cfg = cfg, globalSem = 0, perUserConcurrent = Map.empty\<rparr>"

definition AcquireGlobal :: "limits \<Rightarrow> bool \<times> limits" where
  "AcquireGlobal l =
     (if int (globalSem l) < GlobalConcurrent (lim_cfg l) then (True, l\<lparr>globalSem := globalSem l + 1\<rparr>)
      else (False, l))"

definition ReleaseGlobal :: "limits \<Rightarrow> limits" where
  "ReleaseGlobal l = (if 0 < globalSem l then l\<lparr>globalSem := globalSem l - 1\<rparr> else l)"

definition load_or_store :: "string \<Rightarrow> limits \<Rightarrow> int \<times> limits" where
  "load_or_store u l =
     (case perUserConcurrent l u of
        None \<Rightarrow> (0, l\<lparr>perUserConcurrent := (perUserConcurrent l)(u \<mapsto> 0)\<rparr>)
      | Some n \<Rightarrow> (n, l))"

definition AcquirePerUser :: "string \<Rightarrow> limits \<Rightarrow> (bool \<times> int) \<times> limits" where
  "AcquirePerUser u l =
     (let (old, l1) = load_or_store u l;
          n = old + 1;
          l2 = l1\<lparr>perUserConcurrent := (perUserConcurrent l1)(u \<mapsto> n)\<rparr>
      in if PerUserConcurrentMax (lim_cfg l) < n
         then ((False, n - 1), l2\<lparr>perUserConcurrent := (perUserConcurrent l2)(u \<mapsto> n - 1)\<rparr>)
         else ((True, n), l2))"

definition ReleasePerUser :: "string \<Rightarrow> limits \<Rightarrow> limits" where
  "ReleasePerUser u l =
     (case perUserConcurrent l u of
        None \<Rightarrow> l
      | Some n \<Rightarrow> l\<lparr>perUserConcurrent := (perUserConcurrent l)(u \<mapsto> n - 1)\<rparr>)"

definition user_count :: "limits \<Rightarrow> string \<Rightarrow> int" where
  "user_count l u = (case perUserConcurrent l u of None \<Rightarrow> 0 | Some n \<Rightarrow> n)"

subsection \<open>The contract of a limit\<close>

text \<open>
  Admission up to a bound: an acquisition succeeds exactly while there is room and then takes
  one place, a refused one takes none, and a release gives one place back. Other limits kept in
  the same state (\<open>others\<close>) are not touched.
\<close>

locale admission =
  fixes acquire :: "'s \<Rightarrow> bool \<times> 's"
    and release :: "'s \<Rightarrow> 's"
    and used :: "'s \<Rightarrow> int"
    and bound :: "'s \<Rightarrow> int"
    and others :: "'s \<Rightarrow> 'o"
  assumes acquire_iff: "fst (acquire s) \<longleftrightarrow> used s < bound s"
    and acquire_used: "used (snd (acquire s)) = used s + (if fst (acquire s) then 1 else 0)"
    and release_used: "0 < used s \<Longrightarrow> used (release s) = used s - 1"
    and keeps_bound: "bound (snd (acquire s)) = bound s" "bound (release s) = bound s"
    and keeps_others: "others (snd (acquire s)) = others s" "others (release s) = others s"
begin

lemma acquire_within: "used s \<le> bound s \<Longrightarrow> used (snd (acquire s)) \<le> bound (snd (acquire s))"
  by (simp add: acquire_used acquire_iff keeps_bound)

lemma balanced:
  assumes "0 \<le> used s" and "acquire s = (True, s')"
  shows "used (release s') = used s" and "bound (release s') = bound s" and "others (release s') = others s"
proof -
  have s': "s' = snd (acquire s)" and ok: "fst (acquire s)" using assms(2) by simp_all
  have "used s' = used s + 1" using acquire_used [of s] ok by (simp add: s')
  with assms(1) show "used (release s') = used s" by (simp add: release_used)
  show "bound (release s') = bound s" by (simp add: s' keeps_bound)
  show "others (release s') = others s" by (simp add: s' keeps_others)
qed

lemma refused: "acquire s = (False, s') \<Longrightarrow> used s' = used s \<and> bound s \<le> used s"
  using acquire_used [of s] acquire_iff [of s] by simp

end

lemma user_count_simps [simp]:
  "user_count (l\<lparr>globalSem := n\<rparr>) u = user_count l u"
  "user_count (l\<lparr>perUserConcurrent := m\<rparr>) u = (case m u of None \<Rightarrow> 0 | Some n \<Rightarrow> n)"
  by (simp_all add: user_count_def)

interpretation global: admission AcquireGlobal ReleaseGlobal "\<lambda>l. int (globalSem l)"
  "\<lambda>l. GlobalConcurrent (lim_cfg l)" "\<lambda>l. user_count l"
  by unfold_locales (auto simp: AcquireGlobal_def ReleaseGlobal_def fun_eq_iff)

lemma AcquirePerUser_count:
  "fst (fst (AcquirePerUser u l)) \<longleftrightarrow> user_count l u < PerUserConcurrentMax (lim_cfg l)"
  "user_count (snd (AcquirePerUser u l)) v =
     user_count l v + (if v = u \<and> fst (fst (AcquirePerUser u l)) then 1 else 0)"
  "globalSem (snd (AcquirePerUser u l)) = globalSem l" "lim_cfg (snd (AcquirePerUser u l)) = lim_cfg l"
  by (auto simp: AcquirePerUser_def load_or_store_def Let_def user_count_def split: option.splits)

lemma ReleasePerUser_count:
  "0 < user_count l u \<Longrightarrow> user_count (ReleasePerUser u l) v = user_count l v - (if v = u then 1 else 0)"
  "v \<noteq> u \<Longrightarrow> user_count (ReleasePerUser u l) v = user_count l v"
  "globalSem (ReleasePerUser u l) = globalSem l" "lim_cfg (ReleasePerUser u l) = lim_cfg l"
  by (auto simp: ReleasePerUser_def user_count_def split: option.splits)

interpretation per_user: admission "\<lambda>l. (fst (fst (AcquirePerUser u l)), snd (AcquirePerUser u l))"
  "ReleasePerUser u" "\<lambda>l. user_count l u" "\<lambda>l. PerUserConcurrentMax (lim_cfg l)"
  "\<lambda>l. (globalSem l, \<lambda>v. if v = u then 0 else user_count l v)" for u
  by unfold_locales
     (auto simp: AcquirePerUser_count ReleasePerUser_count fun_eq_iff)

subsection \<open>The per-user counter under concurrency\<close>

text \<open>
  The steps of \<open>AcquirePerUser\<close> and \<open>ReleasePerUser\<close> of one user: every atomic operation on the
  counter is a step of its own. A goroutine that added 1 holds the result until it compares it.
\<close>

datatype lim_pc = Out | Added int | Inside

inductive lim_step :: "int \<Rightarrow> int \<times> (nat \<Rightarrow> lim_pc) \<Rightarrow> int \<times> (nat \<Rightarrow> lim_pc) \<Rightarrow> bool" for maxc where
  add: "p g = Out \<Longrightarrow> lim_step maxc (n, p) (n + 1, p(g := Added (n + 1)))"
| admit: "p g = Added k \<Longrightarrow> \<not> maxc < k \<Longrightarrow> lim_step maxc (n, p) (n, p(g := Inside))"
| reject: "p g = Added k \<Longrightarrow> maxc < k \<Longrightarrow> lim_step maxc (n, p) (n - 1, p(g := Out))"
| release: "p g = Inside \<Longrightarrow> lim_step maxc (n, p) (n - 1, p(g := Out))"

definition active :: "(nat \<Rightarrow> lim_pc) \<Rightarrow> nat set" where
  "active p = {g. p g \<noteq> Out}"

definition promised :: "int \<Rightarrow> (nat \<Rightarrow> lim_pc) \<Rightarrow> nat set" where
  "promised maxc p = {g. p g = Inside \<or> (\<exists>k. p g = Added k \<and> k \<le> maxc)}"

definition lim_inv :: "int \<Rightarrow> int \<times> (nat \<Rightarrow> lim_pc) \<Rightarrow> bool" where
  "lim_inv maxc c \<longleftrightarrow>
     finite (active (snd c)) \<and> fst c = int (card (active (snd c)))
     \<and> int (card (promised maxc (snd c))) \<le> maxc"

lemma promised_active: "promised maxc p \<subseteq> active p"
  by (auto simp: promised_def active_def)

lemma active_upd:
  "x \<noteq> Out \<Longrightarrow> active (p(g := x)) = insert g (active p)" "active (p(g := Out)) = active p - {g}"
  by (auto simp: active_def)

lemma lim_inv_step: "lim_step maxc c c' \<Longrightarrow> lim_inv maxc c \<Longrightarrow> lim_inv maxc c'"
proof (induction rule: lim_step.induct)
  case (add p g n)
  then have fin: "finite (active p)" and n: "n = int (card (active p))"
    and pr: "int (card (promised maxc p)) \<le> maxc" by (simp_all add: lim_inv_def)
  have g: "g \<notin> active p" using add by (simp add: active_def)
  have "promised maxc (p(g := Added (n + 1))) =
      (if n + 1 \<le> maxc then insert g (promised maxc p) else promised maxc p)"
    using add.hyps by (auto simp: promised_def)
  moreover have "card (insert g (promised maxc p)) \<le> card (insert g (active p))"
    using fin promised_active [of maxc p] by (intro card_mono) auto
  ultimately show ?case
    using fin n pr g by (auto simp: lim_inv_def active_upd)
next
  case (admit p g k n)
  then have "promised maxc (p(g := Inside)) = promised maxc p" "active (p(g := Inside)) = active p"
    by (auto simp: promised_def active_def)
  with admit show ?case by (simp add: lim_inv_def)
next
  case (reject p g k n)
  have fin: "finite (active p)" and g: "g \<in> active p"
    using reject by (auto simp: lim_inv_def active_def)
  have "promised maxc (p(g := Out)) = promised maxc p" using reject.hyps by (auto simp: promised_def)
  moreover have "int (card (active p - {g})) = int (card (active p)) - 1"
    using card_Suc_Diff1 [OF fin g] by linarith
  ultimately show ?case using reject fin by (simp add: lim_inv_def active_upd)
next
  case (release p g n)
  have fin: "finite (active p)" and g: "g \<in> active p"
    using release by (auto simp: lim_inv_def active_def)
  have "card (promised maxc (p(g := Out))) \<le> card (promised maxc p)"
    using finite_subset [OF promised_active fin] by (intro card_mono) (auto simp: promised_def split: if_splits)
  moreover have "int (card (active p - {g})) = int (card (active p)) - 1"
    using card_Suc_Diff1 [OF fin g] by linarith
  ultimately show ?case using release fin by (simp add: lim_inv_def active_upd)
qed

text \<open>
  C23: a user never has more streams than allowed, whatever the interleaving: however the atomic
  steps of concurrent acquisitions and releases mix, at most the maximum are inside at a time,
  although the counter itself is raised above the maximum by refused attempts.
\<close>

theorem per_user_never_exceeded:
  assumes "(lim_step maxc)\<^sup>*\<^sup>* (0, \<lambda>_. Out) (n, p)" and "0 \<le> maxc"
  shows "int (card {g. p g = Inside}) \<le> maxc \<and> ((\<forall>g. p g = Out) \<longrightarrow> n = 0)"
proof -
  have "lim_inv maxc (0, \<lambda>_. Out)"
    using assms(2) by (simp add: lim_inv_def active_def promised_def)
  with assms(1) have inv: "lim_inv maxc (n, p)"
    by (induction rule: rtranclp_induct) (auto intro: lim_inv_step)
  then have "card {g. p g = Inside} \<le> card (promised maxc p)"
    using finite_subset [OF promised_active] by (intro card_mono) (auto simp: lim_inv_def promised_def)
  with inv have "int (card {g. p g = Inside}) \<le> maxc" by (simp add: lim_inv_def)
  moreover from inv have "(\<forall>g. p g = Out) \<longrightarrow> n = 0" by (auto simp: lim_inv_def active_def)
  ultimately show ?thesis by blast
qed

end
