(* ===== verification/Go_Net.thy ===== *)
theory Go_Net
  imports Go_Strings
begin

text \<open>
  The parts of Go's packages \<open>net\<close>, \<open>strings\<close> and \<open>strconv\<close> the settings and the HTTP handlers
  use: splitting and joining \<open>host:port\<close>, lower case, 16-bit decimal numbers.
\<close>

subsection \<open>Host and port\<close>

definition first_index :: "char \<Rightarrow> string \<Rightarrow> nat option" where
  "first_index d s = (if d \<in> set s then Some (length (takeWhile (\<lambda>c. c \<noteq> d) s)) else None)"

definition last_index :: "char \<Rightarrow> string \<Rightarrow> nat option" where
  "last_index d s =
     (if d \<in> set s then Some (length s - 1 - length (takeWhile (\<lambda>c. c \<noteq> d) (rev s))) else None)"

text \<open>\<open>net.SplitHostPort\<close>; the last two checks of the library are \<open>bracket_check\<close>.\<close>

definition bracket_check :: "string \<Rightarrow> nat \<Rightarrow> nat \<Rightarrow> nat \<Rightarrow> string \<Rightarrow> (string \<times> string) option" where
  "bracket_check s i j k host =
     (if CHR ''['' \<in> set (drop j s) then None
      else if CHR '']'' \<in> set (drop k s) then None
      else Some (host, drop (i + 1) s))"

definition SplitHostPort :: "string \<Rightarrow> (string \<times> string) option" where
  "SplitHostPort s =
     (case last_index (CHR '':'') s of
        None \<Rightarrow> None
      | Some i \<Rightarrow>
          (if hd s = CHR ''['' then
             (case first_index (CHR '']'') s of
                None \<Rightarrow> None
              | Some e \<Rightarrow>
                  (if e + 1 = length s then None
                   else if e + 1 = i then bracket_check s i 1 (e + 1) (take (e - 1) (drop 1 s))
                   else None))
           else if CHR '':'' \<in> set (take i s) then None
           else bracket_check s i 0 0 (take i s)))"

text \<open>\<open>net.JoinHostPort\<close>.\<close>

definition JoinHostPort :: "string \<Rightarrow> string \<Rightarrow> string" where
  "JoinHostPort host port =
     (if CHR '':'' \<in> set host then ''['' @ host @ '']:'' @ port else host @ '':'' @ port)"

text \<open>What a split address can hold.\<close>

definition no_brackets :: "string \<Rightarrow> bool" where
  "no_brackets s \<longleftrightarrow> CHR ''['' \<notin> set s \<and> CHR '']'' \<notin> set s"

lemma last_index_append: "d \<notin> set t \<Longrightarrow> last_index d (s @ d # t) = Some (length s)"
  by (simp add: last_index_def takeWhile_append)

lemma last_index_Some:
  assumes "last_index d s = Some i"
  shows "s = take i s @ d # drop (i + 1) s \<and> d \<notin> set (drop (i + 1) s)"
proof -
  from assms have "d \<in> set s" by (auto simp: last_index_def split: if_splits)
  then obtain a b where s: "s = a @ d # b" "d \<notin> set b" by (meson split_list_last)
  with assms have "i = length a" by (simp add: last_index_append)
  with s show ?thesis by simp
qed

lemma first_index_append: "d \<notin> set s \<Longrightarrow> first_index d (s @ d # t) = Some (length s)"
  by (auto simp: first_index_def takeWhile_append)

lemma first_index_Some:
  assumes "first_index d s = Some i"
  shows "s = take i s @ d # drop (i + 1) s \<and> d \<notin> set (take i s)"
proof -
  from assms have "d \<in> set s" by (auto simp: first_index_def split: if_splits)
  then obtain a b where s: "s = a @ d # b" "d \<notin> set a" by (meson split_list_first)
  with assms have "i = length a" by (simp add: first_index_append)
  with s show ?thesis by simp
qed

lemma bracket_check_Some:
  "bracket_check s i j k host = Some (h, p) \<Longrightarrow>
   h = host \<and> p = drop (i + 1) s \<and> CHR ''['' \<notin> set (drop j s) \<and> CHR '']'' \<notin> set (drop k s)"
  by (auto simp: bracket_check_def split: if_splits)

lemma SplitHostPort_Some:
  assumes "SplitHostPort s = Some (h, p)"
  shows "no_brackets h \<and> no_brackets p \<and> CHR '':'' \<notin> set p"
proof -
  obtain i where i: "last_index (CHR '':'') s = Some i"
    using assms by (auto simp: SplitHostPort_def split: option.splits)
  note li = last_index_Some [OF i]
  show ?thesis
  proof (cases "hd s = CHR ''[''")
    case True
    obtain e where e: "first_index (CHR '']'') s = Some e" "e + 1 = i"
        "bracket_check s i 1 (e + 1) (take (e - 1) (drop 1 s)) = Some (h, p)"
      using assms True i by (auto simp: SplitHostPort_def split: option.splits if_splits)
    note b = bracket_check_Some [OF e(3)] and f = first_index_Some [OF e(1)]
    have "set h \<subseteq> set (drop 1 s)" using b set_take_subset by metis
    moreover have "h = drop 1 (take e s)"
      using b by (cases e) (simp_all add: drop_take)
    then have "set h \<subseteq> set (take e s)" using set_drop_subset by metis
    moreover have "set p \<subseteq> set (drop 1 s)" "set p \<subseteq> set (drop (e + 1) s)"
      using b e(2) set_drop_subset_set_drop [of 1 "i + 1" s] set_drop_subset_set_drop [of "e + 1" "i + 1" s]
      by auto
    ultimately show ?thesis
      using b f li by (auto simp: no_brackets_def)
  next
    case False
    then have "bracket_check s i 0 0 (take i s) = Some (h, p)"
      using assms i by (auto simp: SplitHostPort_def split: if_splits)
    from bracket_check_Some [OF this] li show ?thesis
      by (auto simp: no_brackets_def dest: in_set_takeD in_set_dropD)
  qed
qed

text \<open>Joining and splitting again.\<close>

lemma Split_Join:
  assumes "no_brackets h" and "no_brackets p" and "CHR '':'' \<notin> set p"
  shows "SplitHostPort (JoinHostPort h p) = Some (h, p)"
proof (cases "CHR '':'' \<in> set h")
  case False
  have li: "last_index (CHR '':'') (h @ CHR '':'' # p) = Some (length h)"
    by (rule last_index_append) (rule assms(3))
  moreover have "hd (h @ CHR '':'' # p) \<noteq> CHR ''[''"
    using assms(1) by (cases h) (auto simp: no_brackets_def)
  ultimately show ?thesis
    using False assms by (simp add: SplitHostPort_def JoinHostPort_def bracket_check_def no_brackets_def)
next
  case True
  let ?a = "CHR ''['' # h @ [CHR '']'']"
  have s: "JoinHostPort h p = ?a @ CHR '':'' # p"
    using True by (simp add: JoinHostPort_def)
  have li: "last_index (CHR '':'') (?a @ CHR '':'' # p) = Some (length ?a)"
    by (rule last_index_append) (rule assms(3))
  have "first_index (CHR '']'') ((CHR ''['' # h) @ CHR '']'' # CHR '':'' # p) = Some (length (CHR ''['' # h))"
    using assms(1) by (intro first_index_append) (simp add: no_brackets_def)
  with li show ?thesis
    using assms by (simp add: s SplitHostPort_def bracket_check_def no_brackets_def)
qed

subsection \<open>Lower case\<close>

text \<open>
  \<open>strings.ToLower\<close> on ASCII, together with the two runes outside ASCII whose lower case is in
  it: U+0130 gives \<open>i\<close> and U+212A, the Kelvin sign, gives \<open>k\<close>. Any other rune outside ASCII is
  kept, which the callers cannot tell from its lower case: they compare with ASCII text or
  require it.
\<close>

fun to_lower :: "string \<Rightarrow> string" where
  "to_lower [] = []"
| "to_lower (c # cs) =
     (if prefix [CHR 0xC4, CHR 0xB0] (c # cs) then CHR ''i'' # to_lower (drop 1 cs)
      else if prefix [CHR 0xE2, CHR 0x84, CHR 0xAA] (c # cs) then CHR ''k'' # to_lower (drop 2 cs)
      else to_lower_char c # to_lower cs)"

declare to_lower.simps(2) [simp del]

lemma to_lower_ascii:
  "list_all (\<lambda>c. byte c < 128) s \<Longrightarrow> to_lower s = map to_lower_char s"
  by (induction s) (auto simp: to_lower.simps)

lemma to_lower_no_upper: "list_all (\<lambda>c. \<not> is_upper c) (to_lower s)"
proof (induction s rule: to_lower.induct)
  case (2 c cs)
  have "\<not> is_upper (to_lower_char c)"
    by (simp add: to_lower_char_def is_upper_def)
  with 2 show ?case
    by (simp add: to_lower.simps) (simp add: is_upper_def)
qed simp

subsection \<open>Ports\<close>

text \<open>\<open>strconv.ParseUint(s, 10, 16)\<close>.\<close>

definition parse_uint16 :: "string \<Rightarrow> nat option" where
  "parse_uint16 s =
     (if s = [] then None
      else (case digits_val 0 s of
              None \<Rightarrow> None
            | Some n \<Rightarrow> (if n < 2 ^ 16 then Some n else None)))"

end
