(* ===== verification/Sse_Handshake.thy ===== *)
theory Sse_Handshake
  imports Auth_Refresh Limiter Go_Net
begin

text \<open>
  \<open>internal/sse/handler.go\<close>, \<open>auth.go\<close> and \<open>cors.go\<close>: from the HTTP request to an admitted
  stream or an error response. The request is a record of what the handler reads, the response
  of what it writes; the URL parser, the backend and random identifiers are parameters.
\<close>

subsection \<open>Requests and responses\<close>

record http_request =
  r_Method :: string
  r_table :: string \<comment> \<open>\<open>PathValue("table")\<close>\<close>
  r_pk :: string
  r_since_lsn :: string
  r_Header :: http_header
  r_cookies :: "cookie list" \<comment> \<open>the \<open>Cookie\<close> header, parsed\<close>
  r_RemoteAddr :: string

record response =
  w_Status :: "int option"
  w_Header :: http_header
  w_Body :: string

definition fresh_response :: response where
  "fresh_response = \<lparr>w_Status = None, w_Header = [], w_Body = []\<rparr>"

definition header_Get :: "string \<Rightarrow> http_header \<Rightarrow> string" where
  "header_Get name h = (case header_Values name h of [] \<Rightarrow> [] | v # _ \<Rightarrow> v)"

definition header_Del :: "string \<Rightarrow> http_header \<Rightarrow> http_header" where
  "header_Del name h = gm_del (CanonicalMIMEHeaderKey name) h"

definition set_header :: "string \<Rightarrow> string \<Rightarrow> response \<Rightarrow> response" where
  "set_header name v w = w\<lparr>w_Header := header_Set name v (w_Header w)\<rparr>"

definition add_header :: "string \<Rightarrow> string \<Rightarrow> response \<Rightarrow> response" where
  "add_header name v w = w\<lparr>w_Header := header_Add name v (w_Header w)\<rparr>"

text \<open>The first status written is the one sent.\<close>

definition WriteHeader :: "int \<Rightarrow> response \<Rightarrow> response" where
  "WriteHeader status w = (if w_Status w = None then w\<lparr>w_Status := Some status\<rparr> else w)"

definition write_body :: "string \<Rightarrow> response \<Rightarrow> response" where
  "write_body s w = (WriteHeader 200 w)\<lparr>w_Body := w_Body w @ s\<rparr>"

subsection \<open>CORS\<close>

text \<open>\<open>urlParse\<close> gives the scheme and the host of a URL.\<close>

definition canonicalOrigin :: "(string \<Rightarrow> (string \<times> string) option) \<Rightarrow> string \<Rightarrow> string option" where
  "canonicalOrigin urlParse s =
     (case urlParse s of
        None \<Rightarrow> None
      | Some (scheme, host) \<Rightarrow>
          (if scheme = [] \<or> host = [] then None
           else Some (to_lower scheme @ ''://'' @ to_lower host)))"

definition handleCORS ::
  "(string \<Rightarrow> (string \<times> string) option) \<Rightarrow> string list \<Rightarrow> http_request \<Rightarrow> response
   \<Rightarrow> (bool \<times> string) \<times> response"
where
  "handleCORS urlParse allowedOrigins r w0 =
     (let w = add_header ''Vary'' ''Origin'' w0;
          origin = header_Get ''Origin'' (r_Header r)
      in if origin = [] then ((False, []), w)
         else (case canonicalOrigin urlParse origin of
                 None \<Rightarrow> ((False, origin), w)
               | Some canon \<Rightarrow>
                   (if canon \<in> set allowedOrigins then
                      ((True, origin),
                       set_header ''Timing-Allow-Origin'' origin
                         (set_header ''Access-Control-Allow-Credentials'' ''true''
                            (set_header ''Access-Control-Allow-Origin'' origin w)))
                    else ((False, origin), w))))"

definition writeNoSniff :: "response \<Rightarrow> response" where
  "writeNoSniff w = set_header ''X-Content-Type-Options'' ''nosniff'' w"

definition handlePreflight ::
  "(string \<Rightarrow> (string \<times> string) option) \<Rightarrow> string list \<Rightarrow> string \<Rightarrow> string \<Rightarrow> http_request
   \<Rightarrow> response \<Rightarrow> bool \<times> response"
where
  "handlePreflight urlParse allowedOrigins methods allowHeaders r w =
     (if r_Method r \<noteq> ''OPTIONS'' then (False, w)
      else
        (let w1 = snd (handleCORS urlParse allowedOrigins r w);
             w2 = writeNoSniff w1;
             w3 = set_header ''Access-Control-Allow-Methods'' methods w2;
             w4 = set_header ''Access-Control-Allow-Headers'' allowHeaders w3;
             w5 = set_header ''Access-Control-Max-Age'' ''86400'' w4
         in (True, WriteHeader 204 w5)))"

definition buildAllowHeaders :: "string list \<Rightarrow> string" where
  "buildAllowHeaders forwarded =
     str_join ([''Authorization'', ''X-Request-ID'', ''Content-Type'']
       @ map CanonicalMIMEHeaderKey forwarded) '', ''"

subsection \<open>The handler\<close>

text \<open>The outside world of a request.\<close>

record sse_world =
  wd_urlParse :: "string \<Rightarrow> (string \<times> string) option"
  wd_ParseLSN :: "string \<Rightarrow> lsn option"
  wd_unmarshal :: "string \<Rightarrow> wire_map option"
  wd_request_ok :: "string \<Rightarrow> bool"
  wd_transport :: "session_request \<Rightarrow> http_result"
  wd_newRequestID :: string
  wd_substituteID :: string
  wd_CurrentLSN :: lsn

record handler =
  h_cors :: "string list"
  h_authClient :: auth_client
  h_limits :: limits
  h_corsAllowHeaders :: string

definition table_start :: "char \<Rightarrow> bool" where
  "table_start c \<longleftrightarrow> is_lower c \<or> c = CHR ''_''"

definition table_char :: "char \<Rightarrow> bool" where
  "table_char c \<longleftrightarrow> table_start c \<or> is_digit c"

text \<open>\<open>tableNameRe\<close> under the length guard.\<close>

definition validTableName :: "string \<Rightarrow> bool" where
  "validTableName s \<longleftrightarrow>
     (if s = [] \<or> 64 < length s then False
      else (case s of [] \<Rightarrow> False | c # cs \<Rightarrow> table_start c \<and> list_all table_char cs))"

definition validRequestID :: "string \<Rightarrow> bool" where
  "validRequestID s \<longleftrightarrow> (if s = [] \<or> 128 < length s then False else list_all request_id_char s)"

definition clientIP :: "sse_world \<Rightarrow> http_request \<Rightarrow> string" where
  "clientIP W r =
     (case SplitHostPort (r_RemoteAddr r) of None \<Rightarrow> r_RemoteAddr r | Some (host, port) \<Rightarrow> host)"

definition servePreflight :: "sse_world \<Rightarrow> handler \<Rightarrow> http_request \<Rightarrow> response \<Rightarrow> response" where
  "servePreflight W h r w =
     (case handlePreflight (wd_urlParse W) (h_cors h) ''GET, OPTIONS'' (h_corsAllowHeaders h) r w of
        (done, w') \<Rightarrow> if \<not> done then WriteHeader 405 w' else w')"

definition json_object1 :: "string \<Rightarrow> string \<Rightarrow> string" where
  "json_object1 name v = CHR ''{'' # json_quote name @ '':'' @ json_quote v @ ''}'' @ [CHR 0x0A]"

definition writeJSONError :: "sse_world \<Rightarrow> handler \<Rightarrow> http_request \<Rightarrow> int \<Rightarrow> string \<Rightarrow> response \<Rightarrow> response" where
  "writeJSONError W h r status code w =
     write_body (json_object1 ''error'' code)
       (WriteHeader status (set_header ''Content-Type'' ''application/json''
          (writeNoSniff (snd (handleCORS (wd_urlParse W) (h_cors h) r w)))))"

definition writeJSONReason :: "sse_world \<Rightarrow> handler \<Rightarrow> http_request \<Rightarrow> int \<Rightarrow> string \<Rightarrow> response \<Rightarrow> response" where
  "writeJSONReason W h r status reason w =
     write_body (json_object1 ''reason'' reason)
       (WriteHeader status (set_header ''Content-Type'' ''application/json''
          (writeNoSniff (snd (handleCORS (wd_urlParse W) (h_cors h) r w)))))"

definition writeStatusOnlyError ::
  "sse_world \<Rightarrow> handler \<Rightarrow> http_request \<Rightarrow> int \<Rightarrow> int \<Rightarrow> response \<Rightarrow> response" where
  "writeStatusOnlyError W h r status retryAfterSeconds w =
     (let w1 = writeNoSniff (snd (handleCORS (wd_urlParse W) (h_cors h) r w));
          w2 = (if 0 < retryAfterSeconds then set_header ''Retry-After'' (itoa retryAfterSeconds) w1 else w1)
      in WriteHeader status w2)"

definition write_auth_body ::
  "sse_world \<Rightarrow> handler \<Rightarrow> http_request \<Rightarrow> int \<Rightarrow> string \<Rightarrow> response \<Rightarrow> response" where
  "write_auth_body W h r status body w =
     write_body body (WriteHeader status (set_header ''Content-Type'' ''application/json''
       (writeNoSniff (snd (handleCORS (wd_urlParse W) (h_cors h) r w)))))"

definition writeAuthError ::
  "sse_world \<Rightarrow> handler \<Rightarrow> http_request \<Rightarrow> auth_err \<Rightarrow> response \<Rightarrow> response" where
  "writeAuthError W h r err w =
     (case err of
        ErrUnauthorized body \<Rightarrow> write_auth_body W h r 401 body w
      | ErrForbidden body \<Rightarrow> write_auth_body W h r 403 body w
      | ErrNotFound body \<Rightarrow> write_auth_body W h r 404 body w
      | _ \<Rightarrow> writeStatusOnlyError W h r 503 5 w)"

subsection \<open>The handshake\<close>

record handshake_result =
  hs_authMap :: "whitelist option"
  hs_requestID :: string
  hs_bearer :: string
  hs_fwd :: forwarded_auth
  hs_clientIP :: string
  hs_userID :: string
  hs_globalAcquired :: bool
  hs_perUserAcquired :: bool

definition zero_handshake :: handshake_result where
  "zero_handshake =
     \<lparr>hs_authMap = None, hs_requestID = [], hs_bearer = [], hs_fwd = \<lparr>Cookies = [], Headers = []\<rparr>,
      hs_clientIP = [], hs_userID = [], hs_globalAcquired = False, hs_perUserAcquired = False\<rparr>"

text \<open>The deferred removal of the credentials from the request.\<close>

definition scrub :: "forwarded_auth \<Rightarrow> http_request \<Rightarrow> http_request" where
  "scrub fwd r =
     r\<lparr>r_cookies := [],
       r_Header := fold header_Del (map fst (Headers fwd))
         (header_Del ''Cookie'' (header_Del ''Authorization'' (r_Header r)))\<rparr>"

definition bearer_token :: "http_request \<Rightarrow> string" where
  "bearer_token r =
     (case cut_prefix (header_Get ''Authorization'' (r_Header r)) ''Bearer '' of
        None \<Rightarrow> [] | Some t \<Rightarrow> t)"

definition authenticate ::
  "sse_world \<Rightarrow> string \<Rightarrow> http_request \<Rightarrow> handler \<Rightarrow> handshake_result \<Rightarrow> response
   \<Rightarrow> (bool \<times> handshake_result) \<times> response \<times> http_request \<times> handler"
where
  "authenticate W channelStr r h res w =
     (let token = bearer_token r;
          fwd = ForwardedFromRequest (h_authClient h) (r_cookies r) (r_Header r);
          r' = scrub fwd r
      in if token = [] \<and> fwd_Empty fwd then
           ((False, res), writeStatusOnlyError W h r 401 0 w, r', h)
         else
           (let given = header_Get ''X-Request-ID'' (r_Header r);
                requestID = (if given = [] then wd_newRequestID W else given)
            in if given \<noteq> [] \<and> \<not> validRequestID given then
                 ((False, res), writeJSONError W h r 400 ''invalid_request_id'' w, r', h)
               else
                 (case OpenSession (wd_unmarshal W) (wd_request_ok W) (wd_transport W) (wd_substituteID W)
                         token fwd channelStr requestID (h_authClient h) of
                    (_, Inl err, c') \<Rightarrow>
                      ((False, res), writeAuthError W h r err w, r', h\<lparr>h_authClient := c'\<rparr>)
                  | (_, Inr m, c') \<Rightarrow>
                      ((True, res\<lparr>hs_authMap := Some m, hs_requestID := requestID, hs_bearer := token,
                                  hs_fwd := fwd\<rparr>),
                       w, r', h\<lparr>h_authClient := c'\<rparr>))))"

definition runHandshake ::
  "sse_world \<Rightarrow> string \<Rightarrow> string \<Rightarrow> http_request \<Rightarrow> handler \<Rightarrow> response
   \<Rightarrow> (handshake_result \<times> bool) \<times> response \<times> http_request \<times> handler"
where
  "runHandshake W tbl channelStr r h w =
     (case AcquireGlobal (h_limits h) of
        (False, l) \<Rightarrow>
          ((zero_handshake, False), writeStatusOnlyError W h r 503 5 w, r, h\<lparr>h_limits := l\<rparr>)
      | (True, l) \<Rightarrow>
          (let h1 = h\<lparr>h_limits := l\<rparr>;
               res1 = zero_handshake\<lparr>hs_globalAcquired := True, hs_clientIP := clientIP W r\<rparr>
           in case authenticate W channelStr r h1 res1 w of
                ((False, res2), w2, r2, h2) \<Rightarrow> ((res2, False), w2, r2, h2)
              | ((True, res2), w2, r2, h2) \<Rightarrow>
                  (case hs_authMap res2 of
                     None \<Rightarrow> ((res2, False), w2, r2, h2) \<comment> \<open>not reached: a granted map is set\<close>
                   | Some m \<Rightarrow>
                       (let res3 = res2\<lparr>hs_userID := UserID m\<rparr>
                        in case AcquirePerUser (UserID m) (h_limits h2) of
                             ((False, _), l3) \<Rightarrow>
                               ((res3, False), writeStatusOnlyError W h2 r2 429 0 w2, r2, h2\<lparr>h_limits := l3\<rparr>)
                           | ((True, _), l3) \<Rightarrow>
                               (let h3 = h2\<lparr>h_limits := l3\<rparr>;
                                    res4 = res3\<lparr>hs_perUserAcquired := True\<rparr>
                                in if gm_get (wl_Tables m) tbl = None then
                                     ((res4, False), writeJSONReason W h3 r2 403 ''not_allowed'' w2, r2, h3)
                                   else ((res4, True), w2, r2, h3))))))"

text \<open>The deferred releases of \<open>runHandshakeAndWriter\<close>.\<close>

definition release_all :: "handshake_result \<Rightarrow> limits \<Rightarrow> limits" where
  "release_all hs l =
     (let l1 = (if hs_globalAcquired hs then ReleaseGlobal l else l)
      in if hs_perUserAcquired hs then ReleasePerUser (hs_userID hs) l1 else l1)"

text \<open>
  What serving a request comes to: an error response with every limit released, or a stream to
  be run by the writer (\<open>runWriter\<close>), which ends with the same releases.
\<close>

datatype served =
    Refused response http_request handler
  | Stream kind string string string lsn handshake_result response http_request handler
    \<comment> \<open>kind, table, key, channel, start position\<close>

definition runHandshakeAndWriter ::
  "sse_world \<Rightarrow> string \<Rightarrow> string \<Rightarrow> string \<Rightarrow> kind \<Rightarrow> lsn \<Rightarrow> http_request \<Rightarrow> handler
   \<Rightarrow> response \<Rightarrow> served"
where
  "runHandshakeAndWriter W tbl pkey channelStr k startLSN r h w =
     (case runHandshake W tbl channelStr r h w of
        ((hs, ok), w', r', h') \<Rightarrow>
          (if \<not> ok then Refused w' r' (h'\<lparr>h_limits := release_all hs (h_limits h')\<rparr>)
           else Stream k tbl pkey channelStr startLSN hs w' r' h'))"

definition parseSinceLSN ::
  "sse_world \<Rightarrow> handler \<Rightarrow> http_request \<Rightarrow> response \<Rightarrow> (lsn \<times> bool) \<times> response" where
  "parseSinceLSN W h r w =
     (if r_since_lsn r = [] then ((wd_CurrentLSN W, True), w)
      else (case wd_ParseLSN W (r_since_lsn r) of
              None \<Rightarrow> ((0, False), writeJSONError W h r 400 ''invalid_since_lsn'' w)
            | Some p \<Rightarrow> ((p, True), w)))"

definition serveExact :: "sse_world \<Rightarrow> http_request \<Rightarrow> handler \<Rightarrow> response \<Rightarrow> served" where
  "serveExact W r h w =
     (let tbl = r_table r; pkey = r_pk r in
      if \<not> validTableName tbl then Refused (writeJSONError W h r 400 ''invalid_channel'' w) r h
      else if pkey = [] \<or> 256 < length pkey then
        Refused (writeJSONError W h r 400 ''invalid_channel'' w) r h
      else if pkey = ''all'' then Refused (writeJSONError W h r 400 ''invalid_channel'' w) r h
      else (case parseSinceLSN W h r w of
              ((startLSN, False), w') \<Rightarrow> Refused w' r h
            | ((startLSN, True), w') \<Rightarrow>
                runHandshakeAndWriter W tbl pkey (tbl @ '':'' @ pkey) KindExact startLSN r h w'))"

definition serveWildcard :: "sse_world \<Rightarrow> http_request \<Rightarrow> handler \<Rightarrow> response \<Rightarrow> served" where
  "serveWildcard W r h w =
     (let tbl = r_table r in
      if \<not> validTableName tbl then Refused (writeJSONError W h r 400 ''invalid_channel'' w) r h
      else (case parseSinceLSN W h r w of
              ((startLSN, False), w') \<Rightarrow> Refused w' r h
            | ((startLSN, True), w') \<Rightarrow>
                runHandshakeAndWriter W tbl [] (tbl @ '':all'') KindWildcard startLSN r h w'))"

text \<open>
  \<open>Routes\<close>: which handler a request under \<open>/sse/v1/{table}/\<close> gets. \<open>r_pk\<close> is the last segment of the
  path; of the two patterns that match \<open>all\<close> the multiplexer of \<open>net/http\<close> takes the more
  specific one, and a GET pattern also takes HEAD. Other methods never reach the package.
\<close>

datatype routed =
    Answered response
  | Served served
  | NotRouted

definition serveStream :: "sse_world \<Rightarrow> http_request \<Rightarrow> handler \<Rightarrow> response \<Rightarrow> served" where
  "serveStream W r h w =
     (if r_pk r = ''all'' then serveWildcard W r h w else serveExact W r h w)"

definition Routes :: "sse_world \<Rightarrow> http_request \<Rightarrow> handler \<Rightarrow> response \<Rightarrow> routed" where
  "Routes W r h w =
     (if r_Method r = ''GET'' \<or> r_Method r = ''HEAD'' then Served (serveStream W r h w)
      else if r_Method r = ''OPTIONS'' then Answered (servePreflight W h r w)
      else NotRouted)"

subsection \<open>What the writers send\<close>

lemma canonical_names [simp]:
  "CanonicalMIMEHeaderKey ''Vary'' = ''Vary''"
  "CanonicalMIMEHeaderKey ''Origin'' = ''Origin''"
  "CanonicalMIMEHeaderKey ''Cookie'' = ''Cookie''"
  "CanonicalMIMEHeaderKey ''Timing-Allow-Origin'' = ''Timing-Allow-Origin''"
  "CanonicalMIMEHeaderKey ''Access-Control-Allow-Origin'' = ''Access-Control-Allow-Origin''"
  "CanonicalMIMEHeaderKey ''Access-Control-Allow-Credentials'' = ''Access-Control-Allow-Credentials''"
  "CanonicalMIMEHeaderKey ''Access-Control-Allow-Methods'' = ''Access-Control-Allow-Methods''"
  "CanonicalMIMEHeaderKey ''Access-Control-Allow-Headers'' = ''Access-Control-Allow-Headers''"
  "CanonicalMIMEHeaderKey ''Access-Control-Max-Age'' = ''Access-Control-Max-Age''"
  "CanonicalMIMEHeaderKey ''X-Content-Type-Options'' = ''X-Content-Type-Options''"
  "CanonicalMIMEHeaderKey ''Retry-After'' = ''Retry-After''"
  by code_simp+

lemma get_set_header [simp]:
  "gm_get (w_Header (set_header n v w)) k =
     (if k = CanonicalMIMEHeaderKey n then Some [v] else gm_get (w_Header w) k)"
  "w_Status (set_header n v w) = w_Status w" "w_Body (set_header n v w) = w_Body w"
  by (simp_all add: set_header_def header_Set_def)

lemma get_add_header [simp]:
  "k \<noteq> CanonicalMIMEHeaderKey n \<Longrightarrow> gm_get (w_Header (add_header n v w)) k = gm_get (w_Header w) k"
  "w_Status (add_header n v w) = w_Status w" "w_Body (add_header n v w) = w_Body w"
  by (simp_all add: add_header_def header_Add_def Let_def)

lemma WriteHeader_sel [simp]:
  "w_Header (WriteHeader st w) = w_Header w" "w_Body (WriteHeader st w) = w_Body w"
  "w_Status (WriteHeader st w) = (if w_Status w = None then Some st else w_Status w)"
  "w_Header (write_body s w) = w_Header w" "w_Body (write_body s w) = w_Body w @ s"
  "w_Status (write_body s w) = (if w_Status w = None then Some 200 else w_Status w)"
  by (auto simp: WriteHeader_def write_body_def)

text \<open>A response that names an origin names the request's own, and only a listed one.\<close>

definition cors_ok :: "sse_world \<Rightarrow> string list \<Rightarrow> http_request \<Rightarrow> response \<Rightarrow> bool" where
  "cors_ok W origins r w \<longleftrightarrow>
     (\<forall>vs. gm_get (w_Header w) ''Access-Control-Allow-Origin'' = Some vs \<longrightarrow>
        vs = [header_Get ''Origin'' (r_Header r)] \<and>
        (\<exists>canon \<in> set origins.
           canonicalOrigin (wd_urlParse W) (header_Get ''Origin'' (r_Header r)) = Some canon))"

lemma cors_ok_handleCORS:
  "cors_ok W origins r w \<Longrightarrow> cors_ok W origins r (snd (handleCORS (wd_urlParse W) origins r w))"
  by (auto simp: handleCORS_def cors_ok_def Let_def split: option.splits)

lemma cors_ok_keep:
  "cors_ok W origins r w \<Longrightarrow> n \<in> {''X-Content-Type-Options'', ''Content-Type'', ''Retry-After'',
      ''Access-Control-Allow-Methods'', ''Access-Control-Allow-Headers'', ''Access-Control-Max-Age''} \<Longrightarrow>
   cors_ok W origins r (set_header n v w)"
  "cors_ok W origins r w \<Longrightarrow> cors_ok W origins r (WriteHeader st w)"
  "cors_ok W origins r w \<Longrightarrow> cors_ok W origins r (write_body s w)"
  by (auto simp: cors_ok_def)

lemma cors_ok_origin:
  "header_Get ''Origin'' (r_Header r') = header_Get ''Origin'' (r_Header r) \<Longrightarrow>
   cors_ok W origins r' w = cors_ok W origins r w"
  by (simp add: cors_ok_def)

lemma handleCORS_status [simp]:
  "w_Status (snd (handleCORS u origins r w)) = w_Status w" "w_Body (snd (handleCORS u origins r w)) = w_Body w"
  by (auto simp: handleCORS_def Let_def split: option.splits)

lemma writeNoSniff_status [simp]: "w_Status (writeNoSniff w) = w_Status w"
  by (simp add: writeNoSniff_def)

lemma writers_cors:
  assumes "cors_ok W (h_cors h) r w"
  shows "cors_ok W (h_cors h) r (writeStatusOnlyError W h r st n w)"
    and "cors_ok W (h_cors h) r (writeJSONError W h r st code w)"
    and "cors_ok W (h_cors h) r (writeJSONReason W h r st code w)"
    and "cors_ok W (h_cors h) r (writeAuthError W h r err w)"
  using cors_ok_handleCORS [OF assms]
  by (auto simp: writeStatusOnlyError_def writeJSONError_def writeJSONReason_def writeAuthError_def
      write_auth_body_def writeNoSniff_def Let_def intro!: cors_ok_keep split: auth_err.splits)

lemma writers_status:
  assumes "w_Status w = None"
  shows "w_Status (writeStatusOnlyError W h r st n w) = Some st"
    and "w_Status (writeJSONError W h r st code w) = Some st"
    and "w_Status (writeJSONReason W h r st code w) = Some st"
    and "w_Status (writeAuthError W h r err w) \<in> {Some 401, Some 403, Some 404, Some 503}"
  using assms
  by (auto simp: writeStatusOnlyError_def writeJSONError_def writeJSONReason_def writeAuthError_def
      write_auth_body_def Let_def split: auth_err.splits)

subsection \<open>What is left of the request\<close>

lemma fold_Del: "gm_get (fold header_Del ns h) k = (if k \<in> CanonicalMIMEHeaderKey ` set ns then None else gm_get h k)"
  by (induction ns arbitrary: h) (auto simp: header_Del_def)

lemma header_Add_keys: "fst ` set (header_Add n v h) = insert (CanonicalMIMEHeaderKey n) (fst ` set h)"
  by (simp add: header_Add_def Let_def dom_update)

lemma fold_Add_keys: "fst ` set (fold (header_Add n) vs h) \<subseteq> insert (CanonicalMIMEHeaderKey n) (fst ` set h)"
proof (induction vs arbitrary: h)
  case (Cons v vs)
  then show ?case using Cons.IH [of "header_Add n v h"] by (simp add: header_Add_keys)
qed auto

lemma fwd_keys:
  "k \<in> fst ` set (forward_headers names req out) \<Longrightarrow>
   k \<in> fst ` set out \<or> (\<exists>n \<in> set names. \<not> reserved n \<and> k = CanonicalMIMEHeaderKey n)"
proof (induction names arbitrary: out)
  case (Cons name names)
  define out' where "out' = (if reserved name then out else fold (header_Add name) (header_Values name req) out)"
  have "forward_headers (name # names) req out = forward_headers names req out'"
    by (simp add: Let_def out'_def)
  with Cons have "k \<in> fst ` set out' \<or> (\<exists>n \<in> set names. \<not> reserved n \<and> k = CanonicalMIMEHeaderKey n)"
    by simp
  moreover have "k \<in> fst ` set out \<or> \<not> reserved name \<and> k = CanonicalMIMEHeaderKey name" if "k \<in> fst ` set out'"
  proof (cases "reserved name")
    case False
    then show ?thesis
      using that fold_Add_keys [of name "header_Values name req" out] unfolding out'_def by (simp only: if_False) blast
  qed (use that in \<open>simp add: out'_def\<close>)
  ultimately show ?case by (simp only: list.set bex_simps) blast
qed simp

text \<open>The list of names to forward as \<open>buildHeaderAllowlist\<close> makes it.\<close>

definition client_ok :: "auth_client \<Rightarrow> bool" where
  "client_ok c \<longleftrightarrow> list_all (\<lambda>n. CanonicalMIMEHeaderKey n = n) (cl_headers c)"

lemma client_ok_New: "client_ok (New_client cfg)"
  by (simp add: client_ok_def New_client_def buildHeaderAllowlist_def list_all_iff)

lemma reserved_Origin [simp]: "reserved ''Origin''" "reserved ''Cookie''"
  by code_simp+

lemma scrub_origin:
  assumes "client_ok c"
  shows "header_Get ''Origin'' (r_Header (scrub (ForwardedFromRequest c cks h) r)) = header_Get ''Origin'' (r_Header r)"
proof -
  let ?fwd = "ForwardedFromRequest c cks h"
  have "n \<noteq> ''Origin''" if "n \<in> fst ` set (Headers ?fwd)" for n
  proof -
    have "n \<in> fst ` set (forward_headers (cl_headers c) h [])"
      using that by (cases "cl_headers c = []") (simp_all add: ForwardedFromRequest_def)
    then obtain n' where "n' \<in> set (cl_headers c)" "\<not> reserved n'" "n = CanonicalMIMEHeaderKey n'"
      using fwd_keys [of n "cl_headers c" h "[]"] by auto
    with assms have "\<not> reserved n" by (simp add: client_ok_def list_all_iff)
    then show ?thesis by auto
  qed
  moreover have "CanonicalMIMEHeaderKey n = n" if "n \<in> fst ` set (Headers ?fwd)" for n
    using that forward_headers_canonical [of "[]" "cl_headers c" h]
    by (auto simp: ForwardedFromRequest_def canonical_keys_def split: if_splits)
  ultimately have "''Origin'' \<notin> CanonicalMIMEHeaderKey ` set (map fst (Headers ?fwd))" by force
  then show ?thesis
    by (simp add: scrub_def header_Get_def header_Values_def fold_Del) (simp add: header_Del_def)
qed

lemma scrub_removes:
  "gm_get (r_Header (scrub fwd r)) ''Authorization'' = None" "gm_get (r_Header (scrub fwd r)) ''Cookie'' = None"
  "n \<in> fst ` set (Headers fwd) \<Longrightarrow> header_Values n (r_Header (scrub fwd r)) = []"
  "r_cookies (scrub fwd r) = []"
  by (auto simp: scrub_def fold_Del header_Values_def) (auto simp: header_Del_def)

subsection \<open>The handshake, path by path\<close>

lemma authenticate_True:
  assumes "authenticate W ch r h res w = ((True, res'), w', r', h')"
  obtains m req raw rid where "hs_authMap res' = Some m" "w' = w" "h_limits h' = h_limits h" "h_cors h' = h_cors h"
    "r' = scrub (ForwardedFromRequest (h_authClient h) (r_cookies r) (r_Header r)) r"
    "hs_globalAcquired res' = hs_globalAcquired res" "hs_perUserAcquired res' = hs_perUserAcquired res"
    "wd_transport W req = HttpResponse 200 raw" "rq_body req = session_body ch"
    "ParseWhitelist (wd_unmarshal W) (take maxResponseBytes raw) = Inr m"
    "bearer_token r \<noteq> [] \<or> \<not> fwd_Empty (ForwardedFromRequest (h_authClient h) (r_cookies r) (r_Header r))"
proof -
  let ?fwd = "ForwardedFromRequest (h_authClient h) (r_cookies r) (r_Header r)"
  obtain rid sent_req m c' where o: "OpenSession (wd_unmarshal W) (wd_request_ok W) (wd_transport W)
      (wd_substituteID W) (bearer_token r) ?fwd ch rid (h_authClient h) = (sent_req, Inr m, c')"
    and res': "hs_authMap res' = Some m" "w' = w" "h_limits h' = h_limits h" "h_cors h' = h_cors h" "r' = scrub ?fwd r"
      "hs_globalAcquired res' = hs_globalAcquired res" "hs_perUserAcquired res' = hs_perUserAcquired res"
    using assms by (auto simp: authenticate_def Let_def split: if_splits prod.splits sum.splits)
  obtain req raw where "wd_transport W req = HttpResponse 200 raw" "rq_body req = session_body ch"
      "ParseWhitelist (wd_unmarshal W) (take maxResponseBytes raw) = Inr m"
      "bearer_token r \<noteq> [] \<or> \<not> fwd_Empty ?fwd"
    using OpenSession_grants_facts [OF o] by blast
  with res' that show thesis by blast
qed

lemma authenticate_False:
  assumes "authenticate W ch r h res w = ((False, res'), w', r', h')"
  shows "res' = res" "h_limits h' = h_limits h" "h_cors h' = h_cors h"
    "r' = scrub (ForwardedFromRequest (h_authClient h) (r_cookies r) (r_Header r)) r"
    "w_Status w = None \<Longrightarrow> w_Status w' \<in> {Some 400, Some 401, Some 403, Some 404, Some 503}"
    "cors_ok W (h_cors h) r w \<Longrightarrow> cors_ok W (h_cors h) r w'"
  using assms writers_status(4) [of w W h r]
  by (auto simp: authenticate_def Let_def writers_cors writers_status split: if_splits prod.splits sum.splits)

text \<open>The limits taken when a handshake ends, and when it lets the stream through.\<close>

definition counts :: "limits \<Rightarrow> int \<times> (string \<Rightarrow> int)" where
  "counts l = (int (globalSem l), user_count l)"

lemma runHandshake_cases:
  assumes "runHandshake W tbl ch r h w = ((hs, ok), w', r', h')"
  obtains (full) "\<not> ok" "\<not> hs_globalAcquired hs" "\<not> hs_perUserAcquired hs" "h_limits h' = h_limits h"
      "w' = writeStatusOnlyError W h r 503 5 w" "h_cors h' = h_cors h"
  | (refused) l where "\<not> ok" "AcquireGlobal (h_limits h) = (True, l)"
      "authenticate W ch r (h\<lparr>h_limits := l\<rparr>)
         (zero_handshake\<lparr>hs_globalAcquired := True, hs_clientIP := clientIP W r\<rparr>) w = ((False, hs), w', r', h')"
      "hs_globalAcquired hs" "\<not> hs_perUserAcquired hs" "h_limits h' = l"
  | (granted) l res2 h2 w2 m where "AcquireGlobal (h_limits h) = (True, l)"
      "authenticate W ch r (h\<lparr>h_limits := l\<rparr>)
         (zero_handshake\<lparr>hs_globalAcquired := True, hs_clientIP := clientIP W r\<rparr>) w = ((True, res2), w2, r', h2)"
      "hs_authMap res2 = Some m" "h_cors h' = h_cors h2" "hs_globalAcquired hs" "hs_userID hs = UserID m"
      "hs_authMap hs = Some m"
      "hs_perUserAcquired hs = fst (fst (AcquirePerUser (UserID m) l))"
      "h_limits h' = snd (AcquirePerUser (UserID m) l)"
      "ok \<longleftrightarrow> hs_perUserAcquired hs \<and> gm_get (wl_Tables m) tbl \<noteq> None"
      "w' = (if ok then w2 else if hs_perUserAcquired hs then writeJSONReason W h' r' 403 ''not_allowed'' w2
             else writeStatusOnlyError W h2 r' 429 0 w2)"
proof (cases "AcquireGlobal (h_limits h)")
  case (Pair got l)
  show ?thesis
  proof (cases got)
    case False
    with Pair have "l = h_limits h" by (auto simp: AcquireGlobal_def split: if_splits)
    with Pair False assms full show ?thesis
      by (auto simp: runHandshake_def zero_handshake_def)
  next
    case True
    let ?h1 = "h\<lparr>h_limits := l\<rparr>"
    let ?res1 = "zero_handshake\<lparr>hs_globalAcquired := True, hs_clientIP := clientIP W r\<rparr>"
    obtain b res2 w2 r2 h2 where a: "authenticate W ch r ?h1 ?res1 w = ((b, res2), w2, r2, h2)"
      by (metis prod.exhaust)
    show ?thesis
    proof (cases b)
      case False
      then have b: "b = False" by simp
      note f = authenticate_False [OF a [unfolded b]]
      from assms Pair True a False have "\<not> ok" "hs = res2" "w' = w2" "r' = r2" "h' = h2"
        by (simp_all add: runHandshake_def Let_def)
      with Pair True a False f show ?thesis
        by (intro refused) (simp_all add: zero_handshake_def)
    next
      case True_b: True
      then have b: "b = True" by simp
      obtain m where m: "hs_authMap res2 = Some m" "h_limits h2 = l" "hs_globalAcquired res2"
          "\<not> hs_perUserAcquired res2"
        by (rule authenticate_True [OF a [unfolded b]]) (simp add: zero_handshake_def)
      obtain u n l3 where u: "AcquirePerUser (UserID m) l = ((u, n), l3)" by (metis prod.exhaust)
      have "runHandshake W tbl ch r h w =
          (if \<not> u then ((res2\<lparr>hs_userID := UserID m\<rparr>, False), writeStatusOnlyError W h2 r2 429 0 w2, r2, h2\<lparr>h_limits := l3\<rparr>)
           else if gm_get (wl_Tables m) tbl = None then
             ((res2\<lparr>hs_userID := UserID m, hs_perUserAcquired := True\<rparr>, False),
              writeJSONReason W (h2\<lparr>h_limits := l3\<rparr>) r2 403 ''not_allowed'' w2, r2, h2\<lparr>h_limits := l3\<rparr>)
           else ((res2\<lparr>hs_userID := UserID m, hs_perUserAcquired := True\<rparr>, True), w2, r2, h2\<lparr>h_limits := l3\<rparr>))"
        using Pair True a b m u by (auto simp: runHandshake_def Let_def split: bool.splits)
      with assms have "r' = r2" and e: "if \<not> u then hs = res2\<lparr>hs_userID := UserID m\<rparr> \<and> \<not> ok
            \<and> w' = writeStatusOnlyError W h2 r2 429 0 w2 \<and> h' = h2\<lparr>h_limits := l3\<rparr>
          else if gm_get (wl_Tables m) tbl = None then hs = res2\<lparr>hs_userID := UserID m, hs_perUserAcquired := True\<rparr>
            \<and> \<not> ok \<and> w' = writeJSONReason W h' r2 403 ''not_allowed'' w2 \<and> h' = h2\<lparr>h_limits := l3\<rparr>
          else hs = res2\<lparr>hs_userID := UserID m, hs_perUserAcquired := True\<rparr>
            \<and> ok \<and> w' = w2 \<and> h' = h2\<lparr>h_limits := l3\<rparr>"
        by (auto split: if_splits)
      with Pair True a b m u show ?thesis
        by (intro granted [of l res2 w2 h2 m]) (auto split: if_splits)
    qed
  qed
qed

text \<open>Releasing undoes exactly what the handshake took.\<close>

lemma handshake_release:
  assumes "runHandshake W tbl ch r h w = ((hs, ok), w', r', h')"
    and "\<And>u. 0 \<le> user_count (h_limits h) u"
  shows "counts (release_all hs (h_limits h')) = counts (h_limits h)"
  using assms(1)
proof (cases rule: runHandshake_cases)
  case full
  then show ?thesis by (simp add: release_all_def)
next
  case (refused l)
  then show ?thesis
    using global.balanced [of "h_limits h" l] by (simp add: release_all_def counts_def)
next
  case (granted l res2 h2 w2 m)
  let ?u = "UserID m"
  let ?l2 = "snd (AcquirePerUser ?u l)"
  have g: "int (globalSem l) = int (globalSem (h_limits h)) + 1" "user_count l = user_count (h_limits h)"
    using granted(1) global.acquire_used [of "h_limits h"] global.keeps_others(1) [of "h_limits h"] by auto
  have l2: "globalSem ?l2 = globalSem l"
      "user_count ?l2 v = user_count l v + (if v = ?u \<and> hs_perUserAcquired hs then 1 else 0)" for v
    using granted(8) by (auto simp: AcquirePerUser_count)
  have r: "int (globalSem (ReleaseGlobal ?l2)) = int (globalSem ?l2) - 1"
      "user_count (ReleaseGlobal ?l2) = user_count ?l2"
    using global.release_used [of ?l2] global.keeps_others(2) [of ?l2] g l2 by auto
  have "user_count (release_all hs ?l2) v = user_count (h_limits h) v" for v
  proof (cases "hs_perUserAcquired hs")
    case True
    have "0 < user_count (ReleaseGlobal ?l2) ?u" using assms(2) [of ?u] True r l2 g by simp
    then show ?thesis
      using True granted(5,6) r(2) l2(2) g(2) by (simp add: release_all_def Let_def ReleasePerUser_count)
  qed (use granted(5) r(2) l2(2) g(2) in \<open>simp add: release_all_def Let_def\<close>)
  moreover have "int (globalSem (release_all hs ?l2)) = int (globalSem (h_limits h))"
    using granted(5) r(1) l2(1) g(1) by (simp add: release_all_def Let_def ReleasePerUser_count)
  ultimately show ?thesis using granted(9) by (simp add: counts_def fun_eq_iff)
qed

lemma handshake_response:
  assumes "runHandshake W tbl ch r h w = ((hs, False), w', r', h')"
    and "client_ok (h_authClient h)"
  shows "cors_ok W (h_cors h) r w \<Longrightarrow> cors_ok W (h_cors h) r w'"
    and "w_Status w = None \<Longrightarrow> w_Status w' \<in> {Some 400, Some 401, Some 403, Some 404, Some 429, Some 503}"
proof -
  have "(cors_ok W (h_cors h) r w \<longrightarrow> cors_ok W (h_cors h) r w') \<and>
    (w_Status w = None \<longrightarrow> w_Status w' \<in> {Some 400, Some 401, Some 403, Some 404, Some 429, Some 503})"
    using assms(1)
  proof (cases rule: runHandshake_cases)
    case full
    then show ?thesis by (simp add: writers_cors writers_status)
  next
    case (refused l)
    show ?thesis using authenticate_False(5,6) [OF refused(3)] by auto
  next
    case (granted l res2 h2 w2 m)
    have a: "w2 = w" "h_cors h2 = h_cors h"
      "r' = scrub (ForwardedFromRequest (h_authClient h) (r_cookies r) (r_Header r)) r"
      by (rule authenticate_True [OF granted(2)]; simp)+
    have o: "cors_ok W os r' x = cors_ok W os r x" for os x
      unfolding a(3) by (rule cors_ok_origin) (rule scrub_origin [OF assms(2)])
    have "cors_ok W (h_cors h) r w \<Longrightarrow> cors_ok W (h_cors h) r w'"
      using granted(4,11) a(1,2) writers_cors(1) [of W h2 r' w 429 0] writers_cors(3) [of W h' r' w 403]
      by (auto simp: o)
    moreover have "w_Status w = None \<Longrightarrow> w_Status w' \<in> {Some 403, Some 429}"
      using granted(11) a(1) by (auto simp: writers_status)
    ultimately show ?thesis by auto
  qed
  then show "cors_ok W (h_cors h) r w \<Longrightarrow> cors_ok W (h_cors h) r w'"
    "w_Status w = None \<Longrightarrow> w_Status w' \<in> {Some 400, Some 401, Some 403, Some 404, Some 429, Some 503}"
    by blast+
qed

lemma table_char_plain: "table_char c \<Longrightarrow> c \<noteq> CHR '':'' \<and> c \<noteq> CHR ''.''"
  by (auto simp: table_char_def table_start_def is_lower_def is_digit_def)

lemma validTableName_plain:
  assumes "validTableName t"
  shows "CHR '':'' \<notin> set t" "CHR ''.'' \<notin> set t" "t \<noteq> []"
proof -
  have "list_all table_char t" "t \<noteq> []"
    using assms by (auto simp: validTableName_def table_char_def split: if_splits list.splits)
  then show "CHR '':'' \<notin> set t" "CHR ''.'' \<notin> set t" "t \<noteq> []"
    using table_char_plain by (auto simp: list_all_iff)
qed

lemma handshake_stream:
  assumes "runHandshake W tbl ch r h w = ((hs, True), w', r', h')"
  obtains m req raw where "hs_authMap hs = Some m" "hs_userID hs = UserID m"
    "wd_transport W req = HttpResponse 200 raw" "rq_body req = session_body ch"
    "ParseWhitelist (wd_unmarshal W) (take maxResponseBytes raw) = Inr m"
    "gm_get (wl_Tables m) tbl \<noteq> None"
    "int (globalSem (h_limits h')) \<le> GlobalConcurrent (lim_cfg (h_limits h'))"
    "user_count (h_limits h') (UserID m) \<le> PerUserConcurrentMax (lim_cfg (h_limits h'))"
    "r' = scrub (ForwardedFromRequest (h_authClient h) (r_cookies r) (r_Header r)) r" "w' = w"
  using assms
proof (cases rule: runHandshake_cases)
  case (granted l res2 h2 w2 m)
  obtain req raw where t: "wd_transport W req = HttpResponse 200 raw" "rq_body req = session_body ch"
      "ParseWhitelist (wd_unmarshal W) (take maxResponseBytes raw) = Inr m"
    and a: "w2 = w" "r' = scrub (ForwardedFromRequest (h_authClient h) (r_cookies r) (r_Header r)) r"
    using granted(3) by (auto intro: authenticate_True [OF granted(2)])
  have g: "int (globalSem l) \<le> GlobalConcurrent (lim_cfg l)"
    using granted(1) by (auto simp: AcquireGlobal_def split: if_splits)
  have u: "hs_perUserAcquired hs" "gm_get (wl_Tables m) tbl \<noteq> None" using granted(10) by simp_all
  have "user_count (h_limits h') (UserID m) \<le> PerUserConcurrentMax (lim_cfg (h_limits h'))"
    using u(1) granted(8,9) AcquirePerUser_count [of "UserID m" l] by simp
  moreover have "int (globalSem (h_limits h')) \<le> GlobalConcurrent (lim_cfg (h_limits h'))"
    using g granted(9) by (simp add: AcquirePerUser_count)
  ultimately show thesis
    using that [OF granted(7,6) t u(2)] a granted(11) by simp
qed simp_all

text \<open>
  Both endpoints are the same function of the last path segment: a request is refused before
  anything was acquired, or the handshake for its channel decides.
\<close>

lemma serveStream_cases:
  obtains (bad) code where "serveStream W r h w = Refused (writeJSONError W h r 400 code w) r h"
  | (handshake) p where
      "serveStream W r h w = runHandshakeAndWriter W (r_table r) (if r_pk r = ''all'' then [] else r_pk r)
         (r_table r @ '':'' @ r_pk r) (if r_pk r = ''all'' then KindWildcard else KindExact) p r h w"
      "validTableName (r_table r)" "r_pk r \<noteq> []" "length (r_pk r) \<le> 256"
proof (cases "validTableName (r_table r) \<and> r_pk r \<noteq> [] \<and> length (r_pk r) \<le> 256")
  case False
  then show ?thesis
    by (intro bad [of "''invalid_channel''"])
       (auto simp: serveStream_def serveExact_def serveWildcard_def Let_def)
next
  case True
  obtain p ok w1 where p: "parseSinceLSN W h r w = ((p, ok), w1)" by (metis prod.exhaust)
  show ?thesis
  proof (cases ok)
    case False
    have "w1 = writeJSONError W h r 400 ''invalid_since_lsn'' w"
      using p False by (auto simp: parseSinceLSN_def split: if_splits option.splits)
    with True False p show ?thesis
      by (intro bad [of "''invalid_since_lsn''"])
         (simp add: serveStream_def serveExact_def serveWildcard_def Let_def)
  next
    case ok: True
    have "w1 = w" using p ok by (auto simp: parseSinceLSN_def split: if_splits option.splits)
    with True ok p show ?thesis
      by (intro handshake [of p])
         (simp_all add: serveStream_def serveExact_def serveWildcard_def Let_def)
  qed
qed

lemma serveStream_Refused:
  assumes "serveStream W r h w = Refused w' r' h'"
  obtains (bad) code where "w' = writeJSONError W h r 400 code w" "r' = r" "h' = h"
  | (handshake) hs h1 where
      "runHandshake W (r_table r) (r_table r @ '':'' @ r_pk r) r h w = ((hs, False), w', r', h1)"
      "h' = h1\<lparr>h_limits := release_all hs (h_limits h1)\<rparr>"
proof (cases rule: serveStream_cases [of W r h w])
  case (bad code)
  with assms have "w' = writeJSONError W h r 400 code w" "r' = r" "h' = h" by auto
  then show ?thesis by (rule that(1))
next
  case (handshake p)
  with assms show ?thesis
    by (auto simp: runHandshakeAndWriter_def split: prod.splits if_splits intro: that(2))
qed

lemma serveStream_Stream:
  assumes "serveStream W r h w = Stream k tbl pkey ch startLSN hs w' r' h'"
  shows "runHandshake W (r_table r) (r_table r @ '':'' @ r_pk r) r h w = ((hs, True), w', r', h')"
    and "tbl = r_table r" "ch = r_table r @ '':'' @ r_pk r"
    and "k = (if r_pk r = ''all'' then KindWildcard else KindExact)"
    and "pkey = (if r_pk r = ''all'' then [] else r_pk r)"
    and "validTableName (r_table r)" "r_pk r \<noteq> []" "length (r_pk r) \<le> 256"
proof -
  obtain p where e: "serveStream W r h w = runHandshakeAndWriter W (r_table r) (if r_pk r = ''all'' then [] else r_pk r)
         (r_table r @ '':'' @ r_pk r) (if r_pk r = ''all'' then KindWildcard else KindExact) p r h w"
    and path: "validTableName (r_table r)" "r_pk r \<noteq> []" "length (r_pk r) \<le> 256"
  proof (cases rule: serveStream_cases [of W r h w])
    case (bad code)
    with assms show ?thesis by simp
  next
    case (handshake p)
    then show ?thesis by (rule that)
  qed
  have u: "runHandshake W t c r h w = ((hs, True), w', r', h') \<and> tbl = t \<and> ch = c \<and> k = kd \<and> pkey = y"
    if "runHandshakeAndWriter W t y c kd p r h w = Stream k tbl pkey ch startLSN hs w' r' h'" for t y c kd
    using that by (auto simp: runHandshakeAndWriter_def split: prod.splits if_splits)
  from u [OF assms [unfolded e]]
  show "runHandshake W (r_table r) (r_table r @ '':'' @ r_pk r) r h w = ((hs, True), w', r', h')"
    "tbl = r_table r" "ch = r_table r @ '':'' @ r_pk r"
    "k = (if r_pk r = ''all'' then KindWildcard else KindExact)"
    "pkey = (if r_pk r = ''all'' then [] else r_pk r)"
    by blast+
  show "validTableName (r_table r)" "r_pk r \<noteq> []" "length (r_pk r) \<le> 256" by (fact path)+
qed

lemma Routes_Served: "Routes W r h w = Served x \<longleftrightarrow> r_Method r \<in> {''GET'', ''HEAD''} \<and> serveStream W r h w = x"
  by (auto simp: Routes_def)

text \<open>
  C10: a stream starts only for a request whose channel the backend has just granted, on either
  endpoint. The path is a valid table and key, or the table and \<open>all\<close> for a wildcard stream; the
  backend answered 200, to a call naming exactly that channel, with a grant that names the table;
  the stream runs under that grant and that user, its refreshes ask for the same table, and both
  admission limits hold with the stream counted in.
\<close>

theorem stream_needs_grant:
  assumes "Routes W r h w = Served (Stream k tbl pkey ch startLSN hs w' r' h')"
  shows "r_Method r \<in> {''GET'', ''HEAD''} \<and> tbl = r_table r \<and> ch = tbl @ '':'' @ r_pk r \<and> validTableName tbl
    \<and> (if r_pk r = ''all'' then k = KindWildcard \<and> pkey = []
       else k = KindExact \<and> pkey = r_pk r \<and> pkey \<noteq> [] \<and> length pkey \<le> 256)
    \<and> tableFromChannel ch = tbl
    \<and> (\<exists>m req raw. hs_authMap hs = Some m \<and> hs_userID hs = UserID m
         \<and> wd_transport W req = HttpResponse 200 raw \<and> rq_body req = session_body ch
         \<and> ParseWhitelist (wd_unmarshal W) (take maxResponseBytes raw) = Inr m
         \<and> gm_get (wl_Tables m) tbl \<noteq> None
         \<and> int (globalSem (h_limits h')) \<le> GlobalConcurrent (lim_cfg (h_limits h'))
         \<and> user_count (h_limits h') (UserID m) \<le> PerUserConcurrentMax (lim_cfg (h_limits h')))"
proof -
  have met: "r_Method r \<in> {''GET'', ''HEAD''}"
    and srv: "serveStream W r h w = Stream k tbl pkey ch startLSN hs w' r' h'"
    using assms by (simp_all only: Routes_Served)
  note s = serveStream_Stream [OF srv]
  have t: "tableFromChannel (r_table r @ '':'' @ r_pk r) = r_table r"
    by (rule tableFromChannel_plain [OF validTableName_plain(1,2) [OF s(6)]])
  have ex: "\<exists>m req raw. hs_authMap hs = Some m \<and> hs_userID hs = UserID m
         \<and> wd_transport W req = HttpResponse 200 raw \<and> rq_body req = session_body (r_table r @ '':'' @ r_pk r)
         \<and> ParseWhitelist (wd_unmarshal W) (take maxResponseBytes raw) = Inr m
         \<and> gm_get (wl_Tables m) (r_table r) \<noteq> None
         \<and> int (globalSem (h_limits h')) \<le> GlobalConcurrent (lim_cfg (h_limits h'))
         \<and> user_count (h_limits h') (UserID m) \<le> PerUserConcurrentMax (lim_cfg (h_limits h'))"
    by (rule handshake_stream [OF s(1)]) (intro exI conjI; assumption)
  have path: "if r_pk r = ''all'' then k = KindWildcard \<and> pkey = []
       else k = KindExact \<and> pkey = r_pk r \<and> pkey \<noteq> [] \<and> length pkey \<le> 256"
    using s(4,5,7,8) by simp
  show ?thesis using met path unfolding s(2,3) by (intro conjI refl) (rule s(6) t ex | assumption)+
qed

text \<open>
  Nothing admitted is lost. A refused request leaves both limits exactly as they were, and a
  stream gives back exactly what it took when its writer ends, on every path of the handshake and
  on both endpoints.
\<close>

lemma limits_balanced:
  assumes "\<And>u. 0 \<le> user_count (h_limits h) u"
  shows "case Routes W r h w of
      Served (Refused w' r' h') \<Rightarrow> counts (h_limits h') = counts (h_limits h)
    | Served (Stream k tbl pkey ch startLSN hs w' r' h') \<Rightarrow>
        counts (release_all hs (h_limits h')) = counts (h_limits h)
    | _ \<Rightarrow> True"
proof -
  have hr: "counts (release_all hs (h_limits h')) = counts (h_limits h)"
    if "runHandshake W (r_table r) (r_table r @ '':'' @ r_pk r) r h w1 = ((hs, ok), w', r', h')" for w1 ok hs w' r' h'
    using handshake_release [OF that assms] .
  have "counts (h_limits h') = counts (h_limits h)" if "serveStream W r h w = Refused w' r' h'" for w' r' h'
    using that by (cases rule: serveStream_Refused) (simp, use hr in simp)
  moreover have "counts (release_all hs (h_limits h')) = counts (h_limits h)"
    if "serveStream W r h w = Stream k tbl pkey ch startLSN hs w' r' h'" for k tbl pkey ch startLSN hs w' r' h'
    using hr [OF serveStream_Stream(1) [OF that]] .
  ultimately show ?thesis by (cases "serveStream W r h w") (simp_all add: Routes_def)
qed


end
