(* ===== verification/Router_Registry.thy ===== *)
theory Router_Registry
  imports Router_Dispatch
begin

text \<open>
  Registration in \<open>internal/router\<close>: the invariant that ties the two indexes to the
  subscribers and the gauges to the indexes, delivery to whoever is registered, and shutdown,
  also when it runs concurrently with a registration.
\<close>

subsection \<open>The invariant\<close>

definition registered :: "'f broadcaster \<Rightarrow> sid \<Rightarrow> bool" where
  "registered b s \<longleftrightarrow> s \<in> set (shutdown_subs b)"

definition keyed :: "'f broadcaster \<Rightarrow> bool" where
  "keyed b \<longleftrightarrow>
     (\<forall>k. \<forall>s \<in> set (exact_Lookup (bc_exact b) k).
        sub_kind (bc_heap b s) = KindExact \<and> subChannelKey (bc_heap b s) = k) \<and>
     (\<forall>k. \<forall>s \<in> set (wild_Lookup (bc_wildcard b) k).
        sub_kind (bc_heap b s) = KindWildcard \<and> subChannelKey (bc_heap b s) = k)"

definition bc_ok :: "'f broadcaster \<Rightarrow> bool" where
  "bc_ok b \<longleftrightarrow> index_ok (bc_exact b) \<and> index_ok (bc_wildcard b) \<and> keyed b
     \<and> active_exact b = int (ExactLen b) \<and> active_wildcard b = int (WildcardLen b)"

lemma registered_iff:
  assumes "bc_ok b"
  shows "registered b s \<longleftrightarrow>
     (case sub_kind (bc_heap b s) of
        KindExact \<Rightarrow> s \<in> set (exact_Lookup (bc_exact b) (subChannelKey (bc_heap b s)))
      | KindWildcard \<Rightarrow> s \<in> set (wild_Lookup (bc_wildcard b) (subChannelKey (bc_heap b s)))
      | KindOther _ \<Rightarrow> False)"
proof -
  have "registered b s \<longleftrightarrow> (\<exists>k. s \<in> set (exact_Lookup (bc_exact b) k)) \<or> (\<exists>k. s \<in> set (wild_Lookup (bc_wildcard b) k))"
    using assms by (simp add: registered_def shutdown_subs_def exact.snap_all wild.snap_all bc_ok_def)
  moreover have "keyed b" using assms by (simp add: bc_ok_def)
  ultimately show ?thesis by (auto simp: keyed_def split: kind.splits)
qed

text \<open>The operations in terms of the subscriber's channel key.\<close>

lemma register_add_eq:
  "register_add s b =
     (case sub_kind (bc_heap b s) of
        KindExact \<Rightarrow> b\<lparr>bc_exact := exact_Add (subChannelKey (bc_heap b s)) s (bc_exact b),
          active_exact := active_exact b + 1\<rparr>
      | KindWildcard \<Rightarrow> b\<lparr>bc_wildcard := wild_Add (subChannelKey (bc_heap b s)) s (bc_wildcard b),
          active_wildcard := active_wildcard b + 1\<rparr>
      | KindOther _ \<Rightarrow> b)"
  by (simp add: register_add_def subChannelKey_def Let_def split: kind.splits)

lemma Deregister_eq:
  "Deregister s b =
     (case sub_kind (bc_heap b s) of
        KindExact \<Rightarrow> b\<lparr>bc_exact := exact_Remove (subChannelKey (bc_heap b s)) s (bc_exact b),
          active_exact := active_exact b - 1\<rparr>
      | KindWildcard \<Rightarrow> b\<lparr>bc_wildcard := wild_Remove (subChannelKey (bc_heap b s)) s (bc_wildcard b),
          active_wildcard := active_wildcard b - 1\<rparr>
      | KindOther _ \<Rightarrow> b)"
  by (simp add: Deregister_def subChannelKey_def Let_def split: kind.splits)

lemma bc_ok_New: "bc_ok (New_broadcaster cfg h)"
  by (simp add: bc_ok_def New_broadcaster_def keyed_def ExactLen_def WildcardLen_def newIndex_def
      newWildcardIndex_def exact_Lookup_def wild_Lookup_def exact_Len_def wild_Len_def)

text \<open>Changing what the indexes do not depend on keeps the invariant.\<close>

lemma bc_ok_heap:
  assumes "bc_ok b"
    and "\<And>s. sub_kind (h s) = sub_kind (bc_heap b s) \<and> sub_schema (h s) = sub_schema (bc_heap b s)
        \<and> sub_table (h s) = sub_table (bc_heap b s) \<and> sub_pk (h s) = sub_pk (bc_heap b s)"
  shows "bc_ok (b\<lparr>bc_heap := h, bc_closed := c\<rparr>)"
proof -
  have "subChannelKey (h s) = subChannelKey (bc_heap b s)" for s
    using assms(2) [of s] by (auto simp: subChannelKey_def Let_def)
  with assms show ?thesis by (simp add: bc_ok_def keyed_def ExactLen_def WildcardLen_def)
qed

lemma Drop_frame [simp]:
  "sub_kind (Drop r s) = sub_kind s" "sub_schema (Drop r s) = sub_schema s"
  "sub_table (Drop r s) = sub_table s" "sub_pk (Drop r s) = sub_pk s"
  by (simp_all add: Drop_def)

lemma drop_sub_ok: "bc_ok b \<Longrightarrow> bc_ok (drop_sub reason s b)"
  using bc_ok_heap [of b "(bc_heap b)(s := Drop reason (bc_heap b s))" "bc_closed b"]
  by (simp add: drop_sub_def)

lemma register_add_ok:
  assumes "bc_ok b" and "\<not> registered b s"
  shows "bc_ok (register_add s b)"
proof (cases "sub_kind (bc_heap b s)")
  case KindExact
  with assms registered_iff [OF assms(1), of s] have new:
    "s \<notin> set (exact_Lookup (bc_exact b) (subChannelKey (bc_heap b s)))" by simp
  from assms KindExact new show ?thesis
    by (auto simp: bc_ok_def register_add_eq keyed_def ExactLen_def WildcardLen_def exact.look_add
        exact.len_add exact.ok_add split: if_splits)
next
  case KindWildcard
  with assms registered_iff [OF assms(1), of s] have new:
    "s \<notin> set (wild_Lookup (bc_wildcard b) (subChannelKey (bc_heap b s)))" by simp
  from assms KindWildcard new show ?thesis
    by (auto simp: bc_ok_def register_add_eq keyed_def ExactLen_def WildcardLen_def wild.look_add
        wild.len_add wild.ok_add split: if_splits)
qed (use assms in \<open>simp add: register_add_eq\<close>)

lemma register_check_ok: "bc_ok b \<Longrightarrow> bc_ok (register_check s b)"
  by (simp add: register_check_def drop_sub_ok)

lemma Deregister_keeps:
  assumes "bc_ok b" and "registered b s"
  shows "bc_ok (Deregister s b)"
proof (cases "sub_kind (bc_heap b s)")
  case KindExact
  with assms registered_iff [OF assms(1), of s] have old:
    "s \<in> set (exact_Lookup (bc_exact b) (subChannelKey (bc_heap b s)))" by simp
  from assms KindExact exact.len_del [OF _ old] show ?thesis
    by (auto simp: bc_ok_def Deregister_eq keyed_def ExactLen_def WildcardLen_def exact.look_del
        exact.ok_del split: if_splits)
next
  case KindWildcard
  with assms registered_iff [OF assms(1), of s] have old:
    "s \<in> set (wild_Lookup (bc_wildcard b) (subChannelKey (bc_heap b s)))" by simp
  from assms KindWildcard wild.len_del [OF _ old] show ?thesis
    by (auto simp: bc_ok_def Deregister_eq keyed_def ExactLen_def WildcardLen_def wild.look_del
        wild.ok_del split: if_splits)
qed (use assms registered_iff [OF assms(1), of s] in simp)

lemma routeTx_ok:
  assumes "\<And>l. mset (order l) = mset l" and "bc_ok b"
  shows "bc_ok (routeTx enc order tx b)"
  unfolding routeTx_eq [OF assms(1)]
  using bc_ok_heap [OF assms(2), of "\<lambda>s. if eligible b tx s then dispatch (bc_cfg b) enc tx (bc_heap b s) else bc_heap b s" "bc_closed b"]
  by simp

lemma fold_drop_ok: "bc_ok b \<Longrightarrow> bc_ok (fold (drop_sub reason) l b)"
  by (induction l arbitrary: b) (simp_all add: drop_sub_ok)

lemma Shutdown_ok: "bc_ok b \<Longrightarrow> bc_ok (Shutdown b)"
  using bc_ok_heap [of b "bc_heap b" True] by (simp add: Shutdown_def Let_def fold_drop_ok)

text \<open>After a registration the subscriber is found under its key; after the removal it is not.\<close>

lemma registered_drop [simp]: "registered (drop_sub reason s b) s' = registered b s'"
  by (simp add: registered_def shutdown_subs_def drop_sub_def)

lemma registered_check [simp]: "registered (register_check s b) s' = registered b s'"
  by (simp add: register_check_def)

lemma registered_Register:
  assumes "bc_ok b" and "\<not> registered b s" and "sub_kind (bc_heap b s) = KindExact \<or> sub_kind (bc_heap b s) = KindWildcard"
  shows "registered (Register s b) s' \<longleftrightarrow> s' = s \<or> registered b s'"
proof -
  have ok: "index_ok (bc_exact b)" "index_ok (bc_wildcard b)" using assms(1) by (simp_all add: bc_ok_def)
  have "registered (register_add s b) s' \<longleftrightarrow> s' = s \<or> registered b s'"
    using assms(2,3) ok registered_iff [OF assms(1), of s]
    by (elim disjE) (auto simp: registered_def shutdown_subs_def register_add_eq
        exact.snap_add wild.snap_add)
  then show ?thesis by (simp add: Register_def)
qed

lemma registered_Deregister:
  assumes "bc_ok b" and "registered b s"
  shows "registered (Deregister s b) s' \<longleftrightarrow> s' \<noteq> s \<and> registered b s'"
proof -
  have ok: "bc_ok (Deregister s b)" using assms by (rule Deregister_keeps)
  have idx: "index_ok (bc_exact b)" "index_ok (bc_wildcard b)" using assms(1) by (simp_all add: bc_ok_def)
  have heap: "bc_heap (Deregister s b) = bc_heap b" by (simp add: Deregister_eq split: kind.splits)
  have eq: "registered (Deregister s b) s' \<longleftrightarrow>
     (case sub_kind (bc_heap b s') of
        KindExact \<Rightarrow> s' \<in> set (exact_Lookup (bc_exact (Deregister s b)) (subChannelKey (bc_heap b s')))
      | KindWildcard \<Rightarrow> s' \<in> set (wild_Lookup (bc_wildcard (Deregister s b)) (subChannelKey (bc_heap b s')))
      | KindOther _ \<Rightarrow> False)"
    using registered_iff [OF ok, of s'] unfolding heap .
  show ?thesis
    using idx registered_iff [OF assms(1), of s] assms(2)
    unfolding eq registered_iff [OF assms(1), of s'] unfolding Deregister_eq
    by (auto simp: exact.look_del wild.look_del split: kind.splits)
qed

text \<open>
  Registering a new subscriber and deregistering a registered one keep the broadcaster
  consistent: each index lists its subscribers under their channel key and once, the gauges of
  active subscribers equal the numbers of indexed ones, and exactly that subscriber appears or
  disappears.
\<close>

lemma registry_consistent:
  assumes "bc_ok b"
  shows "(\<not> registered b s \<longrightarrow> bc_ok (Register s b)
      \<and> (sub_kind (bc_heap b s) \<in> {KindExact, KindWildcard} \<longrightarrow>
           (\<forall>s'. registered (Register s b) s' \<longleftrightarrow> s' = s \<or> registered b s')))
    \<and> (registered b s \<longrightarrow> bc_ok (Deregister s b)
      \<and> (\<forall>s'. registered (Deregister s b) s' \<longleftrightarrow> s' \<noteq> s \<and> registered b s'))"
  using assms register_check_ok [OF register_add_ok [OF assms]] registered_Register [OF assms]
    Deregister_keeps [OF assms] registered_Deregister [OF assms]
  by (simp_all add: Register_def)

subsection \<open>Delivery\<close>

lemma anchor_eligible:
  assumes "bc_ok b" and "registered b s" and "anchor_granted (bc_heap b s) flt tx"
  shows "eligible b tx s"
proof -
  obtain ch where ch: "ch \<in> set (Changes tx)" "matchesAnchor (bc_heap b s) ch"
    using assms(3) by (auto simp: anchor_granted_def)
  have "sub_kind (bc_heap b s) = KindExact \<Longrightarrow> subChannelKey (bc_heap b s) = Key ch"
    "sub_kind (bc_heap b s) = KindWildcard \<Longrightarrow> subChannelKey (bc_heap b s) = WildcardKey ch"
    using ch(2) by (auto simp: matchesAnchor_def subChannelKey_def Key_def WildcardKey_def split: if_splits)
  with assms(1,2) ch(1) show ?thesis
    by (auto simp: registered_iff eligible_def split: kind.splits)
qed

text \<open>
  C11: nobody receives what is not for them. A frame is queued for a subscriber only if the
  transaction is newer than its start position, the subscriber is live and has a grant, and a
  row the grant lets through is a row of its own channel; the frame is the encoding of one event
  with the granted rows of its schema and nothing else, within the cap, and it is the only one.
\<close>

theorem routeTx_sound:
  assumes "\<And>l. mset (order l) = mset l"
    and "queue (bc_heap (routeTx enc order tx b) s) \<noteq> queue (bc_heap b s)"
  shows "\<exists>flt frame. let sub = bc_heap b s in
     sub_Filter sub = Some flt \<and> sub_startLSN sub < CommitLSN tx \<and> \<not> sub_done sub
     \<and> (\<exists>ch \<in> set (Changes tx). matchesAnchor sub ch \<and> \<not> snd (flt ch (CommitLSN tx)))
     \<and> enc \<lparr>ev_Tx = tx\<lparr>Changes := granted sub flt tx\<rparr>,
            MatchedIndices = map int [0..<length (granted sub flt tx)]\<rparr> = (frame, False)
     \<and> int (length (granted sub flt tx)) \<le> MaxChangesPerTx (bc_cfg b)
     \<and> queue (bc_heap (routeTx enc order tx b) s) = queue sub @ [frame]"
proof -
  let ?sub = "bc_heap b s"
  have q: "queue (dispatch (bc_cfg b) enc tx ?sub) \<noteq> queue ?sub" and
    e: "bc_heap (routeTx enc order tx b) s = dispatch (bc_cfg b) enc tx ?sub"
    using assms(2) by (auto simp: routeTx_eq [OF assms(1)] split: if_splits)
  show ?thesis
  proof (cases rule: dispatch_cases [of tx ?sub "bc_cfg b" enc])
    case (delivered flt frame)
    then show ?thesis
      by (intro exI [of _ flt] exI [of _ frame])
         (simp add: Let_def e queue_Send concerns_def anchor_granted_def sub_event_def)
  qed (use q in auto)
qed

text \<open>
  C3: everybody receives what is for them. If a registered, live subscriber's grant lets a row
  of its channel through (and, on an exact channel, the transaction has one root), the event
  fits the caps and the queue has room, then exactly its frame is appended to the queue.
\<close>

theorem routeTx_complete:
  assumes "\<And>l. mset (order l) = mset l" and "bc_ok b" and "registered b s"
    and "concerns tx (bc_heap b s) flt"
    and "int (length (granted (bc_heap b s) flt tx)) \<le> MaxChangesPerTx (bc_cfg b)"
    and "enc (sub_event (bc_heap b s) flt tx) = (frame, False)" and "can_send (bc_heap b s)"
  shows "queue (bc_heap (routeTx enc order tx b) s) = queue (bc_heap b s) @ [frame] \<and>
    (sub_done (bc_heap (routeTx enc order tx b) s) \<longleftrightarrow> sub_done (bc_heap b s))"
proof -
  have "eligible b tx s"
    using assms(4) by (intro anchor_eligible [OF assms(2,3)]) (auto simp: concerns_def)
  then have e: "bc_heap (routeTx enc order tx b) s = snd (Send frame (bc_heap b s))"
    using dispatch_concerned [OF assms(4), of "bc_cfg b" enc] assms(5-7)
    by (simp add: routeTx_eq [OF assms(1)])
  have "queue (bc_heap (routeTx enc order tx b) s) = queue (bc_heap b s) @ [frame]"
    using assms(7) by (simp add: e queue_Send)
  moreover have "sub_done (bc_heap (routeTx enc order tx b) s) \<longleftrightarrow> sub_done (bc_heap b s)"
    by (simp add: e Send_def split: option.splits)
  ultimately show ?thesis by blast
qed


text \<open>Frames stay in the order in which the transactions arrive.\<close>

lemma routeTx_prefix:
  assumes "\<And>l. mset (order l) = mset l"
  shows "prefix (queue (bc_heap b s)) (queue (bc_heap (routeTx enc order tx b) s))"
proof (cases "eligible b tx s")
  case True
  then show ?thesis
    unfolding routeTx_eq [OF assms]
    by (cases rule: dispatch_cases [of tx "bc_heap b s" "bc_cfg b" enc]) (auto simp: queue_Send)
qed (simp add: routeTx_eq [OF assms])

lemma Ingest_prefix:
  assumes "\<And>l. mset (order l) = mset l"
  shows "Ingest enc order evs b = (res, b') \<Longrightarrow> prefix (queue (bc_heap b s)) (queue (bc_heap b' s))"
proof (induction evs arbitrary: b)
  case (Cons ev evs)
  then show ?case
    using routeTx_prefix [OF assms] prefix_order.trans by (cases ev) fastforce+
qed simp

subsection \<open>Shutdown\<close>

lemma drop_sub_sel [simp]:
  "bc_heap (drop_sub reason t b) s = (if s = t then Drop reason (bc_heap b s) else bc_heap b s)"
  "bc_closed (drop_sub reason t b) = bc_closed b" "bc_exact (drop_sub reason t b) = bc_exact b"
  "bc_wildcard (drop_sub reason t b) = bc_wildcard b"
  by (simp_all add: drop_sub_def)

lemma Drop_twice [simp]: "Drop reason (Drop reason sub) = Drop reason sub"
  by (simp add: Drop_def)

lemma fold_drop_heap:
  "bc_heap (fold (drop_sub reason) l b) s = (if s \<in> set l then Drop reason (bc_heap b s) else bc_heap b s)"
  by (induction l arbitrary: b) auto

lemma fold_drop_closed: "bc_closed (fold (drop_sub reason) l b) = bc_closed b"
  by (induction l arbitrary: b) auto

text \<open>\<open>Drop\<close> always leaves a reason; a done subscriber without one can only come from its parent.\<close>

definition dropped :: "'f subscriber \<Rightarrow> bool" where
  "dropped sub \<longleftrightarrow> sub_reason sub \<noteq> None"

lemma dropped_Drop [simp]: "dropped (Drop r sub)"
  by (simp add: dropped_def Drop_def)

lemma Drop_first: "sub_reason sub = Some r \<Longrightarrow> Drop r' sub = sub"
  by (simp add: Drop_def)

text \<open>
  A registration and a shutdown on two goroutines. Each takes its steps in its own order; the
  drops of the shutdown are single steps over the snapshot.
\<close>

datatype reg_pc = RegAdd | RegCheck | RegDone
datatype shut_pc = ShutClose | ShutSnapshot | ShutDrop "sid list" | ShutDone

inductive race_step :: "sid \<Rightarrow> reg_pc \<times> shut_pc \<times> 'f broadcaster \<Rightarrow> reg_pc \<times> shut_pc \<times> 'f broadcaster \<Rightarrow> bool"
  for s where
  reg_add: "race_step s (RegAdd, q, b) (RegCheck, q, register_add s b)"
| reg_check: "race_step s (RegCheck, q, b) (RegDone, q, register_check s b)"
| shut_close: "race_step s (p, ShutClose, b) (p, ShutSnapshot, b\<lparr>bc_closed := True\<rparr>)"
| shut_snapshot: "race_step s (p, ShutSnapshot, b) (p, ShutDrop (shutdown_subs b), b)"
| shut_drop: "race_step s (p, ShutDrop (t # l), b) (p, ShutDrop l, drop_sub ''shutdown'' t b)"
| shut_done: "race_step s (p, ShutDrop [], b) (p, ShutDone, b)"

inductive_cases race_stepE: "race_step s (p, q, b) c"

definition race_inv :: "sid \<Rightarrow> reg_pc \<times> shut_pc \<times> 'f broadcaster \<Rightarrow> bool" where
  "race_inv s c \<longleftrightarrow>
     (case c of (p, q, b) \<Rightarrow>
        index_ok (bc_exact b) \<and> index_ok (bc_wildcard b)
        \<and> (p = RegAdd \<longrightarrow> \<not> registered b s)
        \<and> sub_kind (bc_heap b s) \<in> {KindExact, KindWildcard}
        \<and> (p \<noteq> RegAdd \<longrightarrow> registered b s)
        \<and> (q \<noteq> ShutClose \<longrightarrow> bc_closed b)
        \<and> (p = RegDone \<longrightarrow>
             dropped (bc_heap b s) \<or> q = ShutClose \<or> q = ShutSnapshot \<or> (\<exists>l. q = ShutDrop l \<and> s \<in> set l)))"

lemma register_add_race:
  assumes "index_ok (bc_exact b)" "index_ok (bc_wildcard b)" "\<not> registered b s"
    "sub_kind (bc_heap b s) \<in> {KindExact, KindWildcard}"
  shows "index_ok (bc_exact (register_add s b)) \<and> index_ok (bc_wildcard (register_add s b))
    \<and> registered (register_add s b) s"
proof -
  have "s \<notin> set (exact_Lookup (bc_exact b) k)" "s \<notin> set (wild_Lookup (bc_wildcard b) k)" for k
    using assms(1-3) by (auto simp: registered_def shutdown_subs_def exact.snap_all wild.snap_all)
  then show ?thesis
    using assms(1,2,4) by (auto simp: register_add_eq registered_def shutdown_subs_def
        exact.ok_add wild.ok_add exact.snap_add wild.snap_add)
qed

lemma registered_closed [simp]: "registered (b\<lparr>bc_closed := c\<rparr>) s = registered b s"
  by (simp add: registered_def shutdown_subs_def)

lemma race_inv_step: "race_step s c c' \<Longrightarrow> race_inv s c \<Longrightarrow> race_inv s c'"
proof (induction rule: race_step.induct)
  case (reg_add q b)
  then show ?case
    using register_add_race [of b s] by (auto simp: race_inv_def register_add_eq split: kind.splits)
next
  case (shut_snapshot p b)
  then show ?case by (auto simp: race_inv_def registered_def)
next
  case (shut_drop p t l b)
  then show ?case by (auto simp: race_inv_def drop_sub_def registered_def shutdown_subs_def)
qed (auto simp: race_inv_def register_check_def drop_sub_def registered_def shutdown_subs_def)

text \<open>
  C9: no subscriber survives a shutdown. Whichever way a registration and a shutdown interleave,
  once both are over the subscriber has been dropped: either the snapshot saw it or its
  registration saw the closed flag.
\<close>

theorem shutdown_race:
  assumes "bc_ok b" and "\<not> registered b s" and "sub_kind (bc_heap b s) \<in> {KindExact, KindWildcard}"
    and "(race_step s)\<^sup>*\<^sup>* (RegAdd, ShutClose, b) (RegDone, ShutDone, b')"
  shows "sub_reason (bc_heap b' s) \<noteq> None"
proof -
  have "race_inv s (RegAdd, ShutClose, b)"
    using assms(1-3) by (auto simp: race_inv_def bc_ok_def)
  with assms(4) have "race_inv s (RegDone, ShutDone, b')"
    by (induction rule: rtranclp_induct) (auto intro: race_inv_step)
  then show ?thesis by (simp add: race_inv_def dropped_def)
qed

end
