(* ===== verification/Sse_Stream.thy ===== *)
theory Sse_Stream
  imports Sse_Encoder Sse_Handshake Router_Registry
begin

text \<open>
  \<open>internal/sse/stream.go\<close>: the goroutine that owns a subscriber's response. The router only
  enqueues; this loop writes. Its select cases, the outcome of each write and what the router
  and the refresher do meanwhile (offer a frame, drop the subscriber) are events, so a run is a
  fold and the properties hold for every interleaving of them.
\<close>

subsection \<open>Settings and preamble\<close>

record sse_config =
  sse_Addr :: string
  CORSOrigins :: "string list"
  sse_HeartbeatInterval :: int
  MaxPayloadBytes :: int
  WriteTimeout :: int
  sse_Router :: router_config
  sse_Auth :: auth_config
  MaxHeaderBytes :: int

definition writeSSEHeaders :: "sse_world \<Rightarrow> sse_config \<Rightarrow> http_request \<Rightarrow> response \<Rightarrow> response" where
  "writeSSEHeaders W cfg r w =
     WriteHeader 200
       (set_header ''Transfer-Encoding'' ''identity''
         (set_header ''X-Accel-Buffering'' ''no''
           (set_header ''Cache-Control'' ''no-cache''
             (set_header ''Content-Type'' ''text/event-stream''
               (writeNoSniff (snd (handleCORS (wd_urlParse W) (CORSOrigins cfg) r w)))))))"

text \<open>
  \<open>headersAndPreamble\<close>: the router's subscriber, not tied to the request, and the live grant.
  The method value \<open>authSub.FilterWithLSN\<close> reads the grant through a pointer; the subscriber's
  filter is that method on the current grant, set again by \<open>with_grant\<close> when a refresh swaps it.
\<close>

definition with_grant :: "auth_sub \<Rightarrow> 'f subscriber \<Rightarrow> 'f subscriber" where
  "with_grant s sub = sub\<lparr>sub_Filter := Some (FilterWithLSN s)\<rparr>"

definition headersAndPreamble ::
  "sse_world \<Rightarrow> sse_config \<Rightarrow> string \<Rightarrow> string \<Rightarrow> string \<Rightarrow> kind \<Rightarrow> lsn \<Rightarrow> handshake_result
   \<Rightarrow> http_request \<Rightarrow> response \<Rightarrow> string \<Rightarrow> int \<Rightarrow> 'f subscriber \<times> auth_sub \<times> response"
where
  "headersAndPreamble W cfg tbl pkey channelStr k startLSN hs r w rnd now =
     (let sub = NewSubscriber \<lparr>sc_ID = [], sc_Kind = k, sc_Schema = ''public'', sc_Table = tbl,
                  sc_PK = pkey, sc_StartLSN = startLSN\<rparr> rnd False;
          ttl = wrap_int (DefaultTTLSeconds (sse_Auth cfg) * second_ns);
          authSub = New_auth_sub \<lparr>InitialMap = hs_authMap hs, ac_UserID = hs_userID hs,
                      ac_Channel = channelStr, ac_DefaultTTL = ttl, ac_Backoffs = None\<rparr> now
      in (with_grant authSub sub, authSub, writeSSEHeaders W cfg r w))"

text \<open>The first data frame, from the grant of the handshake.\<close>

definition initial_frame :: "sse_config \<Rightarrow> handshake_result \<Rightarrow> string" where
  "initial_frame cfg hs =
     (case hs_authMap hs of
        None \<Rightarrow> []
      | Some m \<Rightarrow>
          (if 0 < length (InitialData m) then
             (case EncodeInitialData (MaxPayloadBytes cfg) (InitialData m) of
                (frame, overflow) \<Rightarrow>
                  if overflow then [] else (case frame of None \<Rightarrow> [] | Some f \<Rightarrow> f))
           else []))"

subsection \<open>State\<close>

text \<open>What went out: control frames (prelude, initial data, heartbeat, final) and rows.\<close>

datatype item = Ctl string | TxFrame string

fun item_bytes :: "item \<Rightarrow> string" where
  "item_bytes (Ctl f) = f"
| "item_bytes (TxFrame f) = f"

fun is_tx :: "item \<Rightarrow> bool" where
  "is_tx (TxFrame _) = True"
| "is_tx (Ctl _) = False"

record 'f stream =
  st_sub :: "'f subscriber"
  st_out :: "item list"
  st_reason :: string
  st_sent :: nat \<comment> \<open>the counter \<open>EventsSent\<close>\<close>
  st_disconnects :: "string list" \<comment> \<open>increments of \<open>SubscriberDisconnects\<close>\<close>
  st_ended :: bool

text \<open>A write succeeds, or fails after some of its frames, by a timeout or otherwise.\<close>

datatype write_ev = WriteOk | WriteFail nat bool

definition writeFailureReason :: "bool \<Rightarrow> string" where
  "writeFailureReason timeout = (if timeout then ''slow_consumer'' else ''client_closed'')"

definition write_items :: "item list \<Rightarrow> write_ev \<Rightarrow> 'f stream \<Rightarrow> 'f stream" where
  "write_items items ev st =
     (case ev of
        WriteOk \<Rightarrow> st\<lparr>st_out := st_out st @ items\<rparr>
      | WriteFail n _ \<Rightarrow> st\<lparr>st_out := st_out st @ take (min n (length items - 1)) items\<rparr>)"

text \<open>The handler returns; its deferred function counts the disconnect.\<close>

definition end_stream :: "string \<Rightarrow> 'f stream \<Rightarrow> 'f stream" where
  "end_stream reason st =
     st\<lparr>st_reason := reason, st_disconnects := st_disconnects st @ [reason], st_ended := True\<rparr>"

definition fail_write :: "bool \<Rightarrow> 'f stream \<Rightarrow> 'f stream" where
  "fail_write timeout st =
     (let reason = writeFailureReason timeout
      in end_stream reason (st\<lparr>st_sub := Drop reason (st_sub st)\<rparr>))"

definition queue_cap :: "router_config \<Rightarrow> 'f subscriber \<Rightarrow> nat" where
  "queue_cap cfg sub =
     (if sub_kind sub = KindWildcard then nat (WildcardBuffer cfg) else nat (ExactBuffer cfg))"

definition stream_start ::
  "router_config \<Rightarrow> string \<Rightarrow> write_ev \<Rightarrow> 'f subscriber \<Rightarrow> 'f stream" where
  "stream_start cfg initialFrame ev sub =
     (let st = \<lparr>st_sub = WireSendFunc (queue_cap cfg sub) sub, st_out = [], st_reason = ''client_closed'',
                st_sent = 0, st_disconnects = [], st_ended = False\<rparr>;
          st' = write_items [Ctl preludeFrame, Ctl initialFrame] ev st
      in case ev of WriteOk \<Rightarrow> st' | WriteFail _ timeout \<Rightarrow> fail_write timeout st')"

subsection \<open>The loop\<close>

datatype stream_ev =
    EvQueue write_ev | EvHeartbeat write_ev | EvCtxDone | EvSubDone write_ev
  | EnvSend string | EnvDrop string

text \<open>\<open>finish\<close>: the last frame says why; its write may fail.\<close>

definition finish :: "write_ev \<Rightarrow> 'f stream \<Rightarrow> 'f stream" where
  "finish ev st =
     (let reason = Reason (st_sub st) in
      if reason = [] \<or> reason = ''client_closed'' then end_stream ''client_closed'' st
      else if reason = ''shutdown'' then end_stream reason (write_items [Ctl EncodeShutdown] ev st)
      else end_stream reason (write_items [Ctl (EncodeError reason)] ev st))"

definition take_batch :: "nat \<Rightarrow> 'f subscriber \<Rightarrow> string list \<times> 'f subscriber" where
  "take_batch cap sub =
     (case sub_send sub of
        None \<Rightarrow> ([], sub)
      | Some (q, c) \<Rightarrow> (take cap q, sub\<lparr>sub_send := Some (drop cap q, c)\<rparr>))"

text \<open>A case of the select that is not ready is not taken.\<close>

fun stream_step :: "nat \<Rightarrow> stream_ev \<Rightarrow> 'f stream \<Rightarrow> 'f stream" where
  "stream_step cap (EvQueue ev) st =
     (if st_ended st \<or> queue (st_sub st) = [] then st
      else (case take_batch cap (st_sub st) of
              (frames, sub') \<Rightarrow>
                (let st1 = st\<lparr>st_sub := sub'\<rparr> in
                 if sub_done sub' then finish ev st1
                 else
                   (let st2 = write_items (map TxFrame frames) ev st1
                    in case ev of
                         WriteOk \<Rightarrow> st2\<lparr>st_sent := st_sent st2 + length frames\<rparr>
                       | WriteFail _ timeout \<Rightarrow> fail_write timeout st2))))"
| "stream_step cap (EvHeartbeat ev) st =
     (if st_ended st then st
      else (let st1 = write_items [Ctl EncodeHeartbeat] ev st
            in case ev of WriteOk \<Rightarrow> st1 | WriteFail _ timeout \<Rightarrow> fail_write timeout st1))"
| "stream_step cap EvCtxDone st =
     (if st_ended st then st
      else end_stream (st_reason st) (st\<lparr>st_sub := Drop (st_reason st) (st_sub st)\<rparr>))"
| "stream_step cap (EvSubDone ev) st =
     (if st_ended st \<or> \<not> sub_done (st_sub st) then st else finish ev st)"
| "stream_step cap (EnvSend frame) st = st\<lparr>st_sub := snd (Send frame (st_sub st))\<rparr>"
| "stream_step cap (EnvDrop reason) st = st\<lparr>st_sub := Drop reason (st_sub st)\<rparr>"

definition stream_run :: "nat \<Rightarrow> stream_ev list \<Rightarrow> 'f stream \<Rightarrow> 'f stream" where
  "stream_run cap evs st = fold (stream_step cap) evs st"

lemma stream_run_simps [simp]:
  "stream_run cap [] st = st"
  "stream_run cap (ev # evs) st = stream_run cap evs (stream_step cap ev st)"
  "stream_run cap (evs @ evs') st = stream_run cap evs' (stream_run cap evs st)"
  by (simp_all add: stream_run_def)

text \<open>The row frames written so far, and the frames the queue took in a run.\<close>

definition tx_out :: "'f stream \<Rightarrow> string list" where
  "tx_out st = map item_bytes (filter is_tx (st_out st))"

fun accepted :: "nat \<Rightarrow> stream_ev list \<Rightarrow> 'f stream \<Rightarrow> string list" where
  "accepted cap [] st = []"
| "accepted cap (ev # evs) st =
     (case ev of EnvSend frame \<Rightarrow> if fst (Send frame (st_sub st)) then [frame] else [] | _ \<Rightarrow> [])
     @ accepted cap evs (stream_step cap ev st)"

subsection \<open>Facts on the steps\<close>

lemma write_items_sel [simp]:
  "st_sub (write_items xs ev st) = st_sub st" "st_ended (write_items xs ev st) = st_ended st"
  "st_disconnects (write_items xs ev st) = st_disconnects st" "st_sent (write_items xs ev st) = st_sent st"
  "st_reason (write_items xs ev st) = st_reason st"
  by (simp_all add: write_items_def split: write_ev.splits)

lemma end_stream_sel [simp]:
  "st_sub (end_stream r st) = st_sub st" "st_out (end_stream r st) = st_out st"
  "st_ended (end_stream r st)" "st_disconnects (end_stream r st) = st_disconnects st @ [r]"
  "st_sent (end_stream r st) = st_sent st" "st_reason (end_stream r st) = r"
  by (simp_all add: end_stream_def)

lemma fail_write_sel [simp]:
  "st_sub (fail_write t st) = Drop (writeFailureReason t) (st_sub st)" "st_out (fail_write t st) = st_out st"
  "st_ended (fail_write t st)" "st_disconnects (fail_write t st) = st_disconnects st @ [writeFailureReason t]"
  "st_sent (fail_write t st) = st_sent st"
  by (simp_all add: fail_write_def Let_def)

lemma finish_sel [simp]:
  "st_sub (finish ev st) = st_sub st" "st_ended (finish ev st)" "st_sent (finish ev st) = st_sent st"
  by (simp_all add: finish_def Let_def)

lemma tx_out_simps [simp]:
  "tx_out (end_stream r st) = tx_out st" "tx_out (fail_write t st) = tx_out st"
  "tx_out (st\<lparr>st_sub := s\<rparr>) = tx_out st" "tx_out (st\<lparr>st_sent := n\<rparr>) = tx_out st"
  by (simp_all add: tx_out_def)

lemma tx_out_ctl [simp]: "tx_out (write_items [Ctl f] ev st) = tx_out st"
  by (auto simp: tx_out_def write_items_def take_Cons' split: write_ev.splits)

lemma tx_out_write: "tx_out (write_items (map TxFrame fs) ev st) = tx_out st @
    (case ev of WriteOk \<Rightarrow> fs | WriteFail n _ \<Rightarrow> take (min n (length fs - 1)) fs)"
proof -
  have "map item_bytes (filter is_tx (map TxFrame xs)) = xs" for xs by (induction xs) simp_all
  then show ?thesis by (simp add: tx_out_def write_items_def take_map split: write_ev.splits)
qed

lemma tx_out_finish [simp]: "tx_out (finish ev st) = tx_out st"
  by (simp add: finish_def Let_def)

lemma take_batch_queue:
  "take_batch cap sub = (fs, sub') \<Longrightarrow> fs = take cap (queue sub) \<and> queue sub' = drop cap (queue sub)
   \<and> sub_done sub' = sub_done sub \<and> sub_reason sub' = sub_reason sub"
  by (auto simp: take_batch_def queue_def split: option.splits)

lemma Send_accept: "queue (snd (Send f sub)) = queue sub @ (if fst (Send f sub) then [f] else [])"
  by (auto simp: queue_def Send_def split: option.splits)

lemma Send_frame [simp]:
  "sub_done (snd (Send f sub)) = sub_done sub" "sub_reason (snd (Send f sub)) = sub_reason sub"
  by (auto simp: Send_def split: option.splits)

lemma Drop_done_mono: "sub_done sub \<Longrightarrow> sub_done (Drop r sub)"
  by (simp add: Drop_def)

lemma WriteFail_prefix: "prefix (case ev of WriteOk \<Rightarrow> fs | WriteFail n _ \<Rightarrow> take (min n (length fs - 1)) fs) fs"
  by (cases ev) (auto simp: take_is_prefix)

definition in_order :: "string list \<Rightarrow> 'f stream \<Rightarrow> bool" where
  "in_order fs st \<longleftrightarrow>
     (\<not> st_ended st \<longrightarrow> tx_out st @ queue (st_sub st) = fs) \<and> prefix (tx_out st) fs"

definition accepts :: "stream_ev \<Rightarrow> 'f stream \<Rightarrow> string list" where
  "accepts ev st = (case ev of EnvSend f \<Rightarrow> if fst (Send f (st_sub st)) then [f] else [] | _ \<Rightarrow> [])"

lemma in_order_step:
  assumes "in_order fs st"
  shows "in_order (fs @ accepts ev st) (stream_step cap ev st)"
proof (cases ev)
  case (EvQueue w)
  show ?thesis
  proof (cases "st_ended st \<or> queue (st_sub st) = []")
    case True
    with assms EvQueue show ?thesis by (auto simp: accepts_def)
  next
    case False
    obtain frames sub' where b: "take_batch cap (st_sub st) = (frames, sub')" by fastforce
    note q = take_batch_queue [OF b]
    let ?st1 = "st\<lparr>st_sub := sub'\<rparr>"
    have fs: "fs = tx_out st @ frames @ queue sub'"
      using assms False q by (auto simp: in_order_def)
    show ?thesis
    proof (cases "sub_done sub'")
      case True
      with False b EvQueue assms show ?thesis by (simp add: accepts_def in_order_def Let_def)
    next
      case running: False
      have "tx_out (write_items (map TxFrame frames) w ?st1) =
          tx_out st @ (case w of WriteOk \<Rightarrow> frames | WriteFail n _ \<Rightarrow> take (min n (length frames - 1)) frames)"
        by (simp add: tx_out_write)
      moreover have "prefix (tx_out st @ (case w of WriteOk \<Rightarrow> frames
          | WriteFail n _ \<Rightarrow> take (min n (length frames - 1)) frames)) fs"
        unfolding fs using prefix_prefix [OF WriteFail_prefix [of frames w], of "queue sub'"] by simp
      ultimately show ?thesis
        using False b running EvQueue fs by (auto simp: accepts_def in_order_def Let_def split: write_ev.splits)
    qed
  qed
next
  case (EnvSend f)
  with assms show ?thesis by (auto simp: accepts_def in_order_def Send_accept)
qed (use assms in \<open>auto simp: accepts_def in_order_def Let_def split: write_ev.splits\<close>)

lemma in_order_run: "in_order fs st \<Longrightarrow> in_order (fs @ accepted cap evs st) (stream_run cap evs st)"
proof (induction evs arbitrary: fs st)
  case (Cons ev evs)
  have "accepted cap (ev # evs) st = accepts ev st @ accepted cap evs (stream_step cap ev st)"
    by (simp add: accepts_def)
  with Cons.IH [OF in_order_step [OF Cons.prems, of ev cap]] show ?case by simp
qed simp

text \<open>
  C13: rows go out in the order the router offered them, each once, and only what was accepted:
  while the stream runs, the rows written and the rows queued together are exactly the frames
  the queue took; when it ends, what was written is still a prefix of them.
\<close>

theorem stream_fifo:
  assumes "\<not> st_ended st" and "queue (st_sub st) = []"
  shows "if st_ended (stream_run cap evs st)
    then prefix (tx_out (stream_run cap evs st)) (tx_out st @ accepted cap evs st)
    else tx_out (stream_run cap evs st) @ queue (st_sub (stream_run cap evs st))
      = tx_out st @ accepted cap evs st"
proof -
  have "in_order (tx_out st) st" using assms by (simp add: in_order_def)
  from in_order_run [OF this, of cap evs]
  show ?thesis by (auto simp: in_order_def)
qed

lemma done_step:
  assumes "sub_done (st_sub st)"
  shows "sub_done (st_sub (stream_step cap ev st))" and "tx_out (stream_step cap ev st) = tx_out st"
proof -
  have "sub_done (st_sub (stream_step cap ev st)) \<and> tx_out (stream_step cap ev st) = tx_out st"
  proof (cases ev)
    case (EvQueue w)
    obtain frames sub' where b: "take_batch cap (st_sub st) = (frames, sub')" by fastforce
    with take_batch_queue [OF b] assms EvQueue show ?thesis by (simp add: Let_def)
  qed (use assms in \<open>auto simp: Let_def Drop_done_mono split: write_ev.splits\<close>)
  then show "sub_done (st_sub (stream_step cap ev st))" "tx_out (stream_step cap ev st) = tx_out st"
    by simp_all
qed


text \<open>The bookkeeping of a run.\<close>

definition stream_ok :: "'f stream \<Rightarrow> bool" where
  "stream_ok st \<longleftrightarrow>
     (if st_ended st then st_disconnects st = [st_reason st] \<and> st_sent st \<le> length (tx_out st)
      else st_disconnects st = [] \<and> st_sent st = length (tx_out st) \<and> st_reason st = ''client_closed'')"

lemma stream_ok_finish: "stream_ok st \<Longrightarrow> \<not> st_ended st \<Longrightarrow> stream_ok (finish ev st)"
  by (simp add: stream_ok_def finish_def Let_def)

lemma stream_ok_fail:
  "stream_ok st \<Longrightarrow> \<not> st_ended st \<Longrightarrow> length (tx_out st) \<le> length (tx_out st') \<Longrightarrow>
   st_disconnects st' = st_disconnects st \<Longrightarrow> st_sent st' = st_sent st \<Longrightarrow> stream_ok (fail_write t st')"
  by (simp add: stream_ok_def fail_write_def Let_def)

lemma stream_ok_step: "stream_ok st \<Longrightarrow> stream_ok (stream_step cap ev st)"
proof (cases ev)
  case (EvQueue w)
  assume ok: "stream_ok st"
  show ?thesis
  proof (cases "st_ended st \<or> queue (st_sub st) = []")
    case False
    obtain frames sub' where b: "take_batch cap (st_sub st) = (frames, sub')" by fastforce
    let ?st1 = "st\<lparr>st_sub := sub'\<rparr>"
    have ok1: "stream_ok ?st1" using ok by (simp add: stream_ok_def)
    show ?thesis
    proof (cases w)
      case WriteOk
      then show ?thesis
        using False b EvQueue ok1 stream_ok_finish [OF ok1]
        by (auto simp: Let_def stream_ok_def tx_out_write)
    next
      case (WriteFail n t)
      have "stream_ok (fail_write t (write_items (map TxFrame frames) w ?st1))"
        using False by (intro stream_ok_fail [OF ok1]) (auto simp: tx_out_write)
      then show ?thesis
        using False b EvQueue WriteFail stream_ok_finish [OF ok1] by (auto simp: Let_def)
    qed
  qed (use ok EvQueue in simp)
next
  case (EvHeartbeat w)
  assume ok: "stream_ok st"
  show ?thesis
  proof (cases w)
    case WriteOk
    with ok EvHeartbeat show ?thesis by (auto simp: Let_def stream_ok_def)
  next
    case (WriteFail n t)
    have "stream_ok (fail_write t (write_items [Ctl EncodeHeartbeat] w st))" if "\<not> st_ended st"
      using that by (intro stream_ok_fail [OF ok]) auto
    with ok EvHeartbeat WriteFail show ?thesis by (auto simp: Let_def)
  qed
next
  case (EvSubDone w)
  assume "stream_ok st"
  with EvSubDone stream_ok_finish show ?thesis by auto
qed (auto simp: stream_ok_def)

lemma stream_ok_start: "stream_ok (stream_start cfg f ev sub)"
  by (cases ev) (auto simp: stream_start_def Let_def stream_ok_def write_items_def fail_write_def tx_out_def
      end_stream_def take_Cons')

text \<open>
  Every stream is accounted for once. However a stream runs from its start, a disconnect is
  counted exactly when it has ended, exactly once and under the reason it ended with, and the
  counter of events equals the rows written while it runs.
\<close>

lemma stream_counted_once:
  shows "let st = stream_run cap evs (stream_start cfg f ev sub) in
    if st_ended st then st_disconnects st = [st_reason st] \<and> st_sent st \<le> length (tx_out st)
    else st_disconnects st = [] \<and> st_sent st = length (tx_out st)"
proof -
  have "stream_ok st \<Longrightarrow> stream_ok (stream_run cap evs st)" for st :: "'a stream"
    by (induction evs arbitrary: st) (simp_all add: stream_ok_step)
  from this [OF stream_ok_start] show ?thesis
    by (auto simp: Let_def stream_ok_def)
qed

text \<open>
  A dropped client is told why. When the loop sees the drop and the write succeeds, the last
  frame is the shutdown frame or the error frame with the reason of the first drop, and the
  disconnect is counted under that reason.
\<close>

lemma drop_is_reported:
  assumes "\<not> st_ended st" and "sub_done (st_sub st)" and "sub_reason (st_sub st) = Some reason"
    and "reason \<noteq> []" and "reason \<noteq> ''client_closed''"
  shows "st_out (stream_step cap (EvSubDone WriteOk) st) =
      st_out st @ [Ctl (if reason = ''shutdown'' then EncodeShutdown else EncodeError reason)] \<and>
    st_disconnects (stream_step cap (EvSubDone WriteOk) st) = st_disconnects st @ [reason] \<and>
    st_ended (stream_step cap (EvSubDone WriteOk) st)"
  using assms by (simp_all add: finish_def Let_def Reason_def write_items_def)

subsection \<open>Bytes on the wire\<close>

definition items_ok :: "'f stream \<Rightarrow> bool" where
  "items_ok st \<longleftrightarrow>
     list_all (\<lambda>i. item_bytes i = [] \<or> one_event (item_bytes i)) (st_out st)
     \<and> list_all one_event (queue (st_sub st))"

lemma items_ok_write:
  "items_ok st \<Longrightarrow> list_all (\<lambda>i. item_bytes i = [] \<or> one_event (item_bytes i)) xs \<Longrightarrow>
   items_ok (write_items xs ev st)"
  by (auto simp: items_ok_def write_items_def list_all_iff dest: in_set_takeD split: write_ev.splits)

lemma items_ok_end [simp]: "items_ok (end_stream r st) = items_ok st" "items_ok (fail_write t st) = items_ok st"
  by (simp_all add: items_ok_def)

lemma items_ok_finish: "items_ok st \<Longrightarrow> items_ok (finish ev st)"
  by (simp add: finish_def Let_def items_ok_write shutdown_event EncodeError_event)

lemma items_ok_step:
  assumes "items_ok st" and "\<And>f. ev = EnvSend f \<Longrightarrow> one_event f"
  shows "items_ok (stream_step cap ev st)"
proof (cases ev)
  case (EvQueue w)
  obtain frames sub' where b: "take_batch cap (st_sub st) = (frames, sub')" by fastforce
  have fr: "list_all one_event frames" and ok1: "items_ok (st\<lparr>st_sub := sub'\<rparr>)"
    using take_batch_queue [OF b] assms(1)
    by (auto simp: items_ok_def list_all_iff dest: in_set_takeD in_set_dropD)
  have w: "items_ok (write_items (map TxFrame frames) w (st\<lparr>st_sub := sub'\<rparr>))"
    using fr by (intro items_ok_write [OF ok1]) (auto simp: list_all_iff)
  then have "items_ok ((write_items (map TxFrame frames) w (st\<lparr>st_sub := sub'\<rparr>))\<lparr>st_sent := n\<rparr>)" for n
    by (simp add: items_ok_def)
  with w assms(1) b EvQueue items_ok_finish [OF ok1] show ?thesis
    by (auto simp: Let_def split: write_ev.splits)
next
  case (EvHeartbeat w)
  have "items_ok (write_items [Ctl EncodeHeartbeat] w st)"
    using assms(1) by (intro items_ok_write) (simp_all add: heartbeat_event)
  with assms(1) EvHeartbeat show ?thesis by (auto simp: Let_def split: write_ev.splits)
next
  case (EvSubDone w)
  with assms(1) items_ok_finish show ?thesis by auto
next
  case (EnvSend f)
  with assms show ?thesis by (auto simp: items_ok_def Send_accept)
qed (use assms(1) in \<open>auto simp: items_ok_def\<close>)

lemma items_ok_start:
  assumes "f = [] \<or> one_event f"
  shows "items_ok (stream_start cfg f ev sub)"
proof -
  have "items_ok \<lparr>st_sub = WireSendFunc c sub, st_out = [], st_reason = r, st_sent = 0, st_disconnects = [], st_ended = False\<rparr>"
    for c r by (simp add: items_ok_def WireSendFunc_def queue_def)
  from items_ok_write [OF this, of "[Ctl preludeFrame, Ctl f]" ev] assms show ?thesis
    by (auto simp: stream_start_def Let_def prelude_event split: write_ev.splits)
qed

lemma initial_frame_ok: "initial_frame cfg hs = [] \<or> one_event (initial_frame cfg hs)"
  by (auto simp: initial_frame_def EncodeInitialData_event split: option.splits prod.splits)


end
