(* ===== verification/Pipeline.thy ===== *)
theory Pipeline
  imports Wal_Assembly Sse_Stream
begin

text \<open>
  From the replication stream to the client: \<open>reader.Run\<close> sends transactions on the channel,
  \<open>Broadcaster.Ingest\<close> takes them from it and routes each to the subscribers, the encoder writes
  the frame that a subscriber's queue holds for its stream. This theory composes the results on
  the reader, the router, the grants and the encoder.
\<close>

subsection \<open>What a subscriber wants\<close>

text \<open>\<open>concerns\<close> less what changes while a subscriber lives.\<close>

definition wants :: "'f subscriber \<Rightarrow> 'f row_filter_fn \<Rightarrow> ('f, 't) tx \<Rightarrow> bool" where
  "wants sub flt tx \<longleftrightarrow>
     sub_startLSN sub < CommitLSN tx
     \<and> \<not> (sub_kind sub = KindExact \<and> hasMultipleAnchorRoots tx (sub_schema sub) (sub_table sub))
     \<and> anchor_granted sub flt tx"

lemma concerns_wants:
  "sub_Filter sub = Some flt \<Longrightarrow> concerns tx sub flt' \<longleftrightarrow> flt' = flt \<and> \<not> sub_done sub \<and> wants sub flt tx"
  by (auto simp: concerns_def wants_def)

text \<open>The fields of a subscriber that routing never changes.\<close>

definition same_sub :: "'f subscriber \<Rightarrow> 'f subscriber \<Rightarrow> bool" where
  "same_sub sub sub' \<longleftrightarrow>
     sub_kind sub' = sub_kind sub \<and> sub_schema sub' = sub_schema sub \<and> sub_table sub' = sub_table sub
     \<and> sub_pk sub' = sub_pk sub \<and> sub_startLSN sub' = sub_startLSN sub \<and> sub_Filter sub' = sub_Filter sub"

lemma same_sub_refl [simp]: "same_sub sub sub"
  by (simp add: same_sub_def)

lemma same_sub_trans: "same_sub a b \<Longrightarrow> same_sub b c \<Longrightarrow> same_sub a c"
  by (simp add: same_sub_def)

lemma same_sub_granted: "same_sub sub sub' \<Longrightarrow> granted sub' = granted sub"
  by (simp add: same_sub_def granted_def fun_eq_iff)

lemma same_sub_matches: "same_sub sub sub' \<Longrightarrow> matchesAnchor sub' = matchesAnchor sub"
  by (auto simp: same_sub_def matchesAnchor_def fun_eq_iff split: kind.splits)

lemma same_sub_wants: "same_sub sub sub' \<Longrightarrow> wants sub' = wants sub"
  using same_sub_matches [of sub sub'] by (simp add: same_sub_def wants_def anchor_granted_def fun_eq_iff)

lemma same_sub_event: "same_sub sub sub' \<Longrightarrow> sub_event sub' = sub_event sub"
  by (simp add: sub_event_def same_sub_granted fun_eq_iff)

text \<open>A subscriber that was given a reason is done (\<open>Drop\<close> sets both).\<close>

definition drop_ok :: "'f subscriber \<Rightarrow> bool" where
  "drop_ok sub \<longleftrightarrow> (sub_reason sub \<noteq> None \<longrightarrow> sub_done sub)"

subsection \<open>Routing a sequence of transactions\<close>

text \<open>An encoder that renders each event it does not refuse in one way.\<close>

locale event_encoder =
  fixes enc :: "('f, 't) event \<Rightarrow> string \<times> bool"
    and render :: "('f, 't) event \<Rightarrow> string"
  assumes enc_render: "enc ev = (frame, False) \<Longrightarrow> frame = render ev"
begin

lemma dispatch_delivers:
  assumes "sub_Filter sub = Some flt" and "drop_ok sub" and "sub' = dispatch cfg enc tx sub"
  shows "same_sub sub sub'" and "drop_ok sub'"
    and "\<not> sub_done sub' \<Longrightarrow> \<not> sub_done sub \<and>
      queue sub' = queue sub @ (if wants sub flt tx then [render (sub_event sub flt tx)] else [])"
    and "sub_done sub' \<Longrightarrow> queue sub' = queue sub"
proof -
  note w = concerns_wants [OF assms(1)]
  have drop: "drop_ok (Drop reason sub) \<and> sub_done (Drop reason sub)" for reason
    using assms(2) by (auto simp: Drop_def drop_ok_def)
  have send: "sub_done (snd (Send f sub)) = sub_done sub" "drop_ok (snd (Send f sub)) = drop_ok sub" for f
    by (auto simp: Send_def drop_ok_def split: option.splits)
  show "same_sub sub sub'" by (simp add: same_sub_def assms(3))
  show "drop_ok sub'"
    using assms(2) drop send(2) by (cases rule: dispatch_cases [of tx sub cfg enc]) (auto simp: assms(3))
  show "\<not> sub_done sub' \<Longrightarrow> \<not> sub_done sub \<and>
      queue sub' = queue sub @ (if wants sub flt tx then [render (sub_event sub flt tx)] else [])"
    using drop by (cases rule: dispatch_cases [of tx sub cfg enc])
      (auto simp: assms(3) w queue_Send send(1) dest: enc_render)
  show "sub_done sub' \<Longrightarrow> queue sub' = queue sub"
    by (cases rule: dispatch_cases [of tx sub cfg enc]) (auto simp: assms(3) w queue_Send send(1))
qed

lemma route_delivers:
  fixes order :: "sid list \<Rightarrow> sid list" and tx :: "('f, 't) tx"
  assumes "\<And>l. mset (order l) = mset l" and "bc_ok b" and "registered b s"
    and "sub_Filter (bc_heap b s) = Some flt" and "drop_ok (bc_heap b s)"
  defines "sub \<equiv> bc_heap b s" and "sub' \<equiv> bc_heap (routeTx enc order tx b) s"
  shows "same_sub sub sub'" and "drop_ok sub'"
    and "\<not> sub_done sub' \<Longrightarrow> \<not> sub_done sub \<and>
      queue sub' = queue sub @ (if wants sub flt tx then [render (sub_event sub flt tx)] else [])"
    and "sub_done sub' \<Longrightarrow> queue sub' = queue sub"
proof -
  have f: "sub_Filter sub = Some flt" by (simp add: sub_def assms(4))
  have eq: "sub' = (if eligible b tx s then dispatch (bc_cfg b) enc tx sub else sub)"
    by (simp add: sub'_def sub_def routeTx_eq [OF assms(1)])
  have el: "wants sub flt tx \<Longrightarrow> eligible b tx s"
    using anchor_eligible [OF assms(2,3)] unfolding wants_def sub_def by blast
  have ok: "drop_ok sub" by (simp add: sub_def assms(5))
  note d = dispatch_delivers [OF f ok refl, of "bc_cfg b" tx]
  show "same_sub sub sub'" "drop_ok sub'" using d(1,2) ok by (simp_all add: eq)
  show "\<not> sub_done sub' \<Longrightarrow> \<not> sub_done sub \<and>
      queue sub' = queue sub @ (if wants sub flt tx then [render (sub_event sub flt tx)] else [])"
    using d(3) el by (auto simp: eq split: if_splits)
  show "sub_done sub' \<Longrightarrow> queue sub' = queue sub"
    using d(4) by (auto simp: eq split: if_splits)
qed

text \<open>
  Routing a sequence of transactions queues the frames of the wanted ones in order, all of them
  unless the subscriber is dropped, and then an initial part of them.
\<close>

lemma Ingest_delivers:
  assumes order: "\<And>l. mset (order l) = mset l"
  shows "Ingest enc order (map IngestTx txs) b = (res, b') \<Longrightarrow> bc_ok b \<Longrightarrow> registered b s \<Longrightarrow>
    sub_Filter (bc_heap b s) = Some flt \<Longrightarrow> drop_ok (bc_heap b s) \<Longrightarrow>
    \<exists>ws. prefix ws (filter (wants (bc_heap b s) flt) txs)
      \<and> (\<not> sub_done (bc_heap b' s) \<longrightarrow> \<not> sub_done (bc_heap b s) \<and> ws = filter (wants (bc_heap b s) flt) txs)
      \<and> (sub_done (bc_heap b s) \<longrightarrow> ws = [])
      \<and> queue (bc_heap b' s) = queue (bc_heap b s) @ map (\<lambda>tx. render (sub_event (bc_heap b s) flt tx)) ws"
proof (induction txs arbitrary: b)
  case (Cons tx txs)
  let ?b = "routeTx enc order tx b"
  let ?sub = "bc_heap b s" and ?mid = "bc_heap ?b s"
  note r = route_delivers [OF order Cons.prems(2-5), of tx]
  have reg: "registered ?b s"
    using Cons.prems(3) by (simp add: routeTx_eq [OF order] registered_def shutdown_subs_def)
  have flt: "sub_Filter ?mid = Some flt" using r(1) Cons.prems(4) by (simp add: same_sub_def)
  from Cons.IH [OF _ routeTx_ok [OF order Cons.prems(2)] reg flt r(2)] Cons.prems(1)
  obtain ws where ws: "prefix ws (filter (wants ?mid flt) txs)"
    "\<not> sub_done (bc_heap b' s) \<longrightarrow> \<not> sub_done ?mid \<and> ws = filter (wants ?mid flt) txs"
    "sub_done ?mid \<longrightarrow> ws = []"
    "queue (bc_heap b' s) = queue ?mid @ map (\<lambda>tx. render (sub_event ?mid flt tx)) ws" by auto
  note same = same_sub_wants [OF r(1)] same_sub_event [OF r(1)]
  show ?case
  proof (cases "sub_done ?mid")
    case True
    with ws r(4) show ?thesis by (intro exI [of _ "[]"]) auto
  next
    case False
    with ws r(3) show ?thesis unfolding same
      by (intro exI [of _ "(if wants ?sub flt tx then [tx] else []) @ ws"]) auto
  qed
qed auto

end

interpretation sse_frames: event_encoder "Encode L cap" "\<lambda>ev. frame_of (tx_lines L ev)" for L cap
  by unfold_locales (rule Encode_lines)

subsection \<open>End to end\<close>


end
