(* ===== verification/Scenario.thy ===== *)
theory Scenario
  imports Wal_Assembly Sse_Stream
begin

text \<open>
  One concrete deployment on which the properties of the reader, the router and the streams are
  instantiated: a table \<open>public.accounts\<close> with key \<open>id\<close>, a transaction that inserts the row with
  key 7, a client subscribed to that row whose grant allows the columns \<open>id\<close> and \<open>name\<close>. Floats
  are optional integers, \<open>None\<close> standing for NaN; times are their texts.
\<close>

subsection \<open>The data\<close>

definition ex_lib :: "(int option, string) go_lib" where
  "ex_lib =
     \<lparr>ParseFloat = (\<lambda>s. if s = ''NaN'' then Some None else map_option Some (atoi s)),
      float_neg = map_option uminus, float_int = (\<lambda>f. case f of None \<Rightarrow> 0 | Some n \<Rightarrow> n),
      float_of_int = Some, float_eq = (\<lambda>x y. x \<noteq> None \<and> x = y),
      float_fmt_g = (\<lambda>f. case f of None \<Rightarrow> ''NaN'' | Some n \<Rightarrow> itoa n),
      float_json = map_option itoa, time_parse = (\<lambda>layout s. Some s),
      time_civil_utc = (\<lambda>t. t), time_rfc3339 = (\<lambda>t. t)\<rparr>"

definition ex_change :: "int option change" where
  "ex_change =
     \<lparr>Schema = ''public'', Table = ''accounts'', Op = OpInsert, PK = ''7'', PKCol = ''id'',
      Data = Some [(''id'', GInt 7), (''name'', GStr ''ann''), (''iban'', GStr ''x'')], Changed = None\<rparr>"

definition ex_tx :: "(int option, string) tx" where
  "ex_tx = \<lparr>ID = 5, CommitLSN = 100, CommitTS = ''2026-01-01T00:00:00Z'', Changes = [ex_change]\<rparr>"

definition ex_grant :: whitelist where
  "ex_grant =
     \<lparr>UserID = ''u1'', wl_Tables = [(''accounts'', [''id'', ''name''])], TTLSeconds = 60,
      RefreshLSN = 0, InitialData = []\<rparr>"

definition ex_auth :: auth_sub where
  "ex_auth = New_auth_sub \<lparr>InitialMap = Some ex_grant, ac_UserID = [], ac_Channel = ''accounts:7'',
     ac_DefaultTTL = 60 * second_ns, ac_Backoffs = None\<rparr> 0"

definition ex_sub :: "int option subscriber" where
  "ex_sub = with_grant ex_auth (WireSendFunc 4 (NewSubscriber
     \<lparr>sc_ID = ''s1'', sc_Kind = KindExact, sc_Schema = ''public'', sc_Table = ''accounts'',
      sc_PK = ''7'', sc_StartLSN = 10\<rparr> [] False))"

definition ex_new :: "int option broadcaster" where
  "ex_new = New_broadcaster router_Defaults (\<lambda>_. ex_sub)"

definition ex_bc :: "int option broadcaster" where
  "ex_bc = Register 0 ex_new"

text \<open>An encoder that names the transaction.\<close>

definition ex_enc :: "(int option, string) encode_fn" where
  "ex_enc ev = (itoa (uint (ID (ev_Tx ev))), False)"

lemma ex_sub_sel [simp]:
  "sub_kind ex_sub = KindExact" "sub_schema ex_sub = ''public''" "sub_table ex_sub = ''accounts''"
  "sub_pk ex_sub = ''7''" "sub_startLSN ex_sub = 10" "sub_done ex_sub = False"
  "sub_reason ex_sub = None" "sub_send ex_sub = Some ([], 4)"
  "sub_Filter ex_sub = Some (FilterWithLSN ex_auth)" "queue ex_sub = []" "can_send ex_sub"
  by (simp_all add: ex_sub_def with_grant_def WireSendFunc_def NewSubscriber_def queue_def can_send_def)

lemma ex_change_sel [simp]:
  "Schema ex_change = ''public''" "Table ex_change = ''accounts''" "Op ex_change = OpInsert"
  "PK ex_change = ''7''" "PKCol ex_change = ''id''"
  "Data ex_change = Some [(''id'', GInt 7), (''name'', GStr ''ann''), (''iban'', GStr ''x'')]"
  "Changed ex_change = None"
  by (simp_all add: ex_change_def)

lemma ex_tx_sel [simp]:
  "ID ex_tx = 5" "CommitLSN ex_tx = 100" "Changes ex_tx = [ex_change]"
  by (simp_all add: ex_tx_def)

lemma ex_filter: "FilterWithLSN ex_auth ex_change 100 =
    (ex_change\<lparr>Data := Some [(''id'', GInt 7), (''name'', GStr ''ann'')]\<rparr>, False)"
  by (simp add: FilterWithLSN_def ex_auth_def New_auth_sub_def ex_grant_def Filter_def map_or_empty_def)

lemma ex_granted: "granted ex_sub (FilterWithLSN ex_auth) ex_tx =
    [ex_change\<lparr>Data := Some [(''id'', GInt 7), (''name'', GStr ''ann'')]\<rparr>]"
  by (simp add: granted_def ex_filter)

lemma ex_concerns: "concerns ex_tx ex_sub (FilterWithLSN ex_auth)"
  by (simp add: concerns_def hasMultipleAnchorRoots_def anchor_granted_def matchesAnchor_def ex_filter)

lemma ex_new_ok: "bc_ok ex_new" "\<not> registered ex_new 0" "bc_heap ex_new s = ex_sub"
  unfolding ex_new_def
  by (rule bc_ok_New)
     (simp_all add: registered_def shutdown_subs_def New_broadcaster_def
      exact_Snapshot_def wild_Snapshot_def newIndex_def newWildcardIndex_def)

lemma ex_bc_eq:
  "ex_bc = ex_new\<lparr>bc_exact := [(''public.accounts:7'', [0])], active_exact := 1\<rparr>"
  by (simp add: ex_bc_def Register_def register_add_def register_check_def Let_def ex_new_def
      New_broadcaster_def exact_Add_def newIndex_def entries_def)

lemma ex_bc_ok: "bc_ok ex_bc" "registered ex_bc 0" "bc_heap ex_bc s = ex_sub" "bc_cfg ex_bc = router_Defaults"
proof -
  show "bc_ok ex_bc" unfolding ex_bc_def Register_def
    by (rule register_check_ok [OF register_add_ok [OF ex_new_ok(1,2)]])
  show "registered ex_bc 0"
    unfolding ex_bc_def by (subst registered_Register [OF ex_new_ok(1,2)]) (simp_all add: ex_new_ok(3))
  show "bc_heap ex_bc s = ex_sub" by (simp add: ex_bc_eq ex_new_ok(3))
  show "bc_cfg ex_bc = router_Defaults" by (simp add: ex_bc_eq ex_new_def New_broadcaster_def)
qed

lemma ex_itoa: "itoa 5 = ''5''"
  by code_simp

lemma ex_queue: "queue (bc_heap (routeTx ex_enc id ex_tx ex_bc) 0) = [''5'']"
proof -
  have "mergeMatches ex_bc [ex_change] [] = [0]"
    by (simp add: ex_bc_eq Let_def exact_Lookup_def wild_Lookup_def entries_def Key_def WildcardKey_def
        ex_new_def New_broadcaster_def newWildcardIndex_def)
  then show ?thesis
    by (simp add: routeTx_def dispatch_to_def ex_bc_ok dispatchEvent_def hasMultipleAnchorRoots_def
        matchesAnchor_def ex_filter router_Defaults_def ex_enc_def Send_def queue_def ex_itoa)
qed

subsection \<open>The router\<close>

theorem routeTx_order_independent_witness:
  "routeTx ex_enc (\<lambda>l. l) ex_tx ex_bc = routeTx ex_enc rev ex_tx ex_bc"
  by (rule routeTx_order_independent) simp_all

theorem routeTx_sound_witness:
  "\<exists>frame. queue (bc_heap (routeTx ex_enc id ex_tx ex_bc) 0) = queue (bc_heap ex_bc 0) @ [frame]
    \<and> sub_startLSN (bc_heap ex_bc 0) < CommitLSN ex_tx"
proof -
  have "queue (bc_heap (routeTx ex_enc id ex_tx ex_bc) 0) \<noteq> queue (bc_heap ex_bc 0)"
    by (simp add: ex_queue ex_bc_ok)
  from routeTx_sound [OF _ this] show ?thesis by (auto simp: Let_def)
qed

theorem routeTx_complete_witness:
  "queue (bc_heap (routeTx ex_enc id ex_tx ex_bc) 0) = [''5''] \<and>
   \<not> sub_done (bc_heap (routeTx ex_enc id ex_tx ex_bc) 0)"
proof -
  have "queue (bc_heap (routeTx ex_enc id ex_tx ex_bc) 0) = queue (bc_heap ex_bc 0) @ [''5''] \<and>
    (sub_done (bc_heap (routeTx ex_enc id ex_tx ex_bc) 0) \<longleftrightarrow> sub_done (bc_heap ex_bc 0))"
    by (rule routeTx_complete [where flt = "FilterWithLSN ex_auth"])
       (simp_all add: ex_bc_ok ex_concerns ex_granted router_Defaults_def ex_enc_def sub_event_def ex_itoa)
  then show ?thesis by (simp add: ex_bc_ok)
qed


theorem shutdown_race_witness:
  "\<exists>b'. (race_step 0)\<^sup>*\<^sup>* (RegAdd, ShutClose, ex_new) (RegDone, ShutDone, b') \<and>
     sub_reason (bc_heap b' 0) \<noteq> None"
proof -
  let ?b = "ex_bc\<lparr>bc_closed := True\<rparr>"
  have reg: "register_check 0 (register_add 0 ex_new) = ex_bc" by (simp add: ex_bc_def Register_def)
  have subs: "shutdown_subs ?b = [0]"
    by (simp add: ex_bc_eq shutdown_subs_def exact_Snapshot_def wild_Snapshot_def ex_new_def
        New_broadcaster_def newWildcardIndex_def)
  note step = converse_rtranclp_into_rtranclp [where r = "race_step 0"]
  have path: "(race_step 0)\<^sup>*\<^sup>* (RegAdd, ShutClose, ex_new)
      (RegDone, ShutDone, drop_sub ''shutdown'' 0 ?b)"
    by (rule step [OF race_step.reg_add], rule step [OF race_step.reg_check], unfold reg,
        rule step [OF race_step.shut_close], rule step [OF race_step.shut_snapshot], unfold subs,
        rule step [OF race_step.shut_drop], rule r_into_rtranclp, rule race_step.shut_done)
  have "sub_kind (bc_heap ex_new 0) \<in> {KindExact, KindWildcard}" by (simp add: ex_new_ok(3))
  from path shutdown_race [OF ex_new_ok(1,2) this path] show ?thesis by blast
qed

subsection \<open>Frames\<close>

lemma ex_float_text: "float_text ex_lib"
  by (auto simp: float_text_def ex_lib_def)

definition ex_ev :: "(int option, string) event" where
  "ex_ev = sub_event ex_sub (FilterWithLSN ex_auth) ex_tx"

lemma Encode_uncapped: "Encode L 0 ev = (fst (Encode L 0 ev), False)"
  by (simp add: Encode_def Let_def)

theorem stream_parses_back_witness:
  "sse_events (concat [fst (Encode ex_lib 0 ex_ev), fst (Encode ex_lib 0 ex_ev)])
     = [tx_lines ex_lib ex_ev, tx_lines ex_lib ex_ev]"
proof -
  have "list_all2 (\<lambda>ev f. Encode ex_lib 0 ev = (f, False)) [ex_ev, ex_ev]
      [fst (Encode ex_lib 0 ex_ev), fst (Encode ex_lib 0 ex_ev)]"
    by (simp flip: Encode_uncapped)
  from stream_parses_back [OF ex_float_text this] show ?thesis by simp
qed

theorem queued_frames_ok_witness:
  "list_all (\<lambda>f. one_event f \<and> int (length f) \<le> 1000)
     (queue (bc_heap (snd (Ingest (Encode ex_lib 1000) id [IngestTx ex_tx, IngestClosed] ex_bc)) 0))"
  by (rule queued_frames_ok [where order = id and L = ex_lib and b = ex_bc
        and evs = "[IngestTx ex_tx, IngestClosed]" and res = "Some True"])
     (simp_all add: ex_float_text ex_bc_ok)

text \<open>The same transaction with a NaN in the row's key column.\<close>

definition ex_nan_tx :: "(int option, string) tx" where
  "ex_nan_tx = ex_tx\<lparr>Changes := [ex_change\<lparr>Data := Some [(''id'', GFloat None)]\<rparr>]\<rparr>"


subsection \<open>The stream\<close>

definition ex_st :: "int option stream" where
  "ex_st = stream_start router_Defaults [] WriteOk ex_sub"

lemma ex_st_sel:
  "\<not> st_ended ex_st" "queue (st_sub ex_st) = []" "st_sub ex_st = ex_sub\<lparr>sub_send := Some ([], 64)\<rparr>"
  by (simp_all add: ex_st_def stream_start_def Let_def write_items_def WireSendFunc_def queue_cap_def
      router_Defaults_def queue_def)

definition ex_dropped :: "int option stream" where
  "ex_dropped = stream_step 64 (EnvDrop ''auth_revoked'') ex_st"

lemma ex_dropped_sel:
  "\<not> st_ended ex_dropped" "sub_done (st_sub ex_dropped)" "sub_reason (st_sub ex_dropped) = Some ''auth_revoked''"
  by (simp_all add: ex_dropped_def ex_st_sel Drop_def)

theorem stream_fifo_witness:
  "tx_out (stream_run 64 [EnvSend ''a'', EnvSend ''b'', EvQueue WriteOk, EnvSend ''c''] ex_st) = [''a'', ''b'']
   \<and> queue (st_sub (stream_run 64 [EnvSend ''a'', EnvSend ''b'', EvQueue WriteOk, EnvSend ''c''] ex_st)) = [''c'']
   \<and> accepted 64 [EnvSend ''a'', EnvSend ''b'', EvQueue WriteOk, EnvSend ''c''] ex_st = [''a'', ''b'', ''c'']"
proof -
  let ?evs = "[EnvSend ''a'', EnvSend ''b'', EvQueue WriteOk, EnvSend ''c'']"
  have run: "queue (st_sub (stream_run 64 ?evs ex_st)) = [''c''] \<and> \<not> st_ended (stream_run 64 ?evs ex_st)
      \<and> accepted 64 ?evs ex_st = [''a'', ''b'', ''c'']"
    by (simp add: ex_st_sel Send_def take_batch_def queue_def Let_def)
  have "tx_out ex_st = []"
    by (simp add: ex_st_def stream_start_def Let_def write_items_def tx_out_def)
  with stream_fifo [OF ex_st_sel(1,2), of 64 ?evs] run show ?thesis by simp
qed


definition ex_hs :: handshake_result where
  "ex_hs = zero_handshake\<lparr>hs_authMap := Some ex_grant, hs_userID := ''u1''\<rparr>"

definition ex_scfg :: sse_config where
  "ex_scfg =
     \<lparr>sse_Addr = '':8080'', CORSOrigins = [], sse_HeartbeatInterval = 15 * second_ns, MaxPayloadBytes = 1000,
      WriteTimeout = 5 * second_ns, sse_Router = router_Defaults, sse_Auth = auth_Defaults, MaxHeaderBytes = 0\<rparr>"


end
