(* ===== verification/Scenario_Wal.thy ===== *)
theory Scenario_Wal
  imports Scenario Pipeline Limiter
begin

text \<open>
  The replication stream of the deployment of \<open>Scenario\<close>: the description of the table, then a
  transaction that inserts the row with key 7. Its properties for the reader, and end to end.
\<close>

subsection \<open>The stream\<close>

definition ex_rel :: relation_msg where
  "ex_rel = \<lparr>rm_id = 1, rm_namespace = ''public'', rm_name = ''accounts'',
     rm_columns = [\<lparr>col_flags = 1, col_name = ''id'', col_oid = OIDInt4\<rparr>,
                   \<lparr>col_flags = 0, col_name = ''name'', col_oid = OIDText\<rparr>,
                   \<lparr>col_flags = 0, col_name = ''iban'', col_oid = OIDText\<rparr>]\<rparr>"

definition ex_tuple :: tuple_data where
  "ex_tuple = [\<lparr>col_type = CHR ''t'', col_data = ''7''\<rparr>, \<lparr>col_type = CHR ''t'', col_data = ''ann''\<rparr>,
     \<lparr>col_type = CHR ''t'', col_data = ''x''\<rparr>]"

definition ex_parse :: "string \<Rightarrow> string wal_msg option" where
  "ex_parse s =
     (if s = ''B'' then Some (BeginMessage 90 5)
      else if s = ''R'' then Some (RelationMessage ex_rel)
      else if s = ''I'' then Some (InsertMessage 1 (Some ex_tuple))
      else if s = ''C'' then Some (CommitMessage 100 ''2026-01-01T00:00:00Z'')
      else None)"

text \<open>An XLogData message is its data; a keepalive is at position 95 and asks for a reply.\<close>

definition ex_repl :: "string repl_lib" where
  "ex_repl = \<lparr>Parse = ex_parse, ParseXLogData = Some,
     ParsePrimaryKeepaliveMessage = (\<lambda>s. Some (95, True))\<rparr>"

definition ex_it :: "string \<Rightarrow> iteration" where
  "ex_it data = \<lparr>it_now = 0, it_after_ack = 0, it_recv = RecvCopyData data, it_ctx_done = False,
     it_after_reply = 0, it_deliver = [DTick, DSent]\<rparr>"

definition ex_its :: "iteration list" where
  "ex_its = map ex_it [''wB'', ''wR'', ''wI'', ''k'', ''wC'']"

definition ex_reader :: "(int option, string) reader" where
  "ex_reader = \<lparr>standbyInterval = 0, connected = True, ackLSN = 0, lastCommittedLSN = 0,
     txBld = newTxBuilderWithConfig True, relCache = newRelationCache, nextStandby = 5000000000,
     txCh = [], acks = []\<rparr>"

lemma ex_mapValue:
  "mapValue ex_lib m OIDInt4 ''7'' False = Inr (GInt 7)"
  "mapValue ex_lib m OIDText s False = Inr (GStr s)"
proof -
  have "itoa 7 = ''7''" by code_simp
  moreover have "atoi (itoa 7) = Some 7" by (rule atoi_itoa) (simp add: int_range_def)
  ultimately show "mapValue ex_lib m OIDInt4 ''7'' False = Inr (GInt 7)"
    by (simp add: mapValue_int)
  show "mapValue ex_lib m OIDText s False = Inr (GStr s)"
    by (simp add: mapValue_verbatim verbatim_oid_def)
qed

lemma ex_row: "row_change ex_lib \<lparr>naiveTimestampAssumeUTC = True\<rparr>
    (next_cache (RelationMessage ex_rel) newRelationCache) (InsertMessage 1 (Some ex_tuple)) = Some ex_change"
  by (simp add: row_change_def next_cache_def cache_update_def Let_def ex_rel_def is_pk_col_def
      allowedPKOIDs_def ex_tuple_def buildDataMap_def pk_col_name_def ex_mapValue TupleDataTypeNull_def
      textPK_def TupleDataTypeToast_def ex_change_def)

lemma ex_msgs: "concat (map (iter_msg ex_repl) ex_its) =
    [BeginMessage 90 5, RelationMessage ex_rel, InsertMessage 1 (Some ex_tuple),
     CommitMessage 100 ''2026-01-01T00:00:00Z'']"
  by (simp add: ex_its_def ex_it_def iter_msg_def ex_repl_def ex_parse_def XLogDataByteID_def)

text \<open>Every iteration goes on: the router takes the transaction after one tick.\<close>

lemma ex_handle: "fst (handle_msg L m [DTick, DSent] r) = Continue"
  by (cases m) (auto simp: HandleCommit_def split: option.splits)

lemma ex_step: "fst (loop_step L ex_repl (ex_it data) r) = Continue"
proof -
  have "fst (handle_recv L ex_repl (ex_it data) r) = Continue" for r
  proof -
    have "fst (processWALMessage L ex_repl (tl data) [DTick, DSent] r) = Continue"
      using ex_handle [of L _ r] by (auto simp: processWALMessage_def split: option.splits)
    moreover have "ParseXLogData ex_repl d = Some d" for d by (simp add: ex_repl_def)
    ultimately show ?thesis
      by (cases data) (auto simp: handle_recv_def ex_it_def split: option.splits prod.splits outcome.splits)
  qed
  then show ?thesis by (simp add: loop_step_def)
qed

lemma ex_steps: "fst (loop_steps L ex_repl (map ex_it ds) r) = Continue"
proof (induction ds arbitrary: r)
  case (Cons d ds)
  from ex_step [of L d r] Cons show ?case by (cases "loop_step L ex_repl (ex_it d) r") simp
qed simp

lemma ex_run: "runLoop ex_lib ex_repl True 0 ex_its ex_reader =
    (Continue, snd (runLoop ex_lib ex_repl True 0 ex_its ex_reader))"
  using ex_steps by (simp add: runLoop_def ex_its_def prod_eq_iff del: list.map)

abbreviation ex_after :: "(int option, string) reader" where
  "ex_after \<equiv> snd (runLoop ex_lib ex_repl True 0 ex_its ex_reader)"

lemma ex_start:
  "mapper (txBld (r\<lparr>txBld := newTxBuilderWithConfig u, ackLSN := 0, relCache := c, nextStandby := t\<rparr>))
     = \<lparr>naiveTimestampAssumeUTC = u\<rparr>"
  "txCh ex_reader = []"
  by (simp_all add: newTxBuilderWithConfig_def ex_reader_def)

lemma ex_sent: "txCh ex_after = [ex_tx]"
proof -
  let ?m = "\<lparr>naiveTimestampAssumeUTC = True\<rparr>"
  obtain n where "txCh ex_after = sent (asm_run ex_lib ?m (concat (map (iter_msg ex_repl) ex_its))
      \<lparr>open_tx = None, known = newRelationCache, sent = []\<rparr>)"
    using loop_steps_sim [OF ex_run [unfolded runLoop_def]]
    unfolding abs_reader_start runLoop_def [symmetric] ex_start by auto
  moreover have "row_change ex_lib ?m newRelationCache (RelationMessage ex_rel) = None"
    by (simp add: row_change_def)
  ultimately show ?thesis
    by (simp add: ex_msgs asm_step_def ex_tx_def ex_row)
qed

subsection \<open>The reader\<close>

theorem runLoop_sends_spans_witness:
  "\<exists>n \<le> length ex_its. list_all (tx_of_span ex_lib \<lparr>naiveTimestampAssumeUTC = True\<rparr> newRelationCache
     (concat (map (iter_msg ex_repl) (take n ex_its)))) [ex_tx]"
  using runLoop_sends_spans [OF ex_run] by (auto simp: ex_sent ex_start(2))

theorem loop_delivers_span_witness:
  "txCh (snd (loop_steps ex_lib ex_repl ex_its ex_reader)) =
     [\<lparr>ID = 5, CommitLSN = 100, CommitTS = ''2026-01-01T00:00:00Z'',
       Changes = span_changes ex_lib \<lparr>naiveTimestampAssumeUTC = True\<rparr> newRelationCache
         [RelationMessage ex_rel, InsertMessage 1 (Some ex_tuple)]\<rparr>]"
proof -
  have "loop_steps ex_lib ex_repl ex_its ex_reader = (Continue, snd (loop_steps ex_lib ex_repl ex_its ex_reader))"
    using ex_steps by (simp add: ex_its_def prod_eq_iff del: list.map)
  from loop_delivers_span [OF this, of 90 5 "[RelationMessage ex_rel, InsertMessage 1 (Some ex_tuple)]"]
  show ?thesis by (simp add: ex_msgs is_body_def) (simp add: ex_reader_def newTxBuilderWithConfig_def)
qed

definition ex_open :: "(int option, string) reader" where
  "ex_open = ex_reader\<lparr>txBld := HandleBegin 90 5 (txBld ex_reader)\<rparr>"

theorem ack_waits_for_commit_witness:
  "ackLSN (snd (loop_step ex_lib ex_repl (ex_it ''k'') ex_open)) = 0"
proof -
  let ?s = "loop_step ex_lib ex_repl (ex_it ''k'') ex_open"
  have "?s = (fst ?s, snd ?s)" by simp
  moreover have "InTx (txBld ex_open)" by (simp add: ex_open_def HandleBegin_def InTx_def)
  moreover from this have "InTx (txBld (snd ?s))"
    by (simp add: loop_step_def handle_recv_def ex_it_def ex_repl_def PrimaryKeepaliveMessageByteID_def)
  ultimately have "ackLSN (snd ?s) = ackLSN ex_open" using ack_waits_for_commit by blast
  then show ?thesis by (simp add: ex_open_def ex_reader_def)
qed

subsection \<open>A user at the limit\<close>

text \<open>Two goroutines raise the counter of a user who may have one stream; one is refused.\<close>

theorem per_user_never_exceeded_witness:
  "\<exists>p. (lim_step 1)\<^sup>*\<^sup>* (0, \<lambda>_. Out) (1, p) \<and> {g. p g = Inside} = {0} \<and> int (card {g. p g = Inside}) \<le> 1"
proof -
  let ?p = "(\<lambda>_::nat. Out)(0 := Added (0 + 1), 1 := Added (0 + 1 + 1), 0 := Inside, 1 := Out)"
  note step = converse_rtranclp_into_rtranclp [where r = "lim_step 1"]
  have "(lim_step 1)\<^sup>*\<^sup>* (0, \<lambda>_. Out) (0 + 1 + 1 - 1, ?p)"
    by (rule step [OF lim_step.add [where g = 0]], simp,
        rule step [OF lim_step.add [where g = 1]], simp,
        rule step [OF lim_step.admit [where g = 0]], simp, simp,
        rule r_into_rtranclp, rule lim_step.reject [where g = 1 and k = 2]) simp_all
  then have path: "(lim_step 1)\<^sup>*\<^sup>* (0, \<lambda>_. Out) (1, ?p)" by simp
  moreover have "{g. ?p g = Inside} = {0}" by auto
  ultimately show ?thesis using per_user_never_exceeded [OF path] by (intro exI [of _ ?p]) auto
qed

subsection \<open>End to end\<close>

lemma ex_route: "bc_heap (routeTx (Encode ex_lib 0) id ex_tx ex_bc) 0 =
    snd (Send (frame_of (tx_lines ex_lib ex_ev)) ex_sub)"
proof -
  have "eligible ex_bc ex_tx 0"
    using anchor_eligible [OF ex_bc_ok(1,2)] ex_concerns by (auto simp: concerns_def ex_bc_ok)
  moreover have "fst (Encode ex_lib 0 ex_ev) = frame_of (tx_lines ex_lib ex_ev)"
    using Encode_lines [OF Encode_uncapped] .
  moreover have "snd (Encode ex_lib 0 ex_ev) = False" by (subst Encode_uncapped) simp
  ultimately show ?thesis
    using dispatch_concerned [OF ex_concerns, of router_Defaults "Encode ex_lib 0"]
    by (simp add: routeTx_eq ex_bc_ok ex_granted router_Defaults_def flip: ex_ev_def)
qed


end
