(* ===== verification/App_Config.thy ===== *)
theory App_Config
  imports Wal_Config Router Sse_Handshake
begin

text \<open>
  \<open>internal/app/env.go\<close>, \<open>internal/app/config.go\<close>, \<open>internal/config/format.go\<close> and
  \<open>internal/health/config.go\<close>: the configuration read from the environment. The URL parsers
  and \<open>time.ParseDuration\<close> are parameters; an error is a value of \<open>app_cfg_err\<close>, and a text
  the loader builds itself is kept as a text.
\<close>

subsection \<open>Settings\<close>

record HTTPConfig =
  http_Addr :: string
  http_CORSOrigins :: "string list"
  http_MaxPayloadBytes :: int
  http_WriteTimeout :: int
  http_MaxHeaderBytes :: int
  http_H2CEnabled :: bool

record AppConfig =
  cfg_LogLevel :: string
  cfg_WAL :: wal_config
  cfg_HTTP :: HTTPConfig
  cfg_Router :: router_config
  cfg_Auth :: auth_config
  cfg_Limits :: limits_config
  cfg_ReadyzProbeInterval :: int
  cfg_ShutdownDeadline :: int

definition defaultHTTP :: HTTPConfig where
  "defaultHTTP =
     \<lparr>http_Addr = '':8080'', http_CORSOrigins = [], http_MaxPayloadBytes = 10 * 2 ^ 20,
      http_WriteTimeout = 5 * second_ns, http_MaxHeaderBytes = 16 * 2 ^ 10, http_H2CEnabled = True\<rparr>"

definition health_Defaults :: int where
  "health_Defaults = 5 * second_ns"

definition health_Validate :: "int \<Rightarrow> string list" where
  "health_Validate interval =
     (if interval \<le> 0 then [''health.readyz_probe_interval must be > 0''] else [])"

definition FormatError :: "string \<Rightarrow> string \<Rightarrow> string \<Rightarrow> string \<Rightarrow> string" where
  "FormatError key val problem remediation =
     (if val = [] then
        (if remediation = [] then key @ '' '' @ problem
         else key @ '' '' @ problem @ ''; '' @ remediation)
      else if remediation = [] then key @ '' ('' @ val @ '') '' @ problem
      else key @ '' ('' @ val @ '') '' @ problem @ ''; '' @ remediation)"

subsection \<open>The variables\<close>

definition envVars :: "string list" where
  "envVars =
     [''WALERA_DATABASE_URL'', ''WALERA_AUTH_URL'', ''WALERA_ADDR'', ''WALERA_PUBLICATION'',
      ''WALERA_TABLES'', ''WALERA_CORS_ORIGINS'', ''WALERA_AUTH_TTL'',
      ''WALERA_AUTH_FORWARD_COOKIES'', ''WALERA_AUTH_FORWARD_HEADERS'',
      ''WALERA_AUTH_ALLOW_PLAINTEXT'', ''WALERA_MAX_CONNECTIONS'', ''WALERA_LOG_LEVEL'']"

text \<open>
  \<open>k8sServiceLinkRe\<close>: \<open>link_name\<close> is the group \<open>[A-Z0-9][A-Z0-9_]*\<close>, \<open>link_tail\<close> what
  follows the optional service name, and the service name is any prefix that ends in an
  underscore.
\<close>

definition link_name :: "string \<Rightarrow> bool" where
  "link_name s \<longleftrightarrow>
     (case s of
        [] \<Rightarrow> False
      | c # cs \<Rightarrow> (is_upper c \<or> is_digit c) \<and>
          list_all (\<lambda>c. is_upper c \<or> is_digit c \<or> c = CHR ''_'') cs)"

definition link_protos :: "string list" where
  "link_protos = [''TCP'', ''UDP'', ''SCTP'']"

definition link_port_tail :: "string \<Rightarrow> bool" where
  "link_port_tail s \<longleftrightarrow>
     (let digits = takeWhile is_digit s; rest = dropWhile is_digit s in
      digits \<noteq> [] \<and>
      list_ex (\<lambda>proto. list_ex (\<lambda>field. rest = ''_'' @ proto @ field)
          ['''', ''_PROTO'', ''_PORT'', ''_ADDR'']) link_protos)"

definition link_tail :: "string \<Rightarrow> bool" where
  "link_tail s \<longleftrightarrow>
     s = ''SERVICE_HOST'' \<or>
     (case cut_prefix s ''SERVICE_PORT'' of
        None \<Rightarrow> False
      | Some r \<Rightarrow> r = [] \<or> (hd r = CHR ''_'' \<and> link_name (tl r))) \<or>
     (case cut_prefix s ''PORT'' of
        None \<Rightarrow> False
      | Some r \<Rightarrow> r = [] \<or> (hd r = CHR ''_'' \<and> link_port_tail (tl r)))"

definition k8sServiceLinkRe :: "string \<Rightarrow> bool" where
  "k8sServiceLinkRe k \<longleftrightarrow>
     (case cut_prefix k ''WALERA_'' of
        None \<Rightarrow> False
      | Some s \<Rightarrow>
          link_tail s \<or>
          list_ex (\<lambda>i. link_name (take i s) \<and> s ! i = CHR ''_'' \<and> link_tail (drop (i + 1) s))
            [0..<length s])"

text \<open>The loop over \<open>environ\<close>: the recognised assignments and the unknown names.\<close>

fun scan_env :: "string list \<Rightarrow> (string \<rightharpoonup> string) \<Rightarrow> string list \<Rightarrow> (string \<rightharpoonup> string) \<times> string list" where
  "scan_env [] env unknown = (env, unknown)"
| "scan_env (kv # kvs) env unknown =
     (case str_cut (CHR ''='') kv of (k, v, _) \<Rightarrow>
        if \<not> prefix ''WALERA_'' k then scan_env kvs env unknown
        else if k \<notin> set envVars then
          (if k8sServiceLinkRe k then scan_env kvs env unknown
           else scan_env kvs env (unknown @ [k]))
        else scan_env kvs (env(k \<mapsto> v)) unknown)"

text \<open>\<open>env[name]\<close>, the empty string when it is not set.\<close>

definition env_get :: "(string \<rightharpoonup> string) \<Rightarrow> string \<Rightarrow> string" where
  "env_get env name = (case env name of None \<Rightarrow> [] | Some v \<Rightarrow> v)"

definition splitList :: "string \<Rightarrow> string list" where
  "splitList s = filter (\<lambda>p. p \<noteq> []) (map trim_space (str_split (CHR '','') s))"

subsection \<open>The HTTP settings\<close>

text \<open>The errors of the address, then the loop over the origins: canonical forms and errors.\<close>

definition addr_hint :: string where
  "addr_hint = ''use \":8080\" or \"host:8080\"''"

definition validate_addr :: "string \<Rightarrow> string list" where
  "validate_addr addr =
     (if addr = [] then [''WALERA_ADDR is required'']
      else (case SplitHostPort addr of
              None \<Rightarrow> [FormatError ''WALERA_ADDR'' [] ''is not a valid host:port'' addr_hint]
            | Some (_, portStr) \<Rightarrow>
                (case parse_uint16 portStr of
                   None \<Rightarrow> [FormatError ''WALERA_ADDR'' [] ''port must be in [1, 65535]'' addr_hint]
                 | Some port \<Rightarrow>
                     (if port = 0
                      then [FormatError ''WALERA_ADDR'' [] ''port must be in [1, 65535]'' addr_hint]
                      else []))))"

fun validate_origins ::
  "(string \<Rightarrow> (string \<times> string) option) \<Rightarrow> nat \<Rightarrow> string list \<Rightarrow> string list \<times> string list"
where
  "validate_origins urlParse i [] = ([], [])"
| "validate_origins urlParse i (raw # rest) =
     (case validate_origins urlParse (i + 1) rest of (canon, errs) \<Rightarrow>
        (case canonicalOrigin urlParse raw of
           None \<Rightarrow>
             (canon,
              FormatError (''WALERA_CORS_ORIGINS entry '' @ itoa (int i + 1)) []
                ''is not a valid URL with scheme and host'' ''e.g. https://app.example'' # errs)
         | Some origin \<Rightarrow> (origin # canon, errs)))"

definition validateHTTP ::
  "(string \<Rightarrow> (string \<times> string) option) \<Rightarrow> HTTPConfig \<Rightarrow> string list + HTTPConfig"
where
  "validateHTTP urlParse c =
     (case validate_origins urlParse 0 (http_CORSOrigins c) of (canon, errs) \<Rightarrow>
        let all_errs = validate_addr (http_Addr c) @ errs in
        if all_errs \<noteq> [] then Inl all_errs else Inr (c\<lparr>http_CORSOrigins := canon\<rparr>))"

subsection \<open>The loader\<close>

text \<open>The libraries the loader calls: the URL parsers and \<open>time.ParseDuration\<close>.\<close>

record 'u env_lib =
  el_url :: "'u url_lib"
  el_urlParse :: "string \<Rightarrow> (string \<times> string) option"
  el_ParseDuration :: "string \<Rightarrow> int option"

datatype app_cfg_err =
    UnknownVariables "string list" | BadDSN dsn_err | BadVar string
  | BadWAL "wal_cfg_err list" | BadAuth "auth_cfg_err list" | BadLimits "limits_cfg_err list"
  | BadRouter "router_cfg_err list" | BadHealth "string list" | BadHTTP "string list"

definition default_config :: AppConfig where
  "default_config =
     \<lparr>cfg_LogLevel = ''info'', cfg_WAL = wal_Defaults, cfg_HTTP = defaultHTTP,
      cfg_Router = router_Defaults, cfg_Auth = auth_Defaults, cfg_Limits = limits_Defaults,
      cfg_ReadyzProbeInterval = health_Defaults, cfg_ShutdownDeadline = 10 * second_ns\<rparr>"

text \<open>One step per variable: the errors it adds and the configuration after it.\<close>

type_synonym cfg_step = "app_cfg_err list \<times> AppConfig"

definition load_dsn :: "'u env_lib \<Rightarrow> (string \<rightharpoonup> string) \<Rightarrow> cfg_step \<Rightarrow> cfg_step" where
  "load_dsn L env st =
     (case st of (errs, cfg) \<Rightarrow>
        (case DeriveDSNs (el_url L) (env_get env ''WALERA_DATABASE_URL'') of
           Inl e \<Rightarrow>
             (errs @ [BadDSN e],
              cfg\<lparr>cfg_WAL := (cfg_WAL cfg)\<lparr>PostgresDSN := [], ReplicationDSN := []\<rparr>\<rparr>)
         | Inr (admin, repl) \<Rightarrow>
             (errs, cfg\<lparr>cfg_WAL := (cfg_WAL cfg)\<lparr>PostgresDSN := admin, ReplicationDSN := repl\<rparr>\<rparr>)))"

definition load_plain :: "(string \<rightharpoonup> string) \<Rightarrow> cfg_step \<Rightarrow> cfg_step" where
  "load_plain env st =
     (case st of (errs, cfg) \<Rightarrow>
       (let auth1 = (cfg_Auth cfg)\<lparr>BackendURL := env_get env ''WALERA_AUTH_URL''\<rparr>;
            addr = env_get env ''WALERA_ADDR'';
            http1 = (if addr \<noteq> [] then (cfg_HTTP cfg)\<lparr>http_Addr := addr\<rparr> else cfg_HTTP cfg);
            pub = env_get env ''WALERA_PUBLICATION'';
            wal1 = (if pub \<noteq> [] then (cfg_WAL cfg)\<lparr>PublicationName := to_lower pub\<rparr> else cfg_WAL cfg);
            wal2 = wal1\<lparr>Tables := splitList (to_lower (env_get env ''WALERA_TABLES''))\<rparr>;
            http2 = http1\<lparr>http_CORSOrigins := splitList (env_get env ''WALERA_CORS_ORIGINS'')\<rparr>;
            auth2 = auth1\<lparr>ForwardedCookies := splitList (env_get env ''WALERA_AUTH_FORWARD_COOKIES'')\<rparr>;
            auth3 = auth2\<lparr>ForwardedHeaders := splitList (env_get env ''WALERA_AUTH_FORWARD_HEADERS'')\<rparr>
        in (errs, cfg\<lparr>cfg_WAL := wal2, cfg_HTTP := http2, cfg_Auth := auth3\<rparr>)))"

definition load_ttl :: "'u env_lib \<Rightarrow> (string \<rightharpoonup> string) \<Rightarrow> cfg_step \<Rightarrow> cfg_step" where
  "load_ttl L env st =
     (case st of (errs, cfg) \<Rightarrow>
       (let v = env_get env ''WALERA_AUTH_TTL'';
            bad = errs @ [BadVar (FormatError ''WALERA_AUTH_TTL'' [] ''must be a duration >= 1s''
                            ''e.g. 60s or 5m'')]
        in if v = [] then st
           else (case el_ParseDuration L v of
                   None \<Rightarrow> (bad, cfg)
                 | Some d \<Rightarrow>
                     (if d < second_ns then (bad, cfg)
                      else (errs, cfg\<lparr>cfg_Auth := (cfg_Auth cfg)\<lparr>DefaultTTLSeconds := d div second_ns\<rparr>\<rparr>)))))"

definition load_plaintext :: "(string \<rightharpoonup> string) \<Rightarrow> cfg_step \<Rightarrow> cfg_step" where
  "load_plaintext env st =
     (case st of (errs, cfg) \<Rightarrow>
       (let v = env_get env ''WALERA_AUTH_ALLOW_PLAINTEXT'' in
        if v = [] \<or> v = ''0'' then st
        else if v = ''1'' then (errs, cfg\<lparr>cfg_Auth := (cfg_Auth cfg)\<lparr>AllowPlaintext := True\<rparr>\<rparr>)
        else (errs @ [BadVar (FormatError ''WALERA_AUTH_ALLOW_PLAINTEXT'' [] ''must be 0 or 1'' [])], cfg)))"

definition load_max_connections :: "(string \<rightharpoonup> string) \<Rightarrow> cfg_step \<Rightarrow> cfg_step" where
  "load_max_connections env st =
     (case st of (errs, cfg) \<Rightarrow>
       (let v = env_get env ''WALERA_MAX_CONNECTIONS'';
            bad = errs @ [BadVar (FormatError ''WALERA_MAX_CONNECTIONS'' [] ''must be a positive integer'' [])]
        in if v = [] then st
           else (case atoi v of
                   None \<Rightarrow> (bad, cfg)
                 | Some n \<Rightarrow>
                     (if n \<le> 0 then (bad, cfg)
                      else (errs, cfg\<lparr>cfg_Limits := (cfg_Limits cfg)\<lparr>GlobalConcurrent := n\<rparr>\<rparr>)))))"

definition load_log_level :: "(string \<rightharpoonup> string) \<Rightarrow> cfg_step \<Rightarrow> cfg_step" where
  "load_log_level env st =
     (case st of (errs, cfg) \<Rightarrow>
       (let v = env_get env ''WALERA_LOG_LEVEL''; lv = to_lower v in
        if v = [] then st
        else if lv \<in> set [''debug'', ''info'', ''warn'', ''error''] then (errs, cfg\<lparr>cfg_LogLevel := lv\<rparr>)
        else (errs @ [BadVar (FormatError ''WALERA_LOG_LEVEL'' [] ''must be debug, info, warn or error'' [])], cfg)))"

definition validate_parts :: "'u env_lib \<Rightarrow> AppConfig \<Rightarrow> app_cfg_err list" where
  "validate_parts L cfg =
     (let w = wal_Validate (cfg_WAL cfg); a = auth_Validate (el_urlParse L) (cfg_Auth cfg);
          l = limits_Validate (cfg_Limits cfg); r = router_Validate (cfg_Router cfg);
          h = health_Validate (cfg_ReadyzProbeInterval cfg)
      in (if w \<noteq> [] then [BadWAL w] else []) @ (if a \<noteq> [] then [BadAuth a] else [])
         @ (if l \<noteq> [] then [BadLimits l] else []) @ (if r \<noteq> [] then [BadRouter r] else [])
         @ (if h \<noteq> [] then [BadHealth h] else []))"

definition LoadFromEnv :: "'u env_lib \<Rightarrow> string list \<Rightarrow> app_cfg_err list + AppConfig" where
  "LoadFromEnv L environ =
     (case scan_env environ Map.empty [] of (env, unknown) \<Rightarrow>
       (let start = (if unknown \<noteq> [] then [UnknownVariables (sort unknown)] else []);
            (errs, cfg) =
              load_log_level env (load_max_connections env (load_plaintext env (load_ttl L env
                (load_plain env (load_dsn L env (start, default_config))))));
            errs1 = errs @ validate_parts L cfg
        in (case validateHTTP (el_urlParse L) (cfg_HTTP cfg) of
              Inl e \<Rightarrow> Inl (errs1 @ [BadHTTP e])
            | Inr http \<Rightarrow> (if errs1 \<noteq> [] then Inl errs1 else Inr (cfg\<lparr>cfg_HTTP := http\<rparr>)))))"

subsection \<open>Facts\<close>

definition env_name :: "string \<Rightarrow> string" where
  "env_name kv = fst (str_cut (CHR ''='') kv)"

definition unknown_name :: "string \<Rightarrow> bool" where
  "unknown_name k \<longleftrightarrow> prefix ''WALERA_'' k \<and> k \<notin> set envVars \<and> \<not> k8sServiceLinkRe k"

lemma scan_env_step:
  "scan_env (kv # kvs) env unknown =
     scan_env kvs
       (if prefix ''WALERA_'' (env_name kv) \<and> env_name kv \<in> set envVars
        then env(env_name kv \<mapsto> fst (snd (str_cut (CHR ''='') kv))) else env)
       (if unknown_name (env_name kv) then unknown @ [env_name kv] else unknown)"
  by (simp add: env_name_def unknown_name_def split: prod.split)

declare scan_env.simps(2) [simp del]

lemma scan_env_unknown:
  "snd (scan_env es env unknown) = unknown @ filter unknown_name (map env_name es)"
  by (induction es arbitrary: env unknown) (simp_all add: scan_env_step)

text \<open>Assignments that are neither recognised nor unknown leave no trace.\<close>

lemma scan_env_skip:
  assumes "env_name kv \<notin> set envVars" and "\<not> unknown_name (env_name kv)"
  shows "scan_env (xs @ kv # ys) env unknown = scan_env (xs @ ys) env unknown"
  by (induction xs arbitrary: env unknown) (simp_all add: scan_env_step assms)

text \<open>A step adds errors and keeps the earlier ones.\<close>

lemmas load_defs = load_dsn_def load_plain_def load_ttl_def load_plaintext_def
  load_max_connections_def load_log_level_def Let_def

lemma load_errs:
  "prefix (fst st) (fst (load_dsn L env st))"
  "fst (load_plain env st) = fst st"
  "prefix (fst st) (fst (load_ttl L env st))"
  "prefix (fst st) (fst (load_plaintext env st))"
  "prefix (fst st) (fst (load_max_connections env st))"
  "prefix (fst st) (fst (load_log_level env st))"
  by (simp_all add: load_defs split: prod.split option.split sum.split)

lemma load_keeps_WAL:
  "cfg_WAL (snd (load_ttl L env st)) = cfg_WAL (snd st)"
  "cfg_WAL (snd (load_plaintext env st)) = cfg_WAL (snd st)"
  "cfg_WAL (snd (load_max_connections env st)) = cfg_WAL (snd st)"
  "cfg_WAL (snd (load_log_level env st)) = cfg_WAL (snd st)"
  by (simp_all add: load_defs split: prod.split option.split)

definition load_all :: "'u env_lib \<Rightarrow> (string \<rightharpoonup> string) \<Rightarrow> cfg_step \<Rightarrow> cfg_step" where
  "load_all L env st =
     load_log_level env (load_max_connections env (load_plaintext env (load_ttl L env
       (load_plain env (load_dsn L env st)))))"

lemma load_all_errs: "prefix (fst (load_dsn L env st)) (fst (load_all L env st))"
  using load_errs(2-6) unfolding load_all_def by (metis prefix_order.trans)

lemma load_all_WAL: "cfg_WAL (snd (load_all L env st)) = cfg_WAL (snd (load_plain env (load_dsn L env st)))"
  by (simp add: load_all_def load_keeps_WAL)

lemma LoadFromEnv_alt:
  "LoadFromEnv L environ =
     (let env = fst (scan_env environ Map.empty []);
          unknown = snd (scan_env environ Map.empty []);
          st = load_all L env ((if unknown \<noteq> [] then [UnknownVariables (sort unknown)] else []), default_config);
          errs1 = fst st @ validate_parts L (snd st)
      in (case validateHTTP (el_urlParse L) (cfg_HTTP (snd st)) of
            Inl e \<Rightarrow> Inl (errs1 @ [BadHTTP e])
          | Inr http \<Rightarrow> (if errs1 \<noteq> [] then Inl errs1 else Inr ((snd st)\<lparr>cfg_HTTP := http\<rparr>))))"
  unfolding LoadFromEnv_def load_all_def Let_def by (simp only: case_prod_unfold)

lemma to_lower_Nil_iff [simp]: "to_lower s = [] \<longleftrightarrow> s = []"
  by (cases s) (simp_all add: to_lower.simps)

lemma validate_parts_Nil_iff:
  "validate_parts L cfg = [] \<longleftrightarrow>
     wal_Validate (cfg_WAL cfg) = [] \<and> auth_Validate (el_urlParse L) (cfg_Auth cfg) = [] \<and>
     limits_Validate (cfg_Limits cfg) = [] \<and> router_Validate (cfg_Router cfg) = [] \<and>
     health_Validate (cfg_ReadyzProbeInterval cfg) = []"
  by (simp add: validate_parts_def Let_def)

definition addr_ok :: "string \<Rightarrow> bool" where
  "addr_ok addr \<longleftrightarrow>
     (case SplitHostPort addr of
        None \<Rightarrow> False
      | Some (_, port) \<Rightarrow> (case parse_uint16 port of None \<Rightarrow> False | Some n \<Rightarrow> 0 < n))"

lemma validate_addr_Nil_iff: "validate_addr addr = [] \<longleftrightarrow> addr_ok addr"
  by (auto simp: validate_addr_def addr_ok_def SplitHostPort_def last_index_def split: option.splits)

lemma validate_origins_Nil:
  "snd (validate_origins urlParse i os) = [] \<Longrightarrow>
   list_all2 (\<lambda>raw canon. canonicalOrigin urlParse raw = Some canon) os (fst (validate_origins urlParse i os))"
  by (induction os arbitrary: i) (auto simp: case_prod_unfold split: option.splits)

lemma validateHTTP_Inr:
  assumes "validateHTTP urlParse c = Inr c'"
  shows "addr_ok (http_Addr c) \<and> c' = c\<lparr>http_CORSOrigins := http_CORSOrigins c'\<rparr> \<and>
     list_all2 (\<lambda>raw canon. canonicalOrigin urlParse raw = Some canon) (http_CORSOrigins c) (http_CORSOrigins c')"
proof -
  obtain canon errs where v: "validate_origins urlParse 0 (http_CORSOrigins c) = (canon, errs)"
    by (cases "validate_origins urlParse 0 (http_CORSOrigins c)")
  then have "validate_addr (http_Addr c) = []" "errs = []" "c' = c\<lparr>http_CORSOrigins := canon\<rparr>"
    using assms by (auto simp: validateHTTP_def Let_def split: if_splits)
  with validate_origins_Nil [of urlParse 0 "http_CORSOrigins c"] v show ?thesis
    by (simp add: validate_addr_Nil_iff)
qed

text \<open>A piece of a split list holds characters of the list only.\<close>

lemma set_strip_head: "set (strip_head ws s) \<subseteq> set s"
proof (induction ws s rule: strip_head.induct)
  case (1 ws s)
  then show ?case
    using set_drop_subset [of "space_len ws s" s] by (subst strip_head.simps) auto
qed

lemma set_trim_space: "set (trim_space s) \<subseteq> set s"
proof -
  have "set (trim_right t) \<subseteq> set t" for t
    using set_strip_head [of "map rev space_runes" "rev t"] by (simp add: trim_right_def)
  moreover have "set (trim_left s) \<subseteq> set s"
    using set_strip_head by (simp add: trim_left_def)
  ultimately show ?thesis unfolding trim_space_def by blast
qed

lemma set_str_split: "p \<in> set (str_split d s) \<Longrightarrow> set p \<subseteq> set s"
proof (induction s arbitrary: p)
  case (Cons c s)
  then show ?case
    by (cases "str_split d s") (auto split: if_splits, blast+)
qed simp

lemma set_splitList: "t \<in> set (splitList s) \<Longrightarrow> set t \<subseteq> set s"
  unfolding splitList_def using set_trim_space set_str_split by fastforce

lemma splitList_no_upper: "t \<in> set (splitList (to_lower s)) \<Longrightarrow> list_all (\<lambda>c. \<not> is_upper c) t"
  using to_lower_no_upper [of s] by (auto simp: list_all_iff dest: set_splitList)

lemma splitList_Nil [simp]: "splitList [] = []"
  by (simp add: splitList_def)

lemma finish_Inr:
  assumes "(case http of Inl e \<Rightarrow> Inl (errs @ [BadHTTP e])
             | Inr h \<Rightarrow> if errs \<noteq> [] then Inl errs else Inr (cfg\<lparr>cfg_HTTP := h\<rparr>)) = Inr cfg'"
  obtains h where "http = Inr h" "errs = []" "cfg' = cfg\<lparr>cfg_HTTP := h\<rparr>"
  using assms by (cases http) (auto split: if_splits)

lemma LoadFromEnv_Inr:
  assumes "LoadFromEnv L environ = Inr cfg"
  obtains env st http where "env = fst (scan_env environ Map.empty [])"
    "st = load_all L env ([], default_config)" "fst st = []" "validate_parts L (snd st) = []"
    "validateHTTP (el_urlParse L) (cfg_HTTP (snd st)) = Inr http" "cfg = (snd st)\<lparr>cfg_HTTP := http\<rparr>"
    "filter unknown_name (map env_name environ) = []"
proof -
  let ?env = "fst (scan_env environ Map.empty [])"
  let ?unknown = "snd (scan_env environ Map.empty [])"
  let ?start = "if ?unknown \<noteq> [] then [UnknownVariables (sort ?unknown)] else []"
  let ?st = "load_all L ?env (?start, default_config)"
  obtain http where v: "validateHTTP (el_urlParse L) (cfg_HTTP (snd ?st)) = Inr http"
      "fst ?st @ validate_parts L (snd ?st) = []" "cfg = (snd ?st)\<lparr>cfg_HTTP := http\<rparr>"
    using assms unfolding LoadFromEnv_alt Let_def by (rule finish_Inr)
  have "prefix ?start (fst ?st)"
    by (rule prefix_order.trans [OF load_errs(1) [of "(?start, default_config)", unfolded fst_conv] load_all_errs])
  then have u: "?unknown = []" using v(2) by (cases "?unknown = []") simp_all
  then have st: "?st = load_all L ?env ([], default_config)" by (simp only: u) simp
  have f: "filter unknown_name (map env_name environ) = []"
    using u scan_env_unknown [of environ Map.empty "[]"] by (simp only: append_Nil)
  have v2: "fst ?st = []" "validate_parts L (snd ?st) = []"
    using v(2) by (simp_all only: append_is_Nil_conv)
  note vs = v2 [unfolded st] v(1) [unfolded st] v(3) [unfolded st]
  show thesis by (rule that [OF refl refl vs(1) vs(2) vs(3) vs(4) f])
qed

lemma canon_origins:
  "list_all2 (\<lambda>raw canon. f raw = Some canon) raws canons \<Longrightarrow> list_all (\<lambda>canon. \<exists>raw. f raw = Some canon) canons"
  by (induction rule: list_all2_induct) auto

lemma load_plain_WAL:
  assumes "w = cfg_WAL (snd (load_plain env st))" and "PublicationName (cfg_WAL (snd st)) = ''walera_pub''"
  shows "PublicationName w \<noteq> []" and "\<forall>t \<in> set (Tables w). list_all (\<lambda>c. \<not> is_upper c) t"
    and "PostgresDSN w = PostgresDSN (cfg_WAL (snd st))"
    and "ReplicationDSN w = ReplicationDSN (cfg_WAL (snd st))"
proof -
  obtain errs cfg where st: "st = (errs, cfg)" by (cases st)
  show "PublicationName w \<noteq> []" "PostgresDSN w = PostgresDSN (cfg_WAL (snd st))"
    "ReplicationDSN w = ReplicationDSN (cfg_WAL (snd st))"
    using assms by (simp_all add: st load_plain_def Let_def)
  have "Tables w = splitList (to_lower (env_get env ''WALERA_TABLES''))"
    using assms(1) by (simp add: st load_plain_def Let_def)
  then show "\<forall>t \<in> set (Tables w). list_all (\<lambda>c. \<not> is_upper c) t"
    by (simp add: splitList_no_upper)
qed

text \<open>The connection strings and the names of a loaded configuration.\<close>

lemma loaded_names:
  assumes "LoadFromEnv L environ = Inr cfg"
  shows "pgIdentRe (PublicationName (cfg_WAL cfg))"
    and "list_all (\<lambda>t. pgQualifiedTableRe t \<and> list_all (\<lambda>c. \<not> is_upper c) t) (Tables (cfg_WAL cfg))"
    and "DeriveDSNs (el_url L) (env_get (fst (scan_env environ Map.empty [])) ''WALERA_DATABASE_URL'')
       = Inr (PostgresDSN (cfg_WAL cfg), ReplicationDSN (cfg_WAL cfg))"
proof -
  have "pgIdentRe (PublicationName (cfg_WAL cfg)) \<and>
     list_all (\<lambda>t. pgQualifiedTableRe t \<and> list_all (\<lambda>c. \<not> is_upper c) t) (Tables (cfg_WAL cfg)) \<and>
     DeriveDSNs (el_url L) (env_get (fst (scan_env environ Map.empty [])) ''WALERA_DATABASE_URL'')
       = Inr (PostgresDSN (cfg_WAL cfg), ReplicationDSN (cfg_WAL cfg))"
    using assms
  proof (cases rule: LoadFromEnv_Inr)
    case (1 env st http)
    have "wal_Validate (cfg_WAL cfg) = []"
      using 1(4) by (simp add: 1(6) validate_parts_Nil_iff)
    let ?d = "load_dsn L env ([], default_config)"
    have "fst ?d = []"
      using load_all_errs [of L env "([], default_config)"] 1(2,3) by simp
    then have d: "DeriveDSNs (el_url L) (env_get env ''WALERA_DATABASE_URL'')
        = Inr (PostgresDSN (cfg_WAL (snd ?d)), ReplicationDSN (cfg_WAL (snd ?d)))"
      "PublicationName (cfg_WAL (snd ?d)) = ''walera_pub''"
      by (auto simp: load_dsn_def default_config_def wal_Defaults_def split: sum.splits)
    have "cfg_WAL cfg = cfg_WAL (snd (load_plain env ?d))"
      using load_all_WAL [of L env "([], default_config)"] by (simp add: 1(2,6))
    note w = load_plain_WAL [OF this d(2)]
    have ident: "pgIdentRe (PublicationName (cfg_WAL cfg))"
      and tabs: "list_all (\<lambda>t. pgQualifiedTableRe t \<and> list_all (\<lambda>c. \<not> is_upper c) t) (Tables (cfg_WAL cfg))"
      using \<open>wal_Validate (cfg_WAL cfg) = []\<close> w(1,2) unfolding wal_Validate_Nil_iff by (auto simp: list_all_iff)
    have dsn: "DeriveDSNs (el_url L) (env_get (fst (scan_env environ Map.empty [])) ''WALERA_DATABASE_URL'')
        = Inr (PostgresDSN (cfg_WAL cfg), ReplicationDSN (cfg_WAL cfg))"
      using d(1) by (simp only: w(3,4) 1(1))
    show ?thesis by (intro conjI ident tabs dsn)
  qed
  then show "pgIdentRe (PublicationName (cfg_WAL cfg))"
    and "list_all (\<lambda>t. pgQualifiedTableRe t \<and> list_all (\<lambda>c. \<not> is_upper c) t) (Tables (cfg_WAL cfg))"
    and "DeriveDSNs (el_url L) (env_get (fst (scan_env environ Map.empty [])) ''WALERA_DATABASE_URL'')
       = Inr (PostgresDSN (cfg_WAL cfg), ReplicationDSN (cfg_WAL cfg))" by blast+
qed

text \<open>The settings that no variable changes, and the range of the TTL.\<close>

definition fixed_part :: "AppConfig \<Rightarrow> router_config \<times> int \<times> int \<times> int \<times> int" where
  "fixed_part cfg =
     (cfg_Router cfg, http_MaxPayloadBytes (cfg_HTTP cfg), http_WriteTimeout (cfg_HTTP cfg),
      PerUserConcurrentMax (cfg_Limits cfg), cfg_ShutdownDeadline cfg)"

lemma load_fixed:
  "fixed_part (snd (load_dsn L env st)) = fixed_part (snd st)"
  "fixed_part (snd (load_plain env st)) = fixed_part (snd st)"
  "fixed_part (snd (load_ttl L env st)) = fixed_part (snd st)"
  "fixed_part (snd (load_plaintext env st)) = fixed_part (snd st)"
  "fixed_part (snd (load_max_connections env st)) = fixed_part (snd st)"
  "fixed_part (snd (load_log_level env st)) = fixed_part (snd st)"
  by (cases st; auto simp: load_dsn_def load_plain_def load_ttl_def load_plaintext_def
      load_max_connections_def load_log_level_def Let_def fixed_part_def
      split: sum.splits option.splits if_splits)+

lemma loaded_fixed:
  assumes "LoadFromEnv L environ = Inr cfg"
  shows "fixed_part cfg = fixed_part default_config"
  using assms
proof (cases rule: LoadFromEnv_Inr)
  case (1 env st http)
  have "fixed_part (snd st) = fixed_part default_config"
    unfolding 1(2) load_all_def load_fixed by simp
  moreover have "http_MaxPayloadBytes http = http_MaxPayloadBytes (cfg_HTTP (snd st))"
      "http_WriteTimeout http = http_WriteTimeout (cfg_HTTP (snd st))"
    by (subst conjunct1 [OF conjunct2 [OF validateHTTP_Inr [OF 1(5)]]]; simp)+
  ultimately show ?thesis by (simp add: 1(6) fixed_part_def)
qed

definition ttl_ok :: "int \<Rightarrow> bool" where
  "ttl_ok n \<longleftrightarrow> 1 \<le> n \<and> int_range (n * second_ns)"

lemma load_ttl_ok:
  assumes "\<And>v d. el_ParseDuration L v = Some d \<Longrightarrow> int_range d"
    and "ttl_ok (DefaultTTLSeconds (cfg_Auth (snd st)))"
  shows "ttl_ok (DefaultTTLSeconds (cfg_Auth (snd (load_ttl L env st))))"
proof -
  have "ttl_ok (d div second_ns)" if "int_range d" "\<not> d < second_ns" for d
  proof -
    have "d div second_ns * second_ns \<le> d" "0 < second_ns"
      using div_mult_mod_eq [of d second_ns] by (simp_all add: second_ns_def)
    moreover have "1 \<le> d div second_ns"
      using that(2) zdiv_mono1 [of second_ns d second_ns] by (simp add: second_ns_def)
    ultimately show ?thesis using that(1) by (auto simp: ttl_ok_def int_range_def second_ns_def)
  qed
  then show ?thesis
    using assms by (cases st) (auto simp: load_ttl_def Let_def split: option.splits)
qed

lemma load_keeps_ttl:
  "DefaultTTLSeconds (cfg_Auth (snd (load_dsn L env st))) = DefaultTTLSeconds (cfg_Auth (snd st))"
  "DefaultTTLSeconds (cfg_Auth (snd (load_plain env st))) = DefaultTTLSeconds (cfg_Auth (snd st))"
  "DefaultTTLSeconds (cfg_Auth (snd (load_plaintext env st))) = DefaultTTLSeconds (cfg_Auth (snd st))"
  "DefaultTTLSeconds (cfg_Auth (snd (load_max_connections env st))) = DefaultTTLSeconds (cfg_Auth (snd st))"
  "DefaultTTLSeconds (cfg_Auth (snd (load_log_level env st))) = DefaultTTLSeconds (cfg_Auth (snd st))"
  by (cases st; auto simp: load_dsn_def load_plain_def load_plaintext_def
      load_max_connections_def load_log_level_def Let_def split: sum.splits option.splits if_splits)+

lemma loaded_limits:
  assumes "LoadFromEnv L environ = Inr cfg"
  shows "0 < GlobalConcurrent (cfg_Limits cfg)" "PerUserConcurrentMax (cfg_Limits cfg) = 10"
proof -
  have "limits_Validate (cfg_Limits cfg) = []"
    using assms by (cases rule: LoadFromEnv_Inr) (simp add: validate_parts_def Let_def split: if_splits)
  then show "0 < GlobalConcurrent (cfg_Limits cfg)" by (simp add: limits_Validate_def split: if_splits)
  show "PerUserConcurrentMax (cfg_Limits cfg) = 10"
    using loaded_fixed [OF assms] by (simp add: fixed_part_def default_config_def limits_Defaults_def)
qed

lemma loaded_ttl:
  assumes "LoadFromEnv L environ = Inr cfg" and "\<And>v d. el_ParseDuration L v = Some d \<Longrightarrow> int_range d"
  shows "ttl_ok (DefaultTTLSeconds (cfg_Auth cfg))"
  using assms(1)
proof (cases rule: LoadFromEnv_Inr)
  case (1 env st http)
  have "ttl_ok (DefaultTTLSeconds (cfg_Auth default_config))"
    by (simp add: default_config_def auth_Defaults_def ttl_ok_def int_range_def second_ns_def)
  then have "ttl_ok (DefaultTTLSeconds (cfg_Auth (snd st)))"
    unfolding 1(2) load_all_def load_keeps_ttl
    by (intro load_ttl_ok assms(2)) (simp_all add: load_keeps_ttl)
  then show ?thesis by (simp add: 1(6))
qed

text \<open>C24: A configuration that loads is usable: every component accepts its part, the two
connection strings are the ones derived from \<open>WALERA_DATABASE_URL\<close>, the publication is an
identifier and the tables are qualified identifiers in lower case (so that they can stand in the
DDL and match the catalog), the listen address has a host and a port between 1 and 65535, and
every CORS origin is the canonical form of an origin.\<close>

theorem loaded_config_valid:
  assumes "LoadFromEnv L environ = Inr cfg"
  shows "wal_Validate (cfg_WAL cfg) = [] \<and> auth_Validate (el_urlParse L) (cfg_Auth cfg) = [] \<and>
     limits_Validate (cfg_Limits cfg) = [] \<and> router_Validate (cfg_Router cfg) = [] \<and>
     health_Validate (cfg_ReadyzProbeInterval cfg) = [] \<and>
     DeriveDSNs (el_url L) (env_get (fst (scan_env environ Map.empty [])) ''WALERA_DATABASE_URL'')
       = Inr (PostgresDSN (cfg_WAL cfg), ReplicationDSN (cfg_WAL cfg)) \<and>
     pgIdentRe (PublicationName (cfg_WAL cfg)) \<and>
     list_all (\<lambda>t. pgQualifiedTableRe t \<and> list_all (\<lambda>c. \<not> is_upper c) t) (Tables (cfg_WAL cfg)) \<and>
     addr_ok (http_Addr (cfg_HTTP cfg)) \<and>
     list_all (\<lambda>canon. \<exists>raw. canonicalOrigin (el_urlParse L) raw = Some canon) (http_CORSOrigins (cfg_HTTP cfg))"
  using assms
proof (cases rule: LoadFromEnv_Inr)
  case (1 env st http)
  have parts: "wal_Validate (cfg_WAL cfg) = []" "auth_Validate (el_urlParse L) (cfg_Auth cfg) = []"
    "limits_Validate (cfg_Limits cfg) = []" "router_Validate (cfg_Router cfg) = []"
    "health_Validate (cfg_ReadyzProbeInterval cfg) = []"
    using 1(4) by (simp_all add: 1(6) validate_parts_Nil_iff)
  note h = validateHTTP_Inr [OF 1(5)]
  have "http_Addr http = http_Addr (cfg_HTTP (snd st))"
    by (subst conjunct1 [OF conjunct2 [OF h]]) simp
  then have addr: "addr_ok (http_Addr (cfg_HTTP cfg))" using h by (simp add: 1(6))
  have "http_CORSOrigins (cfg_HTTP cfg) = http_CORSOrigins http" by (simp add: 1(6))
  then have cors: "list_all (\<lambda>canon. \<exists>raw. canonicalOrigin (el_urlParse L) raw = Some canon)
      (http_CORSOrigins (cfg_HTTP cfg))"
    using canon_origins h by metis
  show ?thesis by (intro conjI parts loaded_names [OF assms] addr cors)
qed

text \<open>C25: A misspelt variable is never ignored. If any assignment of the environment has a name
that starts with \<open>WALERA_\<close>, is no variable Walera reads and does not have the shape of a
Kubernetes service link, loading fails, and the first error names it.\<close>

theorem unknown_variable_refused:
  assumes "kv \<in> set environ" and "unknown_name (env_name kv)"
  shows "\<exists>names errs. LoadFromEnv L environ = Inl (UnknownVariables names # errs) \<and> env_name kv \<in> set names"
proof -
  let ?env = "fst (scan_env environ Map.empty [])"
  let ?unknown = "snd (scan_env environ Map.empty [])"
  let ?start = "[UnknownVariables (sort ?unknown)]"
  let ?st = "load_all L ?env (?start, default_config)"
  have mem: "env_name kv \<in> set ?unknown"
    using assms scan_env_unknown [of environ Map.empty "[]"] by simp
  then have ne: "?unknown \<noteq> []" by (metis empty_iff list.set(1))
  have "prefix ?start (fst ?st)"
    by (rule prefix_order.trans [OF load_errs(1) [of "(?start, default_config)", unfolded fst_conv] load_all_errs])
  then obtain more where more: "fst ?st = UnknownVariables (sort ?unknown) # more"
    by (auto simp: prefix_def)
  have "\<exists>errs. LoadFromEnv L environ = Inl (UnknownVariables (sort ?unknown) # errs)"
    unfolding LoadFromEnv_alt Let_def if_P [OF ne] more
    by (cases "validateHTTP (el_urlParse L) (cfg_HTTP (snd ?st))") simp_all
  with mem show ?thesis by (metis set_sort)
qed

text \<open>The variables Kubernetes injects for a service called \<open>walera\<close> or \<open>walera-\<dots>\<close>, and
every variable without the prefix, have no influence: adding such an assignment anywhere in the
environment leaves the result of loading as it is.\<close>

lemma foreign_variables_ignored:
  assumes "env_name kv \<notin> set envVars"
    and "k8sServiceLinkRe (env_name kv) \<or> \<not> prefix ''WALERA_'' (env_name kv)"
  shows "LoadFromEnv L (xs @ kv # ys) = LoadFromEnv L (xs @ ys)"
proof -
  have "\<not> unknown_name (env_name kv)" using assms(2) by (auto simp: unknown_name_def)
  from scan_env_skip [OF assms(1) this] have "scan_env (xs @ kv # ys) Map.empty [] = scan_env (xs @ ys) Map.empty []" .
  then show ?thesis by (simp only: LoadFromEnv_def)
qed

text \<open>The two required variables are enough: with a valid \<open>WALERA_DATABASE_URL\<close> and an
\<open>https\<close> URL in \<open>WALERA_AUTH_URL\<close>, and nothing else set, the loaded configuration is the default one
with the two connection strings and the backend filled in.\<close>

lemma two_variables_suffice:
  assumes "DeriveDSNs (el_url L) db = Inr (admin, repl)"
    and "el_urlParse L url = Some (''https'', host)" and "url \<noteq> []" and "host \<noteq> []"
  shows "LoadFromEnv L [''WALERA_DATABASE_URL='' @ db, ''WALERA_AUTH_URL='' @ url] =
     Inr (default_config\<lparr>cfg_WAL := wal_Defaults\<lparr>PostgresDSN := admin, ReplicationDSN := repl\<rparr>,
       cfg_Auth := auth_Defaults\<lparr>BackendURL := url\<rparr>\<rparr>)"
proof -
  let ?env = "[''WALERA_DATABASE_URL'' \<mapsto> db, ''WALERA_AUTH_URL'' \<mapsto> url]"
  have scan: "scan_env [''WALERA_DATABASE_URL='' @ db, ''WALERA_AUTH_URL='' @ url] Map.empty [] = (?env, [])"
    by (simp add: scan_env.simps(2) envVars_def)
  have get: "env_get ?env ''WALERA_DATABASE_URL'' = db" "env_get ?env ''WALERA_AUTH_URL'' = url"
    "env_get ?env ''WALERA_ADDR'' = []" "env_get ?env ''WALERA_PUBLICATION'' = []"
    "env_get ?env ''WALERA_TABLES'' = []" "env_get ?env ''WALERA_CORS_ORIGINS'' = []"
    "env_get ?env ''WALERA_AUTH_TTL'' = []" "env_get ?env ''WALERA_AUTH_FORWARD_COOKIES'' = []"
    "env_get ?env ''WALERA_AUTH_FORWARD_HEADERS'' = []" "env_get ?env ''WALERA_AUTH_ALLOW_PLAINTEXT'' = []"
    "env_get ?env ''WALERA_MAX_CONNECTIONS'' = []" "env_get ?env ''WALERA_LOG_LEVEL'' = []"
    by (simp_all add: env_get_def)
  let ?cfg = "default_config\<lparr>cfg_WAL := wal_Defaults\<lparr>PostgresDSN := admin, ReplicationDSN := repl\<rparr>,
     cfg_Auth := auth_Defaults\<lparr>BackendURL := url\<rparr>\<rparr>"
  have load: "load_all L ?env ([], default_config) = ([], ?cfg)"
    by (simp add: load_all_def load_defs get assms(1) default_config_def wal_Defaults_def
        auth_Defaults_def defaultHTTP_def)
  have valid: "validate_parts L ?cfg = []"
    using wal_Defaults_valid assms(2-4)
    by (simp add: validate_parts_Nil_iff default_config_def wal_Validate_Nil_iff wal_Defaults_def
        auth_Validate_def auth_Defaults_def limits_Validate_def limits_Defaults_def
        router_Validate_def router_Defaults_def health_Validate_def health_Defaults_def second_ns_def)
  have split: "SplitHostPort '':8080'' = Some ([], ''8080'')"
    using Split_Join [of "[]" "''8080''"] by (simp add: JoinHostPort_def no_brackets_def)
  have "parse_uint16 ''8080'' = Some 8080"
    by (simp add: parse_uint16_def is_digit_def)
  then have "addr_ok '':8080''" by (simp add: addr_ok_def split)
  then have "validateHTTP (el_urlParse L) defaultHTTP = Inr defaultHTTP"
    by (simp add: validateHTTP_def defaultHTTP_def flip: validate_addr_Nil_iff)
  then have "validateHTTP (el_urlParse L) (cfg_HTTP ?cfg) = Inr defaultHTTP"
    by (simp add: default_config_def)
  then show ?thesis
    unfolding LoadFromEnv_alt Let_def scan fst_conv snd_conv
    by (simp add: load valid) (simp add: default_config_def)
qed

end
