(* ===== verification/App_Bootstrap.thy ===== *)
theory App_Bootstrap
  imports App_Config
begin

text \<open>
  \<open>internal/app/bootstrap.go\<close> and \<open>internal/app/prepare_db.go\<close>: what is checked, and what is
  created, in the database before the reader starts. The database is a record of its answers;
  the statements executed and the outcome of the advisory checks, which the code only logs, are
  the state that the steps return.
\<close>

subsection \<open>The database\<close>

text \<open>The outcome of \<open>QueryRow(...).Scan(...)\<close>.\<close>

datatype 'a row_result = Row 'a | NoRows | QueryFailed

text \<open>
  \<open>Query\<close>: a failure, or the rows (\<open>None\<close> is a row that does not scan) and whether the iteration
  ended without an error.
\<close>

datatype table_rows = TablesFailed | TableRows "string option list" bool

record boot_db =
  db_setting :: "string \<Rightarrow> string row_result"
  db_role :: "(string \<times> bool \<times> bool) row_result" \<comment> \<open>name, replication, superuser\<close>
  db_publication :: "string \<Rightarrow> bool row_result" \<comment> \<open>\<open>puballtables\<close>\<close>
  db_version :: "int row_result"
  db_has_schemas :: "string \<Rightarrow> bool row_result"
  db_table_count :: "string \<Rightarrow> int row_result"
  db_max_slots :: "int row_result"
  db_used_slots :: "int row_result"
  db_tables :: "string \<Rightarrow> table_rows"
  db_exec_ok :: "string \<Rightarrow> bool"

datatype boot_err =
    SettingQueryFailed string | SettingRejected string string string
  | RoleQueryFailed | RoleLacksReplication string
  | PublicationQueryFailed string | PublicationMissing string | CreateFailed string
  | AllTablesPublication string | VersionFailed | SchemaQueryFailed string
  | SchemaPublication string | CountFailed string | PublicationEmpty string

text \<open>The advisory outcomes.\<close>

datatype boot_note =
    CannotEnumerate | RowScanFailed | IterationFailed | TablesMatch nat
  | TablesDiffer "string list" "string list"
  | NoMaxSlots | NoUsedSlots | LowHeadroom string int int int int | HeadroomOk int int

record boot =
  executed :: "string list"
  boot_notes :: "boot_note list"

subsection \<open>Prerequisites\<close>

definition readPGSetting :: "boot_db \<Rightarrow> string \<Rightarrow> boot_err + string" where
  "readPGSetting db name =
     (case db_setting db name of Row setting \<Rightarrow> Inr setting | _ \<Rightarrow> Inl (SettingQueryFailed name))"

definition verifyAtLeastOne :: "boot_db \<Rightarrow> string \<Rightarrow> boot_err option" where
  "verifyAtLeastOne db name =
     (case readPGSetting db name of
        Inl e \<Rightarrow> Some e
      | Inr setting \<Rightarrow>
          (case atoi setting of
             None \<Rightarrow> Some (SettingRejected name setting ''>= 1'')
           | Some n \<Rightarrow> if n < 1 then Some (SettingRejected name setting ''>= 1'') else None))"

definition verifyPGPrereqs :: "boot_db \<Rightarrow> boot_err option" where
  "verifyPGPrereqs db =
     (case readPGSetting db ''wal_level'' of
        Inl e \<Rightarrow> Some e
      | Inr setting \<Rightarrow>
          (if setting \<noteq> ''logical'' then Some (SettingRejected ''wal_level'' setting ''logical'')
           else (case verifyAtLeastOne db ''max_replication_slots'' of
                   Some e \<Rightarrow> Some e
                 | None \<Rightarrow>
                     (case verifyAtLeastOne db ''max_wal_senders'' of
                        Some e \<Rightarrow> Some e
                      | None \<Rightarrow> None))))"

definition verifyReplicationRole :: "boot_db \<Rightarrow> boot_err option" where
  "verifyReplicationRole db =
     (case db_role db of
        Row (rolname, rolreplication, rolsuper) \<Rightarrow>
          (if \<not> rolreplication \<and> \<not> rolsuper then Some (RoleLacksReplication rolname) else None)
      | _ \<Rightarrow> Some RoleQueryFailed)"

subsection \<open>The publication\<close>

text \<open>Existence and \<open>FOR ALL TABLES\<close>.\<close>

definition lookupPublication :: "boot_db \<Rightarrow> string \<Rightarrow> boot_err + bool \<times> bool" where
  "lookupPublication db name =
     (case db_publication db name of
        NoRows \<Rightarrow> Inr (False, False)
      | QueryFailed \<Rightarrow> Inl (PublicationQueryFailed name)
      | Row allTables \<Rightarrow> Inr (True, allTables))"

definition publicationHasSchemas :: "boot_db \<Rightarrow> string \<Rightarrow> boot_err + bool" where
  "publicationHasSchemas db name =
     (case db_version db of
        Row version \<Rightarrow>
          (if version < 150000 then Inr False
           else (case db_has_schemas db name of
                   Row has \<Rightarrow> Inr has
                 | _ \<Rightarrow> Inl (SchemaQueryFailed name)))
      | _ \<Rightarrow> Inl VersionFailed)"

text \<open>The rows up to the first that does not scan; \<open>None\<close> if there is one.\<close>

fun scan_rows :: "string option list \<Rightarrow> string list \<Rightarrow> string list option" where
  "scan_rows [] have_tables = Some have_tables"
| "scan_rows (None # rows) have_tables = None"
| "scan_rows (Some qname # rows) have_tables =
     scan_rows rows (if qname \<in> set have_tables then have_tables else have_tables @ [qname])"

definition bootstrapVerifyTables :: "boot_db \<Rightarrow> string \<Rightarrow> string list \<Rightarrow> boot_note" where
  "bootstrapVerifyTables db publication want =
     (case db_tables db publication of
        TablesFailed \<Rightarrow> CannotEnumerate
      | TableRows rows ended \<Rightarrow>
          (case scan_rows rows [] of
             None \<Rightarrow> RowScanFailed
           | Some have_tables \<Rightarrow>
               (if \<not> ended then IterationFailed
                else
                  (let missing = sort (filter (\<lambda>t. t \<notin> set have_tables) want);
                       extra = sort (filter (\<lambda>t. t \<notin> set want) have_tables)
                   in if length missing = 0 \<and> length extra = 0 then TablesMatch (length want)
                      else TablesDiffer missing extra))))"

definition create_ddl :: "string \<Rightarrow> string list \<Rightarrow> string" where
  "create_ddl publication tables =
     ''CREATE PUBLICATION '' @ publication @ '' FOR TABLE '' @ str_join tables '', ''
     @ '' WITH (publish = '' @ [CHR 0x27] @ ''insert, update, delete'' @ [CHR 0x27] @ '')''"

definition bootstrapPublication ::
  "boot_db \<Rightarrow> string \<Rightarrow> string list \<Rightarrow> boot \<Rightarrow> boot_err option \<times> boot"
where
  "bootstrapPublication db publication tables b =
     (case lookupPublication db publication of
        Inl e \<Rightarrow> (Some e, b)
      | Inr (present, allTables) \<Rightarrow>
          (if \<not> present then
             (if length tables = 0 then (Some (PublicationMissing publication), b)
              else
                (let ddl = create_ddl publication tables;
                     b' = b\<lparr>executed := executed b @ [ddl]\<rparr>
                 in if \<not> db_exec_ok db ddl then (Some (CreateFailed publication), b') else (None, b')))
           else if allTables then (Some (AllTablesPublication publication), b)
           else
             (case publicationHasSchemas db publication of
                Inl e \<Rightarrow> (Some e, b)
              | Inr hasSchemas \<Rightarrow>
                  (if hasSchemas then (Some (SchemaPublication publication), b)
                   else
                     (case db_table_count db publication of
                        Row tableCount \<Rightarrow>
                          (if tableCount = 0 then (Some (PublicationEmpty publication), b)
                           else if 0 < length tables then
                             (None, b\<lparr>boot_notes := boot_notes b @ [bootstrapVerifyTables db publication tables]\<rparr>)
                           else (None, b))
                      | _ \<Rightarrow> (Some (CountFailed publication), b))))))"

subsection \<open>Slot headroom and the whole preparation\<close>

definition checkSlotHeadroom :: "boot_db \<Rightarrow> int \<Rightarrow> string \<Rightarrow> boot_note" where
  "checkSlotHeadroom db headroomMin slotName =
     (case db_max_slots db of
        Row maxSlots \<Rightarrow>
          (case db_used_slots db of
             Row usedSlots \<Rightarrow>
               (let freeSlots = wrap_int (maxSlots - usedSlots) in
                if freeSlots < headroomMin
                then LowHeadroom slotName maxSlots usedSlots freeSlots headroomMin
                else HeadroomOk freeSlots headroomMin)
           | _ \<Rightarrow> NoUsedSlots)
      | _ \<Rightarrow> NoMaxSlots)"

text \<open>\<open>hostname\<close> is \<open>None\<close> when \<open>os.Hostname\<close> fails.\<close>

definition prepareDatabase ::
  "boot_db \<Rightarrow> AppConfig \<Rightarrow> string option \<Rightarrow> int \<Rightarrow> boot \<Rightarrow> boot_err option \<times> boot"
where
  "prepareDatabase db cfg hostname pid b =
     (case verifyPGPrereqs db of
        Some e \<Rightarrow> (Some e, b)
      | None \<Rightarrow>
          (case verifyReplicationRole db of
             Some e \<Rightarrow> (Some e, b)
           | None \<Rightarrow>
               (case bootstrapPublication db (PublicationName (cfg_WAL cfg)) (Tables (cfg_WAL cfg)) b of
                  (Some e, b1) \<Rightarrow> (Some e, b1)
                | (None, b1) \<Rightarrow>
                    (let host = (case hostname of None \<Rightarrow> ''unknown'' | Some h \<Rightarrow> h);
                         slotName = NewSlotName (cfg_WAL cfg) host pid;
                         note = checkSlotHeadroom db (SlotHeadroomMin (cfg_WAL cfg)) slotName
                     in (None, b1\<lparr>boot_notes := boot_notes b1 @ [note]\<rparr>)))))"

subsection \<open>Facts\<close>

text \<open>What a database must answer for logical replication to be possible.\<close>

definition prereqs_ok :: "boot_db \<Rightarrow> bool" where
  "prereqs_ok db \<longleftrightarrow>
     db_setting db ''wal_level'' = Row ''logical'' \<and>
     (\<forall>name \<in> {''max_replication_slots'', ''max_wal_senders''}.
        \<exists>text n. db_setting db name = Row text \<and> atoi text = Some n \<and> 1 \<le> n) \<and>
     (\<exists>role repl super. db_role db = Row (role, repl, super) \<and> (repl \<or> super))"

lemma readPGSetting_Inr: "readPGSetting db name = Inr s \<longleftrightarrow> db_setting db name = Row s"
  by (auto simp: readPGSetting_def split: row_result.splits)

lemma verifyAtLeastOne_None:
  "verifyAtLeastOne db name = None \<longleftrightarrow>
     (\<exists>text n. db_setting db name = Row text \<and> atoi text = Some n \<and> 1 \<le> n)"
  unfolding verifyAtLeastOne_def readPGSetting_def
  by (auto split: row_result.split option.split)

lemma verifyPGPrereqs_None:
  "verifyPGPrereqs db = None \<longleftrightarrow>
     db_setting db ''wal_level'' = Row ''logical'' \<and>
     verifyAtLeastOne db ''max_replication_slots'' = None \<and> verifyAtLeastOne db ''max_wal_senders'' = None"
  unfolding verifyPGPrereqs_def readPGSetting_def
  by (auto split: row_result.split option.split)

lemma verifyReplicationRole_None:
  "verifyReplicationRole db = None \<longleftrightarrow>
     (\<exists>role repl super. db_role db = Row (role, repl, super) \<and> (repl \<or> super))"
  unfolding verifyReplicationRole_def by (auto split: row_result.split)

lemma prereqs_iff: "prereqs_ok db \<longleftrightarrow> verifyPGPrereqs db = None \<and> verifyReplicationRole db = None"
  by (simp add: prereqs_ok_def verifyPGPrereqs_None verifyReplicationRole_None verifyAtLeastOne_None)

lemma scan_rows_Some:
  "scan_rows rows acc = Some have_tables \<Longrightarrow>
   set have_tables = set acc \<union> {q. Some q \<in> set rows} \<and> None \<notin> set rows"
  by (induction rows acc rule: scan_rows.induct) (auto split: if_splits)

text \<open>A publication that streams exactly a list of tables.\<close>

definition table_list_publication :: "boot_db \<Rightarrow> string \<Rightarrow> bool" where
  "table_list_publication db name \<longleftrightarrow>
     db_publication db name = Row False \<and> publicationHasSchemas db name = Inr False \<and>
     (\<exists>n. db_table_count db name = Row n \<and> n \<noteq> 0)"

text \<open>The two ways to succeed.\<close>

lemma bootstrapPublication_None:
  assumes "bootstrapPublication db name tables b = (None, b')"
  shows "(db_publication db name = NoRows \<and> tables \<noteq> [] \<and> db_exec_ok db (create_ddl name tables) \<and>
            b' = b\<lparr>executed := executed b @ [create_ddl name tables]\<rparr>) \<or>
         (table_list_publication db name \<and> executed b' = executed b)"
  using assms unfolding bootstrapPublication_def lookupPublication_def table_list_publication_def
  by (auto simp: Let_def split: row_result.splits sum.splits if_splits)

lemma bootstrapPublication_executed:
  assumes "bootstrapPublication db name tables b = (r, b')"
  shows "executed b' = executed b \<or>
         (db_publication db name = NoRows \<and> tables \<noteq> [] \<and> executed b' = executed b @ [create_ddl name tables])"
  using assms unfolding bootstrapPublication_def lookupPublication_def
  by (auto simp: Let_def split: row_result.splits sum.splits if_splits prod.splits)

lemma prepareDatabase_executed:
  assumes "prepareDatabase db cfg hostname pid b = (r, b')"
  shows "executed b' = executed b \<or>
         (prereqs_ok db \<and> (\<exists>r' b''. bootstrapPublication db (PublicationName (cfg_WAL cfg)) (Tables (cfg_WAL cfg)) b
            = (r', b'') \<and> executed b' = executed b''))"
  using assms unfolding prepareDatabase_def prereqs_iff
  by (cases "bootstrapPublication db (PublicationName (cfg_WAL cfg)) (Tables (cfg_WAL cfg)) b")
     (auto simp: Let_def split: option.splits)

text \<open>The characters of the statement that creates a publication of identifiers.\<close>

definition ddl_char :: "char \<Rightarrow> bool" where
  "ddl_char c \<longleftrightarrow> ident_char c \<or> c = CHR ''.'' \<or> c = CHR '','' \<or> c = CHR '' ''"

lemma str_join_chars:
  "(\<And>s. s \<in> set ss \<Longrightarrow> list_all P s) \<Longrightarrow> list_all P sep \<Longrightarrow> list_all P (str_join ss sep)"
  by (induction ss sep rule: str_join.induct) auto

lemma qualified_table_chars: "pgQualifiedTableRe t \<Longrightarrow> list_all ddl_char t"
  using pgIdentRe_chars by (fastforce simp: pgQualifiedTableRe_iff ddl_char_def list_all_iff)

text \<open>C27: Walera changes the database in one way only. Whatever the database answers, preparing it
executes nothing, or exactly one \<open>CREATE PUBLICATION \<dots> FOR TABLE \<dots>\<close> statement; and the latter
only when the server and the role meet every prerequisite, the publication does not exist and
the configuration lists tables. For a configuration loaded from the environment, the names put
into the statement consist of identifier characters, dots, commas and blanks, so that nothing an
operator writes into a variable can end the statement or quote its way out.\<close>

theorem only_create_publication:
  assumes "prepareDatabase db cfg hostname pid b = (r, b')" and "LoadFromEnv L environ = Inr cfg"
  shows "executed b' = executed b \<or>
     (executed b' = executed b @ [create_ddl (PublicationName (cfg_WAL cfg)) (Tables (cfg_WAL cfg))] \<and>
      prereqs_ok db \<and> db_publication db (PublicationName (cfg_WAL cfg)) = NoRows \<and>
      Tables (cfg_WAL cfg) \<noteq> [] \<and>
      list_all ddl_char (PublicationName (cfg_WAL cfg) @ str_join (Tables (cfg_WAL cfg)) '', ''))"
proof -
  note names = loaded_names [OF assms(2)]
  have "list_all ddl_char (PublicationName (cfg_WAL cfg))"
    using pgIdentRe_chars [OF names(1)] by (auto simp: list_all_iff ddl_char_def)
  moreover have "list_all ddl_char (str_join (Tables (cfg_WAL cfg)) '', '')"
    using names(2) by (intro str_join_chars) (auto simp: list_all_iff ddl_char_def
        dest: qualified_table_chars [unfolded list_all_iff ddl_char_def])
  ultimately show ?thesis
    using prepareDatabase_executed [OF assms(1)] bootstrapPublication_executed by fastforce
qed

text \<open>C26: Preparation succeeds only on a publication that streams a list of tables. Success means
that the prerequisites hold and that the publication either did not exist and was created from
the configured tables, or exists, is not \<open>FOR ALL TABLES\<close>, includes no whole schema (on a server
that knows them) and has at least one table.\<close>

theorem only_table_lists_stream:
  assumes "prepareDatabase db cfg hostname pid b = (None, b')"
  shows "prereqs_ok db \<and>
     (let name = PublicationName (cfg_WAL cfg); tables = Tables (cfg_WAL cfg) in
      (db_publication db name = NoRows \<and> tables \<noteq> [] \<and> db_exec_ok db (create_ddl name tables) \<and>
       executed b' = executed b @ [create_ddl name tables]) \<or>
      (table_list_publication db name \<and> executed b' = executed b))"
proof -
  obtain b1 where "prereqs_ok db"
      "bootstrapPublication db (PublicationName (cfg_WAL cfg)) (Tables (cfg_WAL cfg)) b = (None, b1)"
      "executed b' = executed b1"
    using assms unfolding prepareDatabase_def prereqs_iff
    by (auto simp: Let_def split: option.splits prod.splits)
  with bootstrapPublication_None [OF this(2)] show ?thesis
    by (auto simp: Let_def)
qed

text \<open>The comparison of the publication with \<open>WALERA_TABLES\<close> is exact: when every row scans, it
reports a match if and only if the two are equal as sets, and otherwise names, sorted, exactly
the configured tables that are not published and the published ones that are not configured.\<close>

lemma table_comparison_exact:
  assumes "db_tables db publication = TableRows (map Some published) True"
  shows "(bootstrapVerifyTables db publication want = TablesMatch (length want) \<longleftrightarrow>
            set want = set published) \<and>
     (set want \<noteq> set published \<longrightarrow>
       (\<exists>missing extra. bootstrapVerifyTables db publication want = TablesDiffer missing extra \<and>
          set missing = set want - set published \<and> set extra = set published - set want \<and>
          sorted missing \<and> sorted extra))"
proof -
  have "scan_rows (map Some qs) acc \<noteq> None" for qs acc
    by (induction qs arbitrary: acc) simp_all
  then obtain hs where hs: "scan_rows (map Some published) [] = Some hs" by blast
  from scan_rows_Some [OF hs] have set_hs: "set hs = set published" by auto
  let ?m = "sort (filter (\<lambda>t. t \<notin> set hs) want)"
  let ?e = "sort (filter (\<lambda>t. t \<notin> set want) hs)"
  have v: "bootstrapVerifyTables db publication want
      = (if length ?m = 0 \<and> length ?e = 0 then TablesMatch (length want) else TablesDiffer ?m ?e)"
    by (simp only: bootstrapVerifyTables_def assms table_rows.case hs option.case Let_def
        not_True_eq_False if_False)
  have m: "set ?m = set want - set published" and e: "set ?e = set published - set want"
    using set_hs by auto
  have "length ?m = 0 \<and> length ?e = 0 \<longleftrightarrow> set ?m = {} \<and> set ?e = {}"
    by (simp only: length_0_conv set_empty)
  then have "length ?m = 0 \<and> length ?e = 0 \<longleftrightarrow> set want = set published"
    unfolding m e by blast
  with v m e show ?thesis by (smt (verit) boot_note.distinct sorted_sort)
qed

text \<open>A low number of free replication slots never stops the start: the headroom check gives a
note and nothing else, and it is the warning exactly when fewer slots are free than configured.\<close>

lemma headroom_is_advisory:
  assumes "db_max_slots db = Row maxSlots" and "db_used_slots db = Row usedSlots"
    and "0 \<le> usedSlots" and "usedSlots \<le> 2 ^ 31" and "0 \<le> maxSlots" and "maxSlots \<le> 2 ^ 31"
  shows "checkSlotHeadroom db headroomMin slotName =
     (if maxSlots - usedSlots < headroomMin
      then LowHeadroom slotName maxSlots usedSlots (maxSlots - usedSlots) headroomMin
      else HeadroomOk (maxSlots - usedSlots) headroomMin)"
proof -
  have "int_range (maxSlots - usedSlots)" using assms(3-6) by (simp add: int_range_def)
  then show ?thesis using assms(1,2) by (simp add: checkSlotHeadroom_def Let_def)
qed

end
