(* ===== verification/Health.thy ===== *)
theory Health
  imports App_Config Wal_Reader
begin

text \<open>
  \<open>internal/health/readyz.go\<close>, \<open>internal/health/server.go\<close> and the probe of
  \<open>cmd/cdc-sse/bootstrap.go\<close>: the cached readiness, the two health endpoints and their CORS
  headers, and the address the container's health check dials. The printed time is a parameter.
\<close>

subsection \<open>State\<close>

record 't readyState =
  rs_healthy :: bool
  rs_reason :: string
  rs_checkedAt :: 't

record 't health_server =
  pg_status :: int \<comment> \<open>the gauge \<open>PGConnectionStatus\<close>\<close>
  readyCache :: "'t readyState option"
  hs_corsOrigins :: "string list"

definition SetCORSOrigins :: "string list \<Rightarrow> 't health_server \<Rightarrow> 't health_server" where
  "SetCORSOrigins allowed s = s\<lparr>hs_corsOrigins := allowed\<rparr>"

definition probe :: "('f, 'tx) reader \<Rightarrow> 't \<Rightarrow> 't health_server \<Rightarrow> 't health_server" where
  "probe r now s =
     (let pgOK = (CheckPG r = None);
          s1 = s\<lparr>pg_status := (if pgOK then 1 else 0)\<rparr>;
          state = (if \<not> pgOK
                   then \<lparr>rs_healthy = False, rs_reason = ''pg disconnected'', rs_checkedAt = now\<rparr>
                   else \<lparr>rs_healthy = True, rs_reason = [], rs_checkedAt = now\<rparr>)
      in s1\<lparr>readyCache := Some state\<rparr>)"

definition probeInterval :: "int \<Rightarrow> int" where
  "probeInterval configured = (if configured \<le> 0 then 5 * second_ns else configured)"

text \<open>The probe loop: one probe at the start, one per tick, with the reader as it is then.\<close>

fun StartReadinessProbe :: "(('f, 'tx) reader \<times> 't) list \<Rightarrow> 't health_server \<Rightarrow> 't health_server" where
  "StartReadinessProbe [] s = s"
| "StartReadinessProbe ((r, now) # ticks) s = StartReadinessProbe ticks (probe r now s)"

subsection \<open>Endpoints\<close>

fun allow_origin :: "string list \<Rightarrow> string \<Rightarrow> response \<Rightarrow> response" where
  "allow_origin [] origin w = w"
| "allow_origin (a # as) origin w =
     (if a = origin then
        set_header ''Timing-Allow-Origin'' origin
          (set_header ''Access-Control-Allow-Credentials'' ''true''
            (set_header ''Access-Control-Allow-Origin'' origin w))
      else allow_origin as origin w)"

definition withCORS ::
  "'t health_server \<Rightarrow> (http_request \<Rightarrow> response \<Rightarrow> response) \<Rightarrow> http_request \<Rightarrow> response \<Rightarrow> response"
where
  "withCORS s h r w =
     (let w1 =
        (if 0 < length (hs_corsOrigins s) then
           (let w0 = add_header ''Vary'' ''Origin'' w;
                origin = header_Get ''Origin'' (r_Header r)
            in if origin \<noteq> [] then allow_origin (hs_corsOrigins s) origin w0 else w0)
         else w)
      in h r w1)"

definition serveHealthz :: "('f, 'tx) reader \<Rightarrow> http_request \<Rightarrow> response \<Rightarrow> response" where
  "serveHealthz rd r w =
     (case CheckPG rd of
        None \<Rightarrow> WriteHeader 200 w
      | Some _ \<Rightarrow>
          write_body ''pg disconnected'' (WriteHeader 503 (set_header ''Content-Type'' ''text/plain'' w)))"

text \<open>\<open>json.Marshal\<close> of a map writes its keys in order.\<close>

definition ready_body :: "string \<Rightarrow> string \<Rightarrow> string" where
  "ready_body checked_at reason =
     CHR ''{'' # json_quote ''checked_at'' @ '':'' @ json_quote checked_at @ '',''
     @ json_quote ''reason'' @ '':'' @ json_quote reason @ ''}''"

definition ok_body :: string where
  "ok_body = CHR ''{'' # json_quote ''status'' @ '':'' @ json_quote ''ok'' @ ''}''"

definition serveReadyz ::
  "('t \<Rightarrow> string) \<Rightarrow> 't \<Rightarrow> 't health_server \<Rightarrow> http_request \<Rightarrow> response \<Rightarrow> response"
where
  "serveReadyz format_time zero_time s r w =
     (let state = (case readyCache s of
            None \<Rightarrow> \<lparr>rs_healthy = False, rs_reason = ''not yet probed'', rs_checkedAt = zero_time\<rparr>
          | Some st \<Rightarrow> st);
          w1 = set_header ''Content-Type'' ''application/json'' w
      in if rs_healthy state then write_body ok_body (WriteHeader 200 w1)
         else write_body (ready_body (format_time (rs_checkedAt state)) (rs_reason state))
                (WriteHeader 503 w1))"

text \<open>
  \<open>Routes\<close>: the handler of a request by its path, if it is one of the three and the method is GET
  (which also takes HEAD). The handler of \<open>/metrics\<close> is the Prometheus library's, a parameter.
\<close>

definition health_Routes ::
  "(http_request \<Rightarrow> response \<Rightarrow> response) \<Rightarrow> ('t \<Rightarrow> string) \<Rightarrow> 't \<Rightarrow> ('f, 'tx) reader \<Rightarrow> 't health_server
   \<Rightarrow> string \<Rightarrow> http_request \<Rightarrow> response \<Rightarrow> response option"
where
  "health_Routes metricsHandler format_time zero_time rd s path r w =
     (if r_Method r \<noteq> ''GET'' \<and> r_Method r \<noteq> ''HEAD'' then None
      else if path = ''/healthz'' then Some (withCORS s (serveHealthz rd) r w)
      else if path = ''/readyz'' then Some (withCORS s (serveReadyz format_time zero_time s) r w)
      else if path = ''/metrics'' then Some (withCORS s metricsHandler r w)
      else None)"

subsection \<open>The container's probe\<close>

definition healthcheckTarget :: "string \<Rightarrow> string" where
  "healthcheckTarget addr0 =
     (let addr = (if addr0 = [] then '':8080'' else addr0) in
      case SplitHostPort addr of
        None \<Rightarrow> ''127.0.0.1:8080''
      | Some (host0, port) \<Rightarrow>
          (let host = (if host0 \<in> set [[], ''0.0.0.0'', ''::''] then ''127.0.0.1'' else host0)
           in JoinHostPort host port))"

text \<open>The exit code of \<open>runHealthcheckProbe\<close>; \<open>get\<close> is the HTTP client (no answer within 2 s is \<open>None\<close>).\<close>

definition runHealthcheckProbe :: "(string \<Rightarrow> int option) \<Rightarrow> string \<Rightarrow> int" where
  "runHealthcheckProbe get addr =
     (case get (''http://'' @ healthcheckTarget addr @ ''/healthz'') of
        None \<Rightarrow> 1
      | Some status \<Rightarrow> if status \<noteq> 200 then 1 else 0)"

subsection \<open>Facts\<close>

lemma StartReadinessProbe_snoc:
  "StartReadinessProbe (ticks @ [(r, now)]) s = probe r now (StartReadinessProbe ticks s)"
  by (induction ticks arbitrary: s) auto

lemma allow_origin_mem:
  "allow_origin as origin w =
     (if origin \<in> set as then
        set_header ''Timing-Allow-Origin'' origin
          (set_header ''Access-Control-Allow-Credentials'' ''true''
            (set_header ''Access-Control-Allow-Origin'' origin w))
      else w)"
  by (induction as) auto

lemma status_set_header [simp]: "w_Status (set_header n v w) = w_Status w"
  by (simp add: set_header_def)

text \<open>The readiness endpoint tells the outcome of the latest probe. Before the first probe it
answers 503 (\<open>not yet probed\<close>); after any number of probes it answers 200 exactly when the
reader was connected at the last one, the gauge says the same, and the time it reports is that
probe's.\<close>

lemma readyz_reports_last_probe:
  "w_Status (serveReadyz fmt t0 \<lparr>pg_status = g, readyCache = None, hs_corsOrigins = os\<rparr> req fresh_response) = Some 503 \<and>
   (let s' = StartReadinessProbe (ticks @ [(r, now)]) s;
        w = serveReadyz fmt t0 s' req fresh_response
    in w_Status w = (if IsConnected r then Some 200 else Some 503) \<and>
       pg_status s' = (if IsConnected r then 1 else 0) \<and>
       w_Body w = (if IsConnected r then ok_body else ready_body (fmt now) ''pg disconnected''))"
  by (simp add: StartReadinessProbe_snoc serveReadyz_def probe_def Let_def CheckPG_def IsConnected_def
      fresh_response_def WriteHeader_def write_body_def set_header_def)

text \<open>The health endpoints and the streams allow the same origins. For a request whose origin is
already in canonical form, and as long as any origin is configured, the CORS headers of
\<open>/healthz\<close> and \<open>/readyz\<close> are those the stream endpoints set.\<close>

lemma cors_agree:
  assumes "canonicalOrigin urlParse (header_Get ''Origin'' (r_Header r)) = Some (header_Get ''Origin'' (r_Header r))"
    and "header_Get ''Origin'' (r_Header r) \<noteq> []" and "hs_corsOrigins s \<noteq> []"
  shows "withCORS s (\<lambda>_ w. w) r w = snd (handleCORS urlParse (hs_corsOrigins s) r w)"
  using assms by (simp add: withCORS_def handleCORS_def allow_origin_mem Let_def)

text \<open>The container's health check dials the port the server listens on, over loopback when
the configured host is a wildcard: for every listen address the configuration accepts, the
target parses into the same port and into the configured host or \<open>127.0.0.1\<close>.\<close>

lemma healthcheck_dials_listener:
  assumes "addr_ok addr"
  shows "\<exists>host port. SplitHostPort addr = Some (host, port) \<and>
     SplitHostPort (healthcheckTarget addr) =
       Some (if host \<in> {[], ''0.0.0.0'', ''::''} then ''127.0.0.1'' else host, port)"
proof -
  obtain host port where hp: "SplitHostPort addr = Some (host, port)"
    using assms by (auto simp: addr_ok_def split: option.splits)
  have ne: "addr \<noteq> []" using hp by (auto simp: SplitHostPort_def last_index_def)
  let ?h = "if host \<in> {[], ''0.0.0.0'', ''::''} then ''127.0.0.1'' else host"
  have t: "healthcheckTarget addr = JoinHostPort ?h port"
    using ne hp by (simp add: healthcheckTarget_def)
  have "no_brackets ?h"
    using SplitHostPort_Some [OF hp] by (simp add: no_brackets_def)
  then have "SplitHostPort (JoinHostPort ?h port) = Some (?h, port)"
    using SplitHostPort_Some [OF hp] by (intro Split_Join) simp_all
  with hp t show ?thesis by metis
qed

end
