(* ===== verification/App_Lifecycle.thy ===== *)
theory App_Lifecycle
  imports App_Bootstrap Health Sse_Stream
begin

text \<open>
  \<open>internal/app/initialize.go\<close>, \<open>runnables.go\<close> and \<open>lifecycle.go\<close>: the constructors of the
  components and how the configuration reaches them, what ends a run, and the shutdown as a step
  relation between the HTTP server, the broadcaster, the stream handlers and the reader.
\<close>

subsection \<open>Constructors\<close>

definition New_reader :: "lsn \<Rightarrow> ('f, 't) reader" where
  "New_reader current =
     \<lparr>standbyInterval = 0, connected = False, ackLSN = 0, lastCommittedLSN = current,
      txBld = newTxBuilderWithConfig True, relCache = newRelationCache, nextStandby = 0,
      txCh = [], acks = []\<rparr>"

definition newServerInternal :: "'t health_server" where
  "newServerInternal = \<lparr>pg_status = 0, readyCache = None, hs_corsOrigins = []\<rparr>"

definition NewHandler :: "sse_config \<Rightarrow> auth_client \<Rightarrow> limits \<Rightarrow> handler" where
  "NewHandler cfg client lims =
     \<lparr>h_cors = CORSOrigins cfg, h_authClient = client, h_limits = lims,
      h_corsAllowHeaders = buildAllowHeaders (ForwardedHeaders (sse_Auth cfg))\<rparr>"

subsection \<open>Wiring\<close>

record http_server =
  srv_Addr :: string
  srv_ReadHeaderTimeout :: int
  srv_IdleTimeout :: int
  srv_MaxHeaderBytes :: int
  srv_Protocols :: "(bool \<times> bool) option" \<comment> \<open>HTTP/1 and unencrypted HTTP/2, if set\<close>

definition newMainHTTPServer :: "AppConfig \<Rightarrow> http_server" where
  "newMainHTTPServer cfg =
     (let srv = \<lparr>srv_Addr = http_Addr (cfg_HTTP cfg), srv_ReadHeaderTimeout = 5 * second_ns,
                 srv_IdleTimeout = 120 * second_ns, srv_MaxHeaderBytes = http_MaxHeaderBytes (cfg_HTTP cfg),
                 srv_Protocols = None\<rparr>
      in if http_H2CEnabled (cfg_HTTP cfg) then srv\<lparr>srv_Protocols := Some (True, True)\<rparr> else srv)"

text \<open>
  The shared limits are the handler's; the two encoders are their payload caps. \<open>h\<close> is the store
  of subscribers, none of them registered.
\<close>

record ('f, 't) app =
  app_Config :: AppConfig
  app_WalReader :: "('f, 't) reader"
  app_HealthServer :: "'t health_server"
  app_Encoder :: int
  app_RouterIndex :: "'f broadcaster"
  app_SSEConfig :: sse_config
  app_SSEHandler :: handler
  app_HTTPServer :: http_server

definition wireAuth :: "AppConfig \<Rightarrow> auth_client \<times> limits" where
  "wireAuth cfg = (New_client (cfg_Auth cfg), New_limits (cfg_Limits cfg))"

definition wireDataPlane ::
  "AppConfig \<Rightarrow> 'f heap \<Rightarrow> auth_client \<times> limits \<Rightarrow> int \<times> 'f broadcaster \<times> sse_config \<times> handler"
where
  "wireDataPlane cfg h aw =
     (let scfg = \<lparr>sse_Addr = http_Addr (cfg_HTTP cfg), CORSOrigins = http_CORSOrigins (cfg_HTTP cfg),
                  sse_HeartbeatInterval = HeartbeatInterval (cfg_Router cfg),
                  MaxPayloadBytes = http_MaxPayloadBytes (cfg_HTTP cfg),
                  WriteTimeout = http_WriteTimeout (cfg_HTTP cfg), sse_Router = cfg_Router cfg,
                  sse_Auth = cfg_Auth cfg, MaxHeaderBytes = 0\<rparr>
      in (http_MaxPayloadBytes (cfg_HTTP cfg), New_broadcaster (cfg_Router cfg) h, scfg,
          NewHandler scfg (fst aw) (snd aw)))"

definition wireHTTP :: "AppConfig \<Rightarrow> 't health_server \<times> http_server" where
  "wireHTTP cfg =
     (SetCORSOrigins (http_CORSOrigins (cfg_HTTP cfg)) newServerInternal, newMainHTTPServer cfg)"

definition InitializeApp :: "AppConfig \<Rightarrow> lsn \<Rightarrow> 'f heap \<Rightarrow> ('f, 't) app" where
  "InitializeApp cfg current h =
     (case wireDataPlane cfg h (wireAuth cfg) of
        (enc, bc, scfg, handler) \<Rightarrow>
          (case wireHTTP cfg of
             (hs, srv) \<Rightarrow>
               \<lparr>app_Config = cfg, app_WalReader = New_reader current, app_HealthServer = hs,
                app_Encoder = enc, app_RouterIndex = bc, app_SSEConfig = scfg,
                app_SSEHandler = handler, app_HTTPServer = srv\<rparr>))"

lemma InitializeApp_sel [simp]:
  "app_RouterIndex (InitializeApp cfg current h) = New_broadcaster (cfg_Router cfg) h"
  "app_Encoder (InitializeApp cfg current h) = http_MaxPayloadBytes (cfg_HTTP cfg)"
  "h_cors (app_SSEHandler (InitializeApp cfg current h)) = http_CORSOrigins (cfg_HTTP cfg)"
  "h_authClient (app_SSEHandler (InitializeApp cfg current h)) = New_client (cfg_Auth cfg)"
  "h_limits (app_SSEHandler (InitializeApp cfg current h)) = New_limits (cfg_Limits cfg)"
  "hs_corsOrigins (app_HealthServer (InitializeApp cfg current h)) = http_CORSOrigins (cfg_HTTP cfg)"
  "MaxPayloadBytes (app_SSEConfig (InitializeApp cfg current h)) = http_MaxPayloadBytes (cfg_HTTP cfg)"
  "sse_Router (app_SSEConfig (InitializeApp cfg current h)) = cfg_Router cfg"
  "sse_Auth (app_SSEConfig (InitializeApp cfg current h)) = cfg_Auth cfg"
  "srv_Addr (app_HTTPServer (InitializeApp cfg current h)) = http_Addr (cfg_HTTP cfg)"
  by (simp_all add: InitializeApp_def wireDataPlane_def wireHTTP_def wireAuth_def Let_def NewHandler_def
      SetCORSOrigins_def newMainHTTPServer_def)

text \<open>Refreshing is on for every stream of a wired application, unless the backend's TTL overflows.\<close>

lemma stream_refreshes:
  assumes "ttl_ok (DefaultTTLSeconds (sse_Auth cfg))"
    and "\<And>m. hs_authMap hs = Some m \<Longrightarrow> int_range (TTLSeconds m * second_ns)"
  shows "0 < as_ttl (fst (snd (headersAndPreamble W cfg tbl pkey ch k p hs r w rnd now :: 'f subscriber \<times> _)))"
    (is "0 < as_ttl ?a")
proof -
  have a: "as_ttl ?a = sub_ttl \<lparr>InitialMap = hs_authMap hs, ac_UserID = hs_userID hs,
      ac_Channel = ch, ac_DefaultTTL = wrap_int (DefaultTTLSeconds (sse_Auth cfg) * second_ns), ac_Backoffs = None\<rparr>"
    by (simp add: headersAndPreamble_def Let_def New_auth_sub_def)
  have "0 < wrap_int (DefaultTTLSeconds (sse_Auth cfg) * second_ns)"
    using assms(1) by (simp add: ttl_ok_def) (simp add: second_ns_def)
  then show ?thesis
    using assms(2) unfolding a
    by (cases "hs_authMap hs") (auto simp: sub_ttl_def, simp add: second_ns_def)
qed


subsection \<open>A run\<close>

text \<open>What a runnable runs, and whether its \<open>OnError\<close> cancels the context (all do).\<close>

datatype task = ReaderRun | RouterIngest | ListenAndServe

record Runnable =
  ra_Name :: string
  ra_Run :: task
  ra_cancels :: bool

definition buildRunnables :: "Runnable list" where
  "buildRunnables =
     [\<lparr>ra_Name = ''wal-reader'', ra_Run = ReaderRun, ra_cancels = True\<rparr>,
      \<lparr>ra_Name = ''router-ingest'', ra_Run = RouterIngest, ra_cancels = True\<rparr>,
      \<lparr>ra_Name = ''http-server'', ra_Run = ListenAndServe, ra_cancels = True\<rparr>]"

text \<open>How a task ended; \<open>http.ErrServerClosed\<close> is no error of the HTTP server.\<close>

datatype task_end = EndNil | EndServerClosed | EndError

definition run_failed :: "task \<Rightarrow> task_end \<Rightarrow> bool" where
  "run_failed t e =
     (case e of EndNil \<Rightarrow> False | EndServerClosed \<Rightarrow> t \<noteq> ListenAndServe | EndError \<Rightarrow> True)"

text \<open>
  The goroutines of \<open>App.Run\<close>: each end of a runnable is an input, and the context is done after
  the first that failed. The probe it starts is \<open>StartReadinessProbe\<close>; \<open>Run\<close> itself returns once
  the context is done.
\<close>

fun App_Run :: "(Runnable \<times> task_end) list \<Rightarrow> bool \<Rightarrow> bool" where
  "App_Run [] ctxDone = ctxDone"
| "App_Run ((r, e) # rest) ctxDone =
     (if run_failed (ra_Run r) e \<and> \<not> ctxDone \<and> ra_cancels r then App_Run rest True
      else App_Run rest ctxDone)"

lemma App_Run_stays [simp]: "App_Run rs True"
  by (induction rs "True" rule: App_Run.induct) simp_all

lemma buildRunnables_cancel: "r \<in> set buildRunnables \<Longrightarrow> ra_cancels r"
  by (auto simp: buildRunnables_def)

text \<open>The run ends early exactly when one of the three tasks fails.\<close>

lemma App_Run_iff:
  "fst ` set rs \<subseteq> set buildRunnables \<Longrightarrow> App_Run rs False \<longleftrightarrow> (\<exists>(r, e) \<in> set rs. run_failed (ra_Run r) e)"
proof (induction rs)
  case (Cons p rs)
  obtain r e where p: "p = (r, e)" by (cases p)
  have "ra_cancels r" using Cons.prems buildRunnables_cancel by (simp add: p)
  with Cons show ?case by (cases "run_failed (ra_Run r) e") (auto simp: p)
qed simp

subsection \<open>The shutdown\<close>

text \<open>
  The goroutines of a shutdown. \<open>main\<close> calls \<open>Shutdown\<close> when \<open>Run\<close> has returned, so the context
  of the reader is done. A handler is \<open>starting\<close> from the accepted request to its \<open>Register\<close>
  (named by the subscriber it will register) and live from then to its \<open>Deregister\<close>.
\<close>

datatype http_pc = Serving | Closing | HTTPClosed
datatype reader_pc = Receiving | Delivering | ReaderDone
datatype main_pc = Wave | Draining | Finished

record 'f closing =
  cl_http :: http_pc
  cl_bcast :: bool \<comment> \<open>the broadcast half of the wave is done\<close>
  cl_bc :: "'f broadcaster"
  cl_starting :: "sid set"
  cl_reader :: reader_pc
  cl_main :: main_pc

text \<open>The steps Walera takes by itself.\<close>

inductive own_step :: "'f closing \<Rightarrow> 'f closing \<Rightarrow> bool" where
  http_close: "cl_http c = Serving \<Longrightarrow> own_step c (c\<lparr>cl_http := Closing\<rparr>)"
| http_idle: "cl_http c = Closing \<Longrightarrow> cl_starting c = {} \<Longrightarrow> \<forall>s. \<not> registered (cl_bc c) s \<Longrightarrow>
    own_step c (c\<lparr>cl_http := HTTPClosed\<rparr>)"
| broadcast: "\<not> cl_bcast c \<Longrightarrow> own_step c (c\<lparr>cl_bc := Shutdown (cl_bc c), cl_bcast := True\<rparr>)"
| wave_over: "cl_main c = Wave \<Longrightarrow> cl_http c = HTTPClosed \<Longrightarrow> cl_bcast c \<Longrightarrow>
    own_step c (c\<lparr>cl_main := Draining\<rparr>)"
| drained: "cl_main c = Draining \<Longrightarrow> cl_reader c = ReaderDone \<Longrightarrow> own_step c (c\<lparr>cl_main := Finished\<rparr>)"
| delivered: "cl_reader c = Delivering \<Longrightarrow> own_step c (c\<lparr>cl_reader := Receiving\<rparr>)"
| not_delivered: "cl_reader c = Delivering \<Longrightarrow> own_step c (c\<lparr>cl_reader := ReaderDone\<rparr>)"
| reader_stops: "cl_reader c = Receiving \<Longrightarrow> own_step c (c\<lparr>cl_reader := ReaderDone\<rparr>)"
| refused: "s \<in> cl_starting c \<Longrightarrow> own_step c (c\<lparr>cl_starting := cl_starting c - {s}\<rparr>)"
| registers: "s \<in> cl_starting c \<Longrightarrow>
    own_step c (c\<lparr>cl_starting := cl_starting c - {s}, cl_bc := Register s (cl_bc c)\<rparr>)"
| ends: "registered (cl_bc c) s \<Longrightarrow> dropped (bc_heap (cl_bc c) s) \<Longrightarrow>
    own_step c (c\<lparr>cl_bc := Deregister s (cl_bc c)\<rparr>)"

text \<open>With what its environment does: requests, clients that leave, the timeout of 9 seconds.\<close>

inductive closing_step :: "'f closing \<Rightarrow> 'f closing \<Rightarrow> bool" where
  own: "own_step c c' \<Longrightarrow> closing_step c c'"
| accepts: "cl_http c = Serving \<Longrightarrow> s \<notin> cl_starting c \<Longrightarrow> \<not> registered (cl_bc c) s \<Longrightarrow>
    sub_kind (bc_heap (cl_bc c) s) \<in> {KindExact, KindWildcard} \<Longrightarrow>
    closing_step c (c\<lparr>cl_starting := insert s (cl_starting c)\<rparr>)"
| client_gone: "registered (cl_bc c) s \<Longrightarrow>
    closing_step c (c\<lparr>cl_bc := Deregister s (drop_sub ''client_closed'' s (cl_bc c))\<rparr>)"
| http_timeout: "cl_http c = Closing \<Longrightarrow> closing_step c (c\<lparr>cl_http := HTTPClosed\<rparr>)"

definition closing_inv :: "'f closing \<Rightarrow> bool" where
  "closing_inv c \<longleftrightarrow>
     bc_ok (cl_bc c) \<and> finite (cl_starting c)
     \<and> (\<forall>s \<in> cl_starting c. \<not> registered (cl_bc c) s
          \<and> sub_kind (bc_heap (cl_bc c) s) \<in> {KindExact, KindWildcard})
     \<and> (cl_bcast c \<longrightarrow> bc_closed (cl_bc c) \<and> (\<forall>s. registered (cl_bc c) s \<longrightarrow> dropped (bc_heap (cl_bc c) s)))
     \<and> (cl_main c \<noteq> Wave \<longrightarrow> cl_http c = HTTPClosed \<and> cl_bcast c)
     \<and> (cl_main c = Finished \<longrightarrow> cl_reader c = ReaderDone)"

lemma Shutdown_facts:
  "registered (Shutdown b) s \<longleftrightarrow> registered b s"
  "bc_closed (Shutdown b)"
  "registered b s \<Longrightarrow> dropped (bc_heap (Shutdown b) s)"
  "sub_kind (bc_heap (Shutdown b) s) = sub_kind (bc_heap b s)"
proof -
  have idx: "bc_exact (fold (drop_sub r) l b') = bc_exact b'" "bc_wildcard (fold (drop_sub r) l b') = bc_wildcard b'"
    for r l and b' :: "'a broadcaster"
    by (induction l arbitrary: b') simp_all
  show "registered (Shutdown b) s \<longleftrightarrow> registered b s" "bc_closed (Shutdown b)"
    by (simp_all add: Shutdown_def Let_def registered_def shutdown_subs_def idx fold_drop_closed)
  show "registered b s \<Longrightarrow> dropped (bc_heap (Shutdown b) s)"
    by (auto simp: Shutdown_def Let_def registered_def shutdown_subs_def fold_drop_heap)
  show "sub_kind (bc_heap (Shutdown b) s) = sub_kind (bc_heap b s)"
    by (simp add: Shutdown_def Let_def fold_drop_heap)
qed

lemma Register_facts:
  "bc_closed (Register s b) = bc_closed b"
  "bc_closed b \<Longrightarrow> dropped (bc_heap (Register s b) s)"
  "t \<noteq> s \<Longrightarrow> bc_heap (Register s b) t = bc_heap b t"
  "sub_kind (bc_heap (Register s b) t) = sub_kind (bc_heap b t)"
  by (auto simp: Register_def register_check_def register_add_eq split: kind.splits)

lemma Deregister_facts:
  "bc_closed (Deregister s b) = bc_closed b" "bc_heap (Deregister s b) = bc_heap b"
  by (simp_all add: Deregister_eq split: kind.splits)

lemma closing_inv_own: "own_step c c' \<Longrightarrow> closing_inv c \<Longrightarrow> closing_inv c'"
proof (induction rule: own_step.induct)
  case (broadcast c)
  then show ?case by (auto simp: closing_inv_def Shutdown_ok Shutdown_facts)
next
  case (registers s c)
  then have i: "\<not> registered (cl_bc c) s" "bc_ok (cl_bc c)"
    "sub_kind (bc_heap (cl_bc c) s) = KindExact \<or> sub_kind (bc_heap (cl_bc c) s) = KindWildcard"
    by (auto simp: closing_inv_def)
  note reg = registered_Register [OF i(2,1,3)]
  have ok: "bc_ok (Register s (cl_bc c))"
    unfolding Register_def by (rule register_check_ok [OF register_add_ok [OF i(2,1)]])
  have dr: "dropped (bc_heap (Register s (cl_bc c)) t)"
    if "bc_closed (cl_bc c)" "registered (cl_bc c) t \<Longrightarrow> dropped (bc_heap (cl_bc c) t)" "t = s \<or> registered (cl_bc c) t" for t
    using that Register_facts(2) [of "cl_bc c" s] Register_facts(3) [of t s "cl_bc c"] by (cases "t = s") auto
  show ?case
    using registers ok dr by (auto simp: closing_inv_def reg Register_facts(1,4))
next
  case (ends c s)
  then have "bc_ok (cl_bc c)" by (simp add: closing_inv_def)
  note ok = Deregister_keeps [OF this ends(1)] and reg = registered_Deregister [OF this ends(1)]
  show ?case using ends(3) ok by (auto simp: closing_inv_def reg Deregister_facts)
qed (auto simp: closing_inv_def)

lemma closing_inv_step: "closing_step c c' \<Longrightarrow> closing_inv c \<Longrightarrow> closing_inv c'"
proof (induction rule: closing_step.induct)
  case (own c c')
  then show ?case by (rule closing_inv_own)
next
  case (client_gone c s)
  let ?b = "drop_sub ''client_closed'' s (cl_bc c)"
  have b: "bc_ok ?b" "registered ?b s" using client_gone by (simp_all add: closing_inv_def drop_sub_ok)
  note ok = Deregister_keeps [OF b] and reg = registered_Deregister [OF b]
  have "dropped (bc_heap ?b t)" if "dropped (bc_heap (cl_bc c) t)" for t
    using that by (auto simp: dropped_def Drop_def)
  moreover have "sub_kind (bc_heap ?b t) = sub_kind (bc_heap (cl_bc c) t)" for t by simp
  ultimately show ?case using client_gone(2) ok by (auto simp: closing_inv_def reg Deregister_facts simp del: drop_sub_sel(1))
qed (auto simp: closing_inv_def)

lemma closing_inv_star: "closing_step\<^sup>*\<^sup>* c c' \<Longrightarrow> closing_inv c \<Longrightarrow> closing_inv c'"
  by (induction rule: rtranclp_induct) (auto intro: closing_inv_step)

text \<open>A measure that every step decreases once the server accepts no more requests.\<close>

definition closing_left :: "'f closing \<Rightarrow> nat" where
  "closing_left c =
     (case cl_http c of Serving \<Rightarrow> 2 | Closing \<Rightarrow> 1 | HTTPClosed \<Rightarrow> 0)
     + (if cl_bcast c then 0 else 1)
     + 2 * card (cl_starting c) + card {s. registered (cl_bc c) s}
     + (case cl_reader c of Delivering \<Rightarrow> 2 | Receiving \<Rightarrow> 1 | ReaderDone \<Rightarrow> 0)
     + (case cl_main c of Wave \<Rightarrow> 2 | Draining \<Rightarrow> 1 | Finished \<Rightarrow> 0)"

lemma finite_registered [simp]: "finite {s. registered b s}"
  by (simp add: registered_def)

lemma closing_left_own: "own_step c c' \<Longrightarrow> closing_inv c \<Longrightarrow> closing_left c' < closing_left c"
proof (induction rule: own_step.induct)
  case (broadcast c)
  then show ?case by (simp add: closing_left_def Shutdown_facts)
next
  case (refused s c)
  then have "card (cl_starting c - {s}) < card (cl_starting c)"
    by (intro card_Diff1_less) (simp_all add: closing_inv_def)
  then show ?case by (simp add: closing_left_def)
next
  case (registers s c)
  then have i: "\<not> registered (cl_bc c) s" "bc_ok (cl_bc c)"
    "sub_kind (bc_heap (cl_bc c) s) = KindExact \<or> sub_kind (bc_heap (cl_bc c) s) = KindWildcard"
    by (auto simp: closing_inv_def)
  have "{t. registered (Register s (cl_bc c)) t} = insert s {t. registered (cl_bc c) t}"
    by (auto simp: registered_Register [OF i(2,1,3)])
  moreover have "card (cl_starting c - {s}) < card (cl_starting c)"
    using registers by (intro card_Diff1_less) (simp_all add: closing_inv_def)
  ultimately show ?case using i(1) by (simp add: closing_left_def)
next
  case (ends c s)
  then have ok: "bc_ok (cl_bc c)" by (simp add: closing_inv_def)
  have "{t. registered (Deregister s (cl_bc c)) t} = {t. registered (cl_bc c) t} - {s}"
    by (auto simp: registered_Deregister [OF ok ends(1)])
  moreover have "card ({t. registered (cl_bc c) t} - {s}) < card {t. registered (cl_bc c) t}"
    using ends(1) by (intro card_Diff1_less) simp_all
  ultimately show ?case by (simp add: closing_left_def)
qed (simp_all add: closing_left_def)

lemma closing_left_step:
  "closing_step c c' \<Longrightarrow> closing_inv c \<Longrightarrow> cl_http c \<noteq> Serving \<Longrightarrow>
   closing_left c' < closing_left c \<and> cl_http c' \<noteq> Serving"
proof (induction rule: closing_step.induct)
  case (own c c')
  have "cl_http c' \<noteq> Serving" using own(1,3) by (cases rule: own_step.cases) simp_all
  with own closing_left_own show ?case by blast
next
  case (client_gone c s)
  let ?b = "drop_sub ''client_closed'' s (cl_bc c)"
  have b: "bc_ok ?b" "registered ?b s" using client_gone by (simp_all add: closing_inv_def drop_sub_ok)
  have "{t. registered (Deregister s ?b) t} = {t. registered (cl_bc c) t} - {s}"
    by (auto simp: registered_Deregister [OF b])
  moreover have "card ({t. registered (cl_bc c) t} - {s}) < card {t. registered (cl_bc c) t}"
    using client_gone(1) by (intro card_Diff1_less) simp_all
  ultimately show ?case using client_gone(3) by (simp add: closing_left_def)
qed (simp_all add: closing_left_def)

text \<open>Where Walera has no step of its own left, the shutdown is complete.\<close>

lemma closing_stuck:
  assumes "closing_inv c" and "\<And>c'. \<not> own_step c c'"
  shows "cl_main c = Finished \<and> cl_reader c = ReaderDone \<and> cl_starting c = {} \<and> (\<forall>s. \<not> registered (cl_bc c) s)"
proof -
  have b: "cl_bcast c" using own_step.broadcast assms(2) by blast
  have st: "cl_starting c = {}" using own_step.refused assms(2) by blast
  have rd: "cl_reader c = ReaderDone"
    using own_step.reader_stops own_step.delivered assms(2) by (metis reader_pc.exhaust)
  have none: "\<not> registered (cl_bc c) s" for s
    using assms(1) b own_step.ends [of c s] assms(2) by (auto simp: closing_inv_def)
  have http: "cl_http c = HTTPClosed"
    using own_step.http_close own_step.http_idle st none assms(2) by (metis http_pc.exhaust)
  have "cl_main c = Finished"
    using own_step.wave_over own_step.drained http b rd assms(2) by (metis main_pc.exhaust)
  with st rd none show ?thesis by blast
qed

text \<open>
  C35: a graceful shutdown ends, and leaves nothing behind. From any state that the goroutines of
  the shutdown can reach once the HTTP server has stopped accepting (however requests, clients
  that leave, the router and the reader interleave), no run goes on for ever, and a run stops
  only where \<open>Shutdown\<close> has returned, the reader has closed its channel and no handler is left:
  the HTTP server's wait for its streams, the streams' wait for their drop, the reader's wait for
  the router and the final drain cannot block one another.
\<close>

theorem shutdown_finishes:
  fixes c :: "'f closing"
  assumes "bc_ok b" and "finite A" and "\<forall>s \<in> A. \<not> registered b s \<and> sub_kind (bc_heap b s) \<in> {KindExact, KindWildcard}"
    and "closing_step\<^sup>*\<^sup>* \<lparr>cl_http = Serving, cl_bcast = False, cl_bc = b, cl_starting = A,
      cl_reader = rd, cl_main = Wave\<rparr> c"
    and "cl_http c \<noteq> Serving"
  shows "(\<forall>run :: nat \<Rightarrow> 'f closing. run 0 = c \<longrightarrow> \<not> (\<forall>i. closing_step (run i) (run (Suc i)))) \<and>
    (\<forall>c'. closing_step\<^sup>*\<^sup>* c c' \<and> (\<forall>c''. \<not> own_step c' c'') \<longrightarrow>
       cl_main c' = Finished \<and> cl_reader c' = ReaderDone \<and> cl_starting c' = {} \<and> (\<forall>s. \<not> registered (cl_bc c') s))"
proof (intro conjI allI impI)
  have inv: "closing_inv c"
    by (rule closing_inv_star [OF assms(4)]) (use assms(1-3) in \<open>simp add: closing_inv_def\<close>)
  fix run :: "nat \<Rightarrow> 'f closing" assume r: "run 0 = c"
  show "\<not> (\<forall>i. closing_step (run i) (run (Suc i)))"
  proof
    assume step: "\<forall>i. closing_step (run i) (run (Suc i))"
    have i: "closing_inv (run i) \<and> cl_http (run i) \<noteq> Serving" for i
      by (induction i) (use r inv assms(5) step closing_inv_step closing_left_step in \<open>metis+\<close>)
    then have "closing_left (run (Suc i)) < closing_left (run i)" for i
      using closing_left_step step by blast
    then show False using wf_no_infinite_down_chainE [OF wf_measure [of closing_left], of run] by auto
  qed
next
  fix c'
  assume c': "closing_step\<^sup>*\<^sup>* c c' \<and> (\<forall>c''. \<not> own_step c' c'')"
  have "closing_inv c'"
    by (rule closing_inv_star [OF rtranclp_trans [OF assms(4) conjunct1 [OF c']]])
       (use assms(1-3) in \<open>simp add: closing_inv_def\<close>)
  from closing_stuck [OF this] c'
  show "cl_main c' = Finished" "cl_reader c' = ReaderDone" "cl_starting c' = {}" "\<not> registered (cl_bc c') s" for s
    by blast+
qed

end
