(* ===== verification/Scenario_Http.thy ===== *)
theory Scenario_Http
  imports Scenario App_Lifecycle
begin

text \<open>
  The deployment of \<open>Scenario\<close> seen from its clients and its operator: a backend that grants the
  session of user \<open>u1\<close>, a request for the stream of account 7, an environment with the two
  required variables and a table list, and a database ready for replication. The properties of
  the auth client, the handshake, the configuration, the bootstrap and the health endpoints are
  instantiated on it.
\<close>

subsection \<open>The refresh\<close>


theorem swap_cuts_at_position_witness:
  "FilterWithLSN (swapMap (Some (ex_grant\<lparr>wl_Tables := []\<rparr>)) 50 9 ex_auth) ex_change 100 = (zero_change, True) \<and>
   FilterWithLSN (swapMap (Some (ex_grant\<lparr>wl_Tables := []\<rparr>)) 50 9 ex_auth) ex_change 50
     = (ex_change\<lparr>Data := Some [(''id'', GInt 7), (''name'', GStr ''ann'')]\<rparr>, False)"
proof -
  have "AuthMap ex_auth = Some ex_grant" by (simp add: ex_auth_def New_auth_sub_def)
  note sw = swap_cuts_at_position [OF this, where w = "ex_grant\<lparr>wl_Tables := []\<rparr>" and q = 50 and t = 9 and c = ex_change]
  show ?thesis using sw [where p = 100] sw [where p = 50]
    by (simp add: Filter_def ex_grant_def map_or_empty_def)
qed

definition ex_unavailable :: attempt where
  "ex_unavailable = \<lparr>at_result = Inl (ErrUnavailable ''down''), at_ctx_done = False, at_lsn = 50,
     at_now = 9, at_wait = WaitOver\<rparr>"

definition ex_forbidden :: attempt where
  "ex_forbidden = ex_unavailable\<lparr>at_result := Inl (ErrForbidden [])\<rparr>"





subsection \<open>The backend call\<close>

definition ex_auth_cfg :: auth_config where
  "ex_auth_cfg = auth_Defaults\<lparr>BackendURL := ''https://auth'', ForwardedHeaders := [''X-Org'']\<rparr>"

definition ex_unmarshal :: "string \<Rightarrow> wire_map option" where
  "ex_unmarshal s =
     (if s = ''granted'' then Some \<lparr>wm_user_id = ''u1'', wm_tables = [(''accounts'', [''id'', ''name''])],
        wm_ttl_seconds = 60, wm_initial_data = []\<rparr> else None)"

lemma reserved_origin: "reserved ''Origin''"
  by code_simp




subsection \<open>The handshake\<close>

definition ex_world :: sse_world where
  "ex_world =
     \<lparr>wd_urlParse = (\<lambda>_. None), wd_ParseLSN = (\<lambda>_. None), wd_unmarshal = ex_unmarshal,
      wd_request_ok = (\<lambda>_. True), wd_transport = (\<lambda>_. HttpResponse 200 ''granted''),
      wd_newRequestID = ''r1'', wd_substituteID = ''0'', wd_CurrentLSN = 10\<rparr>"

definition ex_handler :: handler where
  "ex_handler =
     \<lparr>h_cors = [], h_authClient = New_client ex_auth_cfg, h_limits = New_limits limits_Defaults,
      h_corsAllowHeaders = []\<rparr>"

definition ex_request :: http_request where
  "ex_request =
     \<lparr>r_Method = ''GET'', r_table = ''accounts'', r_pk = ''7'', r_since_lsn = [],
      r_Header = [(''Authorization'', [''Bearer tok''])], r_cookies = [], r_RemoteAddr = ''10.0.0.1:5''\<rparr>"

lemma canonical_auth: "CanonicalMIMEHeaderKey ''Authorization'' = ''Authorization''"
  "CanonicalMIMEHeaderKey ''X-Request-ID'' = ''X-Request-Id''"
  by code_simp+

lemma ex_served: "\<exists>k tbl pkey ch p hs w' r' h'. Routes ex_world ex_request ex_handler fresh_response
    = Served (Stream k tbl pkey ch p hs w' r' h')"
proof -
  have valid: "validTableName ''accounts''" by code_simp
  have bearer: "bearer_token ex_request = ''tok''"
    by (simp add: bearer_token_def ex_request_def header_Get_def header_Values_def canonical_auth cut_prefix_def)
  have given: "header_Get ''X-Request-ID'' (r_Header ex_request) = []"
    by (simp add: ex_request_def header_Get_def header_Values_def canonical_auth)
  have parse: "ParseWhitelist ex_unmarshal (take maxResponseBytes ''granted'') =
      Inr \<lparr>UserID = ''u1'', wl_Tables = [(''accounts'', [''id'', ''name''])], TTLSeconds = 60,
        RefreshLSN = 0, InitialData = []\<rparr>"
    by (simp add: ParseWhitelist_def ex_unmarshal_def maxResponseBytes_def)
  have req: "r_table ex_request = ''accounts''" "r_pk ex_request = ''7''" "r_since_lsn ex_request = []"
    "r_Method ex_request = ''GET''"
    by (simp_all add: ex_request_def)
  show ?thesis
    by (simp add: Routes_def serveStream_def serveExact_def req valid parseSinceLSN_def runHandshakeAndWriter_def runHandshake_def
        AcquireGlobal_def AcquirePerUser_def load_or_store_def ex_handler_def New_limits_def
        limits_Defaults_def authenticate_def Let_def bearer given OpenSession_def doAndDecode_def
        ex_world_def parse)
qed

theorem stream_needs_grant_witness:
  "\<exists>k tbl pkey ch p hs w' r' h' m. Routes ex_world ex_request ex_handler fresh_response
      = Served (Stream k tbl pkey ch p hs w' r' h') \<and> hs_authMap hs = Some m \<and> gm_get (wl_Tables m) ''accounts'' \<noteq> None"
proof -
  obtain k tbl pkey ch p hs w' r' h' where s: "Routes ex_world ex_request ex_handler fresh_response
      = Served (Stream k tbl pkey ch p hs w' r' h')" using ex_served by blast
  have "r_table ex_request = ''accounts''" by (simp add: ex_request_def)
  with s stream_needs_grant [OF s] show ?thesis by metis
qed


subsection \<open>The configuration\<close>

definition ex_env :: "(string \<times> (string, string list) gomap) env_lib" where
  "ex_env =
     \<lparr>el_url = \<lparr>url_Parse = (\<lambda>s. Some (s, [])), url_Query = snd, url_with_query = (\<lambda>u q. (fst u, q)),
        url_String = (\<lambda>u. if snd u = [] then fst u else fst u @ ''?replication=database''),
        pgconn_ok = (\<lambda>_. True)\<rparr>,
      el_urlParse = (\<lambda>s. if s = ''https://auth'' then Some (''https'', ''auth'') else None),
      el_ParseDuration = (\<lambda>_. None)\<rparr>"

definition ex_environ :: "string list" where
  "ex_environ = [''WALERA_DATABASE_URL='' @ ''postgres://db/app'', ''WALERA_AUTH_URL='' @ ''https://auth'']"

definition ex_config :: AppConfig where
  "ex_config = default_config\<lparr>cfg_WAL := wal_Defaults\<lparr>PostgresDSN := ''postgres://db/app'',
     ReplicationDSN := ''postgres://db/app?replication=database''\<rparr>,
     cfg_Auth := auth_Defaults\<lparr>BackendURL := ''https://auth''\<rparr>\<rparr>"

lemma ex_loads: "LoadFromEnv ex_env ex_environ = Inr ex_config"
  unfolding ex_environ_def ex_config_def
  by (rule two_variables_suffice [where host = "''auth''"]) (simp_all add: ex_env_def DeriveDSNs_def Let_def)

theorem loaded_config_valid_witness:
  "LoadFromEnv ex_env ex_environ = Inr ex_config \<and> addr_ok (http_Addr (cfg_HTTP ex_config)) \<and>
   pgIdentRe (PublicationName (cfg_WAL ex_config))"
  using loaded_config_valid [OF ex_loads] ex_loads by blast

theorem unknown_variable_refused_witness:
  "\<exists>names errs. LoadFromEnv ex_env (''WALERA_TABLE=public.accounts'' # ex_environ)
     = Inl (UnknownVariables names # errs) \<and> ''WALERA_TABLE'' \<in> set names"
proof -
  have n: "env_name ''WALERA_TABLE=public.accounts'' = ''WALERA_TABLE''" by (simp add: env_name_def)
  have "unknown_name ''WALERA_TABLE''" by code_simp
  then have "unknown_name (env_name ''WALERA_TABLE=public.accounts'')" unfolding n .
  from unknown_variable_refused [OF list.set_intros(1) this, of ex_env ex_environ] show ?thesis
    unfolding n .
qed


definition ex_closing :: "int option closing" where
  "ex_closing = \<lparr>cl_http = Serving, cl_bcast = False, cl_bc = ex_bc, cl_starting = {}, cl_reader = Delivering,
     cl_main = Wave\<rparr>"

theorem shutdown_finishes_witness:
  "\<not> (\<exists>run :: nat \<Rightarrow> int option closing. run 0 = ex_closing\<lparr>cl_http := Closing\<rparr> \<and>
     (\<forall>i. closing_step (run i) (run (Suc i))))"
proof -
  have "closing_step ex_closing (ex_closing\<lparr>cl_http := Closing\<rparr>)"
    by (rule closing_step.own, rule own_step.http_close) (simp add: ex_closing_def)
  then have "closing_step\<^sup>*\<^sup>* ex_closing (ex_closing\<lparr>cl_http := Closing\<rparr>)" by (rule r_into_rtranclp)
  from shutdown_finishes [OF ex_bc_ok(1) _ _ this [unfolded ex_closing_def]] show ?thesis
    by (simp add: ex_closing_def)
qed

subsection \<open>The database\<close>

definition ex_db :: boot_db where
  "ex_db =
     \<lparr>db_setting = (\<lambda>name. if name = ''wal_level'' then Row ''logical'' else Row ''10''),
      db_role = Row (''walera'', True, False), db_publication = (\<lambda>_. NoRows),
      db_version = Row 160000, db_has_schemas = (\<lambda>_. Row False), db_table_count = (\<lambda>_. Row 1),
      db_max_slots = Row 10, db_used_slots = Row 2,
      db_tables = (\<lambda>_. TableRows (map Some [''public.accounts'', ''public.orders'']) True),
      db_exec_ok = (\<lambda>_. True)\<rparr>"

definition ex_boot :: boot where
  "ex_boot = \<lparr>executed = [], boot_notes = []\<rparr>"

definition ex_table_config :: AppConfig where
  "ex_table_config = ex_config\<lparr>cfg_WAL := (cfg_WAL ex_config)\<lparr>Tables := [''public.accounts'']\<rparr>\<rparr>"

lemma ex_prereqs: "prereqs_ok ex_db"
proof -
  have "atoi ''10'' = Some 10" by code_simp
  then show ?thesis by (auto simp: prereqs_ok_def ex_db_def)
qed

lemma ex_prepared: "\<exists>b'. prepareDatabase ex_db ex_table_config (Some ''host'') 1 ex_boot = (None, b')"
  using ex_prereqs
  by (simp add: prereqs_iff prepareDatabase_def bootstrapPublication_def lookupPublication_def
      ex_table_config_def Let_def) (simp add: ex_db_def)

theorem only_table_lists_stream_witness:
  "\<exists>b'. prepareDatabase ex_db ex_table_config (Some ''host'') 1 ex_boot = (None, b') \<and>
     executed b' = [create_ddl ''walera_pub'' [''public.accounts'']]"
proof -
  obtain b' where p: "prepareDatabase ex_db ex_table_config (Some ''host'') 1 ex_boot = (None, b')"
    using ex_prepared by blast
  from only_table_lists_stream [OF p] show ?thesis
    using p by (auto simp: Let_def ex_table_config_def ex_config_def default_config_def wal_Defaults_def
        table_list_publication_def ex_db_def ex_boot_def)
qed

text \<open>The loaded configuration lists no tables, so the missing publication stops the start.\<close>

theorem only_create_publication_witness:
  "executed (snd (prepareDatabase ex_db ex_config (Some ''host'') 1 ex_boot)) = []"
proof -
  have "prepareDatabase ex_db ex_config (Some ''host'') 1 ex_boot
      = (fst (prepareDatabase ex_db ex_config (Some ''host'') 1 ex_boot),
         snd (prepareDatabase ex_db ex_config (Some ''host'') 1 ex_boot))" by simp
  from only_create_publication [OF this ex_loads] show ?thesis
    by (auto simp: ex_boot_def ex_config_def default_config_def wal_Defaults_def)
qed

end
