(* ===== verification/Metrics.thy ===== *)
theory Metrics
  imports Prelude
begin

text \<open>
  \<open>internal/metrics/registry.go\<close>: the collectors Walera declares, under which names and labels,
  and the registry. Prometheus itself is not under \<open>src\<close>: the registry is the log of the calls
  made on its collectors, and what a series shows is the sum of its increments.
\<close>

subsection \<open>Collectors\<close>

datatype collector =
    subscribersActive | eventsSentTotal | subscriberDisconnects | authRequestsTotal | pgConnectionStatus

definition declared :: "collector list" where
  "declared = [subscribersActive, eventsSentTotal, subscriberDisconnects, authRequestsTotal, pgConnectionStatus]"

fun metric_name :: "collector \<Rightarrow> string" where
  "metric_name subscribersActive = ''walera_subscribers_active''"
| "metric_name eventsSentTotal = ''walera_events_sent_total''"
| "metric_name subscriberDisconnects = ''walera_subscriber_disconnects_total''"
| "metric_name authRequestsTotal = ''walera_auth_requests_total''"
| "metric_name pgConnectionStatus = ''walera_pg_connection_status''"

fun metric_labels :: "collector \<Rightarrow> string list" where
  "metric_labels subscribersActive = [''type'']"
| "metric_labels eventsSentTotal = [''type'']"
| "metric_labels subscriberDisconnects = [''reason'']"
| "metric_labels authRequestsTotal = [''result'']"
| "metric_labels pgConnectionStatus = []"

fun is_gauge :: "collector \<Rightarrow> bool" where
  "is_gauge subscribersActive = True"
| "is_gauge pgConnectionStatus = True"
| "is_gauge _ = False"

text \<open>The label values that the help texts enumerate.\<close>

fun help_values :: "collector \<Rightarrow> string list" where
  "help_values subscribersActive = [''exact'', ''wildcard'']"
| "help_values eventsSentTotal = [''exact'', ''wildcard'']"
| "help_values subscriberDisconnects =
     [''slow_consumer'', ''tx_too_large'', ''client_closed'', ''shutdown'', ''auth_revoked'', ''auth_unavailable'']"
| "help_values authRequestsTotal = [''ok'', ''unauthorized'', ''forbidden'', ''not_found'', ''unavailable'']"
| "help_values pgConnectionStatus = []"

subsection \<open>The registry\<close>

text \<open>A call on a collector: which one, the label value (none for the plain gauge), the increment.\<close>

type_synonym metric_call = "collector \<times> string \<times> int"
type_synonym registry = "metric_call list"

text \<open>\<open>New\<close> shows four of the reasons from the start, at 0.\<close>

definition New_registry :: registry where
  "New_registry =
     map (\<lambda>reason. (subscriberDisconnects, reason, 0))
       [''slow_consumer'', ''tx_too_large'', ''client_closed'', ''shutdown'']"

definition SubscribersActive :: "string \<Rightarrow> int \<Rightarrow> registry \<Rightarrow> registry" where
  "SubscribersActive kind n r = r @ [(subscribersActive, kind, n)]"

definition EventsSent :: "string \<Rightarrow> int \<Rightarrow> registry \<Rightarrow> registry" where
  "EventsSent kind n r = r @ [(eventsSentTotal, kind, n)]"

definition SubscriberDisconnects :: "string \<Rightarrow> int \<Rightarrow> registry \<Rightarrow> registry" where
  "SubscriberDisconnects reason n r = r @ [(subscriberDisconnects, reason, n)]"

definition AuthRequests :: "string \<Rightarrow> int \<Rightarrow> registry \<Rightarrow> registry" where
  "AuthRequests result n r = r @ [(authRequestsTotal, result, n)]"

subsection \<open>What a scrape shows\<close>

definition series :: "collector \<Rightarrow> registry \<Rightarrow> string set" where
  "series c r = {l. \<exists>n. (c, l, n) \<in> set r}"

definition shown :: "collector \<Rightarrow> (string \<Rightarrow> bool) \<Rightarrow> registry \<Rightarrow> int" where
  "shown c P r = sum_list (map (\<lambda>(c', l, n). if c' = c \<and> P l then n else 0) r)"

text \<open>Counters only go up.\<close>

definition counters_ok :: "registry \<Rightarrow> bool" where
  "counters_ok r \<longleftrightarrow> list_all (\<lambda>(c, l, n). is_gauge c \<or> 0 \<le> n) r"

text \<open>Every series has a label value its help text names.\<close>

definition documented :: "registry \<Rightarrow> bool" where
  "documented r \<longleftrightarrow> list_all (\<lambda>(c, l, n). l \<in> set (help_values c)) r"

lemmas registry_defs = SubscribersActive_def EventsSent_def SubscriberDisconnects_def AuthRequests_def

lemma shown_call [simp]:
  "shown c P (SubscribersActive l n r) = shown c P r + (if c = subscribersActive \<and> P l then n else 0)"
  "shown c P (EventsSent l n r) = shown c P r + (if c = eventsSentTotal \<and> P l then n else 0)"
  "shown c P (SubscriberDisconnects l n r) = shown c P r + (if c = subscriberDisconnects \<and> P l then n else 0)"
  "shown c P (AuthRequests l n r) = shown c P r + (if c = authRequestsTotal \<and> P l then n else 0)"
  by (auto simp: shown_def registry_defs)

lemma counters_call [simp]:
  "counters_ok (SubscribersActive l n r) \<longleftrightarrow> counters_ok r"
  "counters_ok (EventsSent l n r) \<longleftrightarrow> counters_ok r \<and> 0 \<le> n"
  "counters_ok (SubscriberDisconnects l n r) \<longleftrightarrow> counters_ok r \<and> 0 \<le> n"
  "counters_ok (AuthRequests l n r) \<longleftrightarrow> counters_ok r \<and> 0 \<le> n"
  by (auto simp: counters_ok_def registry_defs)

lemma documented_call [simp]:
  "documented (SubscribersActive l n r) \<longleftrightarrow> documented r \<and> l \<in> set (help_values subscribersActive)"
  "documented (EventsSent l n r) \<longleftrightarrow> documented r \<and> l \<in> set (help_values eventsSentTotal)"
  "documented (SubscriberDisconnects l n r) \<longleftrightarrow> documented r \<and> l \<in> set (help_values subscriberDisconnects)"
  "documented (AuthRequests l n r) \<longleftrightarrow> documented r \<and> l \<in> set (help_values authRequestsTotal)"
  by (auto simp: documented_def registry_defs)

lemma documented_series: "documented r \<Longrightarrow> series c r \<subseteq> set (help_values c)"
  by (auto simp: documented_def series_def list_all_iff)

lemma New_registry_facts [simp]:
  "shown c P New_registry = 0" "counters_ok New_registry" "documented New_registry"
  by (simp_all add: shown_def counters_ok_def documented_def New_registry_def)

text \<open>
  \<open>MustRegister\<close> panics on a name already taken; the five names differ. A reason that no stream
  has ended with yet has no series at the start if it is one of the two of the refresher.
\<close>

lemma declared_distinct: "distinct (map metric_name declared)"
  by (simp add: declared_def)

lemma New_registry_misses:
  "set (help_values subscriberDisconnects) - series subscriberDisconnects New_registry
     = {''auth_revoked'', ''auth_unavailable''}"
  by (auto simp: series_def New_registry_def)

end
