(* ===== verification/Service.thy ===== *)
theory Service
  imports App_Lifecycle Metrics
begin

text \<open>
  The running service: every HTTP request handler, the router, the refreshers and the shutdown
  share the limits, the broadcaster and the metrics, and their steps interleave. A handler is
  the sequence of \<open>runHandshake\<close>, \<open>headersAndPreamble\<close>, \<open>stream\<close> and the deferred calls, cut where
  another goroutine can run in between; each step applies the operation of its component. The
  invariant \<open>service_ok\<close> ties the shared counters to the handlers that are open.
\<close>

subsection \<open>The phases of a handler\<close>

text \<open>
  \<open>Releasing\<close> is where every path ends: the deferred releases of \<open>runHandshakeAndWriter\<close> are
  what is left to do. The phases are ordered, and a handler only moves forward.
\<close>

datatype phase =
    Authenticating \<comment> \<open>a global place is taken; the backend is asked\<close>
  | Granted \<comment> \<open>the grant has come; the place of the user is next\<close>
  | Admitted \<comment> \<open>both places are taken and the table is granted\<close>
  | Opening \<comment> \<open>registered; the prelude is to be written\<close>
  | Live \<comment> \<open>in the loop of \<open>stream\<close>\<close>
  | Ending \<comment> \<open>the loop has returned; \<open>Deregister\<close> is next\<close>
  | Deregistered \<comment> \<open>the disconnect is to be counted\<close>
  | Releasing

fun phase_rank :: "phase \<Rightarrow> nat" where
  "phase_rank Authenticating = 0"
| "phase_rank Granted = 1"
| "phase_rank Admitted = 2"
| "phase_rank Opening = 3"
| "phase_rank Live = 4"
| "phase_rank Ending = 5"
| "phase_rank Deregistered = 6"
| "phase_rank Releasing = 7"

lemma phase_rank_inj: "phase_rank p = phase_rank q \<Longrightarrow> p = q"
  by (cases p; cases q) simp_all

instantiation phase :: linorder
begin

definition less_eq_phase :: "phase \<Rightarrow> phase \<Rightarrow> bool" where
  "p \<le> q \<longleftrightarrow> phase_rank p \<le> phase_rank q"

definition less_phase :: "phase \<Rightarrow> phase \<Rightarrow> bool" where
  "p < q \<longleftrightarrow> phase_rank p < phase_rank q"

instance
  by standard (auto simp: less_eq_phase_def less_phase_def intro: phase_rank_inj)

end

lemmas phase_order [simp] = less_eq_phase_def less_phase_def

subsection \<open>The state\<close>

record 'f conn =
  cn_pc :: phase
  cn_req :: http_request
  cn_kind :: kind
  cn_table :: string
  cn_pk :: string
  cn_channel :: string
  cn_startLSN :: lsn
  cn_hs :: handshake_result
  cn_auth :: auth_sub
  cn_stream :: "'f stream"

text \<open>The handlers are named by the subscriber they create.\<close>

record 'f service =
  sv_cfg :: sse_config
  sv_handler :: handler
  sv_bc :: "'f broadcaster"
  sv_reg :: registry
  sv_conns :: "sid \<Rightarrow> 'f conn option"

definition service_start :: "('f, 't) app \<Rightarrow> 'f service" where
  "service_start a =
     \<lparr>sv_cfg = app_SSEConfig a, sv_handler = app_SSEHandler a, sv_bc = app_RouterIndex a,
      sv_reg = New_registry, sv_conns = \<lambda>_. None\<rparr>"

definition kind_string :: "kind \<Rightarrow> string" where
  "kind_string k = (case k of KindExact \<Rightarrow> ''exact'' | KindWildcard \<Rightarrow> ''wildcard'' | KindOther s \<Rightarrow> s)"

definition set_sub :: "sid \<Rightarrow> 'f subscriber \<Rightarrow> 'f broadcaster \<Rightarrow> 'f broadcaster" where
  "set_sub s sub b = b\<lparr>bc_heap := (bc_heap b)(s := sub)\<rparr>"

definition set_limits :: "limits \<Rightarrow> 'f service \<Rightarrow> 'f service" where
  "set_limits l v = v\<lparr>sv_handler := (sv_handler v)\<lparr>h_limits := l\<rparr>\<rparr>"

definition set_conn :: "sid \<Rightarrow> 'f conn \<Rightarrow> 'f service \<Rightarrow> 'f service" where
  "set_conn s c v = v\<lparr>sv_conns := (sv_conns v)(s \<mapsto> c)\<rparr>"

abbreviation sv_limits :: "'f service \<Rightarrow> limits" where
  "sv_limits v \<equiv> h_limits (sv_handler v)"

subsection \<open>The steps of a handler\<close>

text \<open>The grant and the stream of a handler are filled in by \<open>start_stream\<close>.\<close>

definition blank_stream :: "'f subscriber \<Rightarrow> 'f stream" where
  "blank_stream sub =
     \<lparr>st_sub = sub, st_out = [], st_reason = ''client_closed'', st_sent = 0, st_disconnects = [],
      st_ended = False\<rparr>"

definition no_grant :: auth_sub where
  "no_grant = New_auth_sub \<lparr>InitialMap = None, ac_UserID = [], ac_Channel = [], ac_DefaultTTL = 0,
     ac_Backoffs = None\<rparr> 0"

definition new_conn :: "sse_world \<Rightarrow> http_request \<Rightarrow> lsn \<Rightarrow> 'f subscriber \<Rightarrow> 'f conn" where
  "new_conn W r startLSN sub =
     \<lparr>cn_pc = Authenticating, cn_req = r,
      cn_kind = (if r_pk r = ''all'' then KindWildcard else KindExact), cn_table = r_table r,
      cn_pk = (if r_pk r = ''all'' then [] else r_pk r), cn_channel = r_table r @ '':'' @ r_pk r,
      cn_startLSN = startLSN,
      cn_hs = zero_handshake\<lparr>hs_globalAcquired := True, hs_clientIP := clientIP W r\<rparr>,
      cn_auth = no_grant, cn_stream = blank_stream sub\<rparr>"

text \<open>
  \<open>AcquireGlobal\<close>, for a request whose path \<open>serveExact\<close> or \<open>serveWildcard\<close> takes
  (\<open>serveStream_cases\<close>); a refused request leaves no trace but its response.
\<close>

definition accept :: "sse_world \<Rightarrow> sid \<Rightarrow> http_request \<Rightarrow> lsn \<Rightarrow> 'f service \<Rightarrow> 'f service" where
  "accept W s r startLSN v =
     (case AcquireGlobal (sv_limits v) of
        (False, l) \<Rightarrow> set_limits l v
      | (True, l) \<Rightarrow> set_conn s (new_conn W r startLSN (bc_heap (sv_bc v) s)) (set_limits l v))"

definition ask_backend :: "sse_world \<Rightarrow> sid \<Rightarrow> 'f conn \<Rightarrow> 'f service \<Rightarrow> 'f service" where
  "ask_backend W s c v =
     (case authenticate W (cn_channel c) (cn_req c) (sv_handler v) (cn_hs c) fresh_response of
        ((False, hs), w, r, h) \<Rightarrow>
          set_conn s (c\<lparr>cn_pc := Releasing, cn_hs := hs, cn_req := r\<rparr>) (v\<lparr>sv_handler := h\<rparr>)
      | ((True, hs), w, r, h) \<Rightarrow>
          (case hs_authMap hs of
             None \<Rightarrow> set_conn s (c\<lparr>cn_pc := Releasing, cn_hs := hs, cn_req := r\<rparr>) (v\<lparr>sv_handler := h\<rparr>)
           | Some m \<Rightarrow>
               set_conn s (c\<lparr>cn_pc := Granted, cn_hs := hs\<lparr>hs_userID := UserID m\<rparr>, cn_req := r\<rparr>)
                 (v\<lparr>sv_handler := h\<rparr>)))"

definition admit_user :: "sid \<Rightarrow> 'f conn \<Rightarrow> 'f service \<Rightarrow> 'f service" where
  "admit_user s c v =
     (case AcquirePerUser (hs_userID (cn_hs c)) (sv_limits v) of
        ((False, _), l) \<Rightarrow> set_conn s (c\<lparr>cn_pc := Releasing\<rparr>) (set_limits l v)
      | ((True, _), l) \<Rightarrow>
          (let hs = (cn_hs c)\<lparr>hs_perUserAcquired := True\<rparr>;
               ok = (case hs_authMap hs of None \<Rightarrow> False | Some m \<Rightarrow> gm_get (wl_Tables m) (cn_table c) \<noteq> None)
           in set_conn s (c\<lparr>cn_pc := (if ok then Admitted else Releasing), cn_hs := hs\<rparr>) (set_limits l v)))"

text \<open>\<open>headersAndPreamble\<close>, the queue of \<open>stream\<close> and \<open>Register\<close>; nothing is on the wire yet.\<close>

definition start_stream :: "sse_world \<Rightarrow> response \<Rightarrow> string \<Rightarrow> int \<Rightarrow> sid \<Rightarrow> 'f conn \<Rightarrow> 'f service \<Rightarrow> 'f service" where
  "start_stream W w rnd now s c v =
     (case headersAndPreamble W (sv_cfg v) (cn_table c) (cn_pk c) (cn_channel c) (cn_kind c)
             (cn_startLSN c) (cn_hs c) (cn_req c) w rnd now of
        (sub0, a, _) \<Rightarrow>
          (let sub = WireSendFunc (queue_cap (sse_Router (sv_cfg v)) sub0) sub0
           in set_conn s (c\<lparr>cn_pc := Opening, cn_auth := a, cn_stream := blank_stream sub\<rparr>)
                (v\<lparr>sv_bc := Register s (set_sub s sub (sv_bc v)),
                   sv_reg := SubscribersActive (kind_string (cn_kind c)) 1 (sv_reg v)\<rparr>)))"

text \<open>The stream's state with the subscriber as it is now, and back after a step of the stream.\<close>

definition stream_now :: "sid \<Rightarrow> 'f conn \<Rightarrow> 'f service \<Rightarrow> 'f stream" where
  "stream_now s c v = (cn_stream c)\<lparr>st_sub := bc_heap (sv_bc v) s\<rparr>"

definition put_stream :: "sid \<Rightarrow> 'f conn \<Rightarrow> 'f stream \<Rightarrow> 'f service \<Rightarrow> 'f service" where
  "put_stream s c st v =
     set_conn s (c\<lparr>cn_pc := (if st_ended st then Ending else Live), cn_stream := st\<rparr>)
       (v\<lparr>sv_bc := set_sub s (st_sub st) (sv_bc v),
          sv_reg := (if st_sent (cn_stream c) < st_sent st
             then EventsSent (kind_string (cn_kind c)) (int (st_sent st) - int (st_sent (cn_stream c))) (sv_reg v)
             else sv_reg v)\<rparr>)"

text \<open>The first write: the prelude and the initial data.\<close>

definition open_stream :: "write_ev \<Rightarrow> sid \<Rightarrow> 'f conn \<Rightarrow> 'f service \<Rightarrow> 'f service" where
  "open_stream ev s c v =
     (let st = write_items [Ctl preludeFrame, Ctl (initial_frame (sv_cfg v) (cn_hs c))] ev (stream_now s c v)
      in put_stream s c (case ev of WriteOk \<Rightarrow> st | WriteFail _ timeout \<Rightarrow> fail_write timeout st) v)"

text \<open>One round of the loop. What others do to the subscriber are steps of their own.\<close>

fun own_event :: "stream_ev \<Rightarrow> bool" where
  "own_event (EnvSend _) = False"
| "own_event (EnvDrop _) = False"
| "own_event _ = True"

definition serve_stream :: "stream_ev \<Rightarrow> sid \<Rightarrow> 'f conn \<Rightarrow> 'f service \<Rightarrow> 'f service" where
  "serve_stream ev s c v =
     (let st = stream_now s c v
      in put_stream s c (stream_step (queue_cap (sse_Router (sv_cfg v)) (st_sub st)) ev st) v)"

text \<open>The deferred calls, in their order.\<close>

definition deregister_stream :: "sid \<Rightarrow> 'f conn \<Rightarrow> 'f service \<Rightarrow> 'f service" where
  "deregister_stream s c v =
     set_conn s (c\<lparr>cn_pc := Deregistered\<rparr>)
       (v\<lparr>sv_bc := Deregister s (sv_bc v),
          sv_reg := SubscribersActive (kind_string (cn_kind c)) (- 1) (sv_reg v)\<rparr>)"

definition count_disconnect :: "sid \<Rightarrow> 'f conn \<Rightarrow> 'f service \<Rightarrow> 'f service" where
  "count_disconnect s c v =
     set_conn s (c\<lparr>cn_pc := Releasing\<rparr>)
       (v\<lparr>sv_reg := SubscriberDisconnects (st_reason (cn_stream c)) 1 (sv_reg v)\<rparr>)"

definition release_places :: "sid \<Rightarrow> 'f conn \<Rightarrow> 'f service \<Rightarrow> 'f service" where
  "release_places s c v =
     (let v' = set_limits (release_all (cn_hs c) (sv_limits v)) v
      in v'\<lparr>sv_conns := (sv_conns v')(s := None)\<rparr>)"

text \<open>A round of the handler's refresher.\<close>

definition refresh_stream :: "attempt list \<Rightarrow> sid \<Rightarrow> 'f conn \<Rightarrow> 'f service \<Rightarrow> 'f service" where
  "refresh_stream as s c v =
     (case tryRefresh 0 as (cn_auth c, bc_heap (sv_bc v) s) of
        (_, a, sub) \<Rightarrow> set_conn s (c\<lparr>cn_auth := a\<rparr>) (v\<lparr>sv_bc := set_sub s (with_grant a sub) (sv_bc v)\<rparr>))"

subsection \<open>The transition system\<close>

text \<open>
  \<open>T\<close> holds the transactions that the reader delivers, in whatever order. Routing one transaction
  and a round of refreshing are single steps.
\<close>

inductive sv_step :: "('f, 't) encode_fn \<Rightarrow> ('f, 't) tx set \<Rightarrow> 'f service \<Rightarrow> 'f service \<Rightarrow> bool" for enc T where
  accepts: "sv_conns v s = None \<Longrightarrow> validTableName (r_table r) \<Longrightarrow> r_pk r \<noteq> [] \<Longrightarrow> length (r_pk r) \<le> 256 \<Longrightarrow>
    sv_step enc T v (accept W s r startLSN v)"
| asks: "sv_conns v s = Some c \<Longrightarrow> cn_pc c = Authenticating \<Longrightarrow> sv_step enc T v (ask_backend W s c v)"
| admits: "sv_conns v s = Some c \<Longrightarrow> cn_pc c = Granted \<Longrightarrow> sv_step enc T v (admit_user s c v)"
| starts: "sv_conns v s = Some c \<Longrightarrow> cn_pc c = Admitted \<Longrightarrow> sv_step enc T v (start_stream W w rnd now s c v)"
| opens: "sv_conns v s = Some c \<Longrightarrow> cn_pc c = Opening \<Longrightarrow> sv_step enc T v (open_stream ev s c v)"
| serves: "sv_conns v s = Some c \<Longrightarrow> cn_pc c = Live \<Longrightarrow> own_event sev \<Longrightarrow> sv_step enc T v (serve_stream sev s c v)"
| deregisters: "sv_conns v s = Some c \<Longrightarrow> cn_pc c = Ending \<Longrightarrow> sv_step enc T v (deregister_stream s c v)"
| counts: "sv_conns v s = Some c \<Longrightarrow> cn_pc c = Deregistered \<Longrightarrow> sv_step enc T v (count_disconnect s c v)"
| releases: "sv_conns v s = Some c \<Longrightarrow> cn_pc c = Releasing \<Longrightarrow> sv_step enc T v (release_places s c v)"
| refreshes: "sv_conns v s = Some c \<Longrightarrow> Opening \<le> cn_pc c \<Longrightarrow> cn_pc c \<le> Deregistered \<Longrightarrow>
    sv_step enc T v (refresh_stream as s c v)"
| routes: "tx \<in> T \<Longrightarrow> \<forall>l. mset (order l) = mset l \<Longrightarrow> sv_step enc T v (v\<lparr>sv_bc := routeTx enc order tx (sv_bc v)\<rparr>)"
| shuts_down: "sv_step enc T v (v\<lparr>sv_bc := Shutdown (sv_bc v)\<rparr>)"

end
