(* ===== verification/Service_Books.thy ===== *)
theory Service_Books
  imports Service
begin

text \<open>
  The books of the running service: in every state that its interleaved steps can reach, the
  admission limits, the indexes of the router and the metrics agree with the handlers that are
  open. Each step changes the entry of one handler; the counters change by what that entry
  contributes (\<open>map_total\<close>).
\<close>

subsection \<open>What a handler contributes\<close>

definition is_registered :: "'f conn \<Rightarrow> bool" where
  "is_registered c \<longleftrightarrow> Opening \<le> cn_pc c \<and> cn_pc c \<le> Ending"

definition is_uncounted :: "'f conn \<Rightarrow> bool" where
  "is_uncounted c \<longleftrightarrow> Opening \<le> cn_pc c \<and> cn_pc c \<le> Deregistered"

definition takes_global :: "'f conn \<Rightarrow> int" where
  "takes_global c = 1"

definition takes_user :: "string \<Rightarrow> 'f conn \<Rightarrow> int" where
  "takes_user u c = of_bool (hs_perUserAcquired (cn_hs c) \<and> hs_userID (cn_hs c) = u)"

definition shows_active :: "string \<Rightarrow> 'f conn \<Rightarrow> int" where
  "shows_active l c = of_bool (is_registered c \<and> l = kind_string (cn_kind c))"

definition to_count :: "'f conn \<Rightarrow> int" where
  "to_count c = of_bool (is_uncounted c)"

definition reasons :: "string set" where
  "reasons = set (help_values subscriberDisconnects)"

lemma reasons_simps [simp]:
  "''slow_consumer'' \<in> reasons" "''tx_too_large'' \<in> reasons" "''client_closed'' \<in> reasons"
  "''shutdown'' \<in> reasons" "''auth_revoked'' \<in> reasons" "''auth_unavailable'' \<in> reasons"
  by (simp_all add: reasons_def)

definition reason_ok :: "'f subscriber \<Rightarrow> bool" where
  "reason_ok sub \<longleftrightarrow> (\<forall>r. sub_reason sub = Some r \<longrightarrow> r \<in> reasons)"

text \<open>The handler and its subscriber, phase by phase.\<close>

definition hs_ok :: "'f conn \<Rightarrow> bool" where
  "hs_ok c \<longleftrightarrow>
     cn_kind c \<in> {KindExact, KindWildcard} \<and> hs_globalAcquired (cn_hs c)
     \<and> tableFromChannel (cn_channel c) = cn_table c \<and> cn_table c \<noteq> []
     \<and> (cn_pc c < Admitted \<longrightarrow> \<not> hs_perUserAcquired (cn_hs c))
     \<and> (Granted \<le> cn_pc c \<and> cn_pc c \<le> Deregistered \<longrightarrow>
          (\<exists>m. hs_authMap (cn_hs c) = Some m \<and> hs_userID (cn_hs c) = UserID m
             \<and> (Admitted \<le> cn_pc c \<longrightarrow> hs_perUserAcquired (cn_hs c) \<and> gm_get (wl_Tables m) (cn_table c) \<noteq> None)))"

text \<open>A grant of the handler's user that names its table.\<close>

definition names_table :: "'f conn \<Rightarrow> whitelist \<Rightarrow> bool" where
  "names_table c m \<longleftrightarrow> UserID m = hs_userID (cn_hs c) \<and> gm_get (wl_Tables m) (cn_table c) \<noteq> None"

definition grant_ok :: "'f conn \<Rightarrow> bool" where
  "grant_ok c \<longleftrightarrow>
     as_userID (cn_auth c) = hs_userID (cn_hs c) \<and> as_channel (cn_auth c) = cn_channel c
     \<and> (\<exists>m. AuthMap (cn_auth c) = Some m \<and> names_table c m)
     \<and> (\<forall>m. PrevWhitelist (cn_auth c) = Some m \<longrightarrow> names_table c m)"

lemma grant_ok_simps [simp]:
  "grant_ok (c\<lparr>cn_pc := p\<rparr>) = grant_ok c" "grant_ok (c\<lparr>cn_pc := p, cn_stream := st\<rparr>) = grant_ok c"
  by (simp_all add: grant_ok_def names_table_def)

definition stream_fits :: "'f subscriber \<Rightarrow> 'f conn \<Rightarrow> bool" where
  "stream_fits sub c \<longleftrightarrow>
     (is_uncounted c \<longrightarrow> sub_kind sub = cn_kind c \<and> sub_table sub = cn_table c \<and> sub_pk sub = cn_pk c
        \<and> reason_ok sub \<and> sub_Filter sub = Some (FilterWithLSN (cn_auth c)) \<and> grant_ok c)
     \<and> (Opening \<le> cn_pc c \<and> cn_pc c \<le> Live \<longrightarrow>
          \<not> st_ended (cn_stream c) \<and> st_reason (cn_stream c) = ''client_closed'')
     \<and> (Ending \<le> cn_pc c \<and> cn_pc c \<le> Deregistered \<longrightarrow> st_reason (cn_stream c) \<in> reasons)"

text \<open>Streams started so far: the increments of the gauge.\<close>

definition started :: "registry \<Rightarrow> int" where
  "started r = sum_list (map (\<lambda>(c, l, n). if c = subscribersActive \<and> 0 < n then n else 0) r)"

lemma started_call [simp]:
  "started New_registry = 0"
  "started (SubscribersActive l n r) = started r + (if 0 < n then n else 0)"
  "started (EventsSent l n r) = started r" "started (SubscriberDisconnects l n r) = started r"
  by (auto simp: started_def registry_defs New_registry_def)

definition books :: "'f service \<Rightarrow> bool" where
  "books v \<longleftrightarrow>
     finite (dom (sv_conns v))
     \<and> int (globalSem (sv_limits v)) = map_total takes_global (sv_conns v)
     \<and> (\<forall>u. user_count (sv_limits v) u = map_total (takes_user u) (sv_conns v))
     \<and> int (globalSem (sv_limits v)) \<le> GlobalConcurrent (lim_cfg (sv_limits v))
     \<and> (\<forall>u. user_count (sv_limits v) u \<le> PerUserConcurrentMax (lim_cfg (sv_limits v)))
     \<and> (\<forall>l. shown subscribersActive ((=) l) (sv_reg v) = map_total (shows_active l) (sv_conns v))
     \<and> started (sv_reg v) = shown subscriberDisconnects (\<lambda>_. True) (sv_reg v) + map_total to_count (sv_conns v)
     \<and> counters_ok (sv_reg v) \<and> documented (sv_reg v)"

definition conns_ok :: "'f service \<Rightarrow> bool" where
  "conns_ok v \<longleftrightarrow>
     bc_ok (sv_bc v)
     \<and> (\<forall>s. registered (sv_bc v) s \<longleftrightarrow> (\<exists>c. sv_conns v s = Some c \<and> is_registered c))
     \<and> (\<forall>s c. sv_conns v s = Some c \<longrightarrow> hs_ok c \<and> stream_fits (bc_heap (sv_bc v) s) c)"

definition service_ok :: "'f service \<Rightarrow> bool" where
  "service_ok v \<longleftrightarrow> conns_ok v \<and> books v"

lemmas contributions = takes_global_def takes_user_def shows_active_def to_count_def is_registered_def
  is_uncounted_def

subsection \<open>One entry changes\<close>

lemma set_conn_sel [simp]:
  "sv_conns (set_conn s c v) = (sv_conns v)(s \<mapsto> c)" "sv_bc (set_conn s c v) = sv_bc v"
  "sv_reg (set_conn s c v) = sv_reg v" "sv_handler (set_conn s c v) = sv_handler v" "sv_cfg (set_conn s c v) = sv_cfg v"
  by (simp_all add: set_conn_def)

lemma set_limits_sel [simp]:
  "sv_conns (set_limits l v) = sv_conns v" "sv_bc (set_limits l v) = sv_bc v" "sv_reg (set_limits l v) = sv_reg v"
  "h_limits (sv_handler (set_limits l v)) = l" "sv_cfg (set_limits l v) = sv_cfg v"
  by (simp_all add: set_limits_def)

text \<open>
  The books stay balanced when one entry changes and every counter moves by the difference of
  what the entry contributed before and after.
\<close>

lemma books_move:
  assumes "books v" and "sv_conns v' = (sv_conns v)(s := x)"
    and "lim_cfg (sv_limits v') = lim_cfg (sv_limits v)"
    and "int (globalSem (sv_limits v')) = int (globalSem (sv_limits v)) - entry takes_global (sv_conns v s) + entry takes_global x"
    and "\<And>u. user_count (sv_limits v') u = user_count (sv_limits v) u - entry (takes_user u) (sv_conns v s) + entry (takes_user u) x"
    and "int (globalSem (sv_limits v')) \<le> GlobalConcurrent (lim_cfg (sv_limits v))"
    and "\<And>u. user_count (sv_limits v') u \<le> PerUserConcurrentMax (lim_cfg (sv_limits v))"
    and "\<And>l. shown subscribersActive ((=) l) (sv_reg v')
        = shown subscribersActive ((=) l) (sv_reg v) - entry (shows_active l) (sv_conns v s) + entry (shows_active l) x"
    and "started (sv_reg v') - shown subscriberDisconnects (\<lambda>_. True) (sv_reg v')
        = started (sv_reg v) - shown subscriberDisconnects (\<lambda>_. True) (sv_reg v)
          - entry to_count (sv_conns v s) + entry to_count x"
    and "counters_ok (sv_reg v')" and "documented (sv_reg v')"
  shows "books v'"
proof -
  have fin: "finite (dom (sv_conns v))" using assms(1) by (simp add: books_def)
  have "finite (dom ((sv_conns v)(s := x)))"
    using fin by (cases x) (simp_all add: dom_fun_upd)
  moreover note upd = map_total_upd [OF fin, of _ s x]
  ultimately show ?thesis
    using assms(1,4-11) unfolding books_def assms(2,3) upd by simp
qed

lemma booksD:
  assumes "books v"
  shows "finite (dom (sv_conns v))"
    "int (globalSem (sv_limits v)) = map_total takes_global (sv_conns v)"
    "user_count (sv_limits v) u = map_total (takes_user u) (sv_conns v)"
    "int (globalSem (sv_limits v)) \<le> GlobalConcurrent (lim_cfg (sv_limits v))"
    "user_count (sv_limits v) u \<le> PerUserConcurrentMax (lim_cfg (sv_limits v))"
    "counters_ok (sv_reg v)"
    "shown subscribersActive ((=) l) (sv_reg v) = map_total (shows_active l) (sv_conns v)"
    "started (sv_reg v) = shown subscriberDisconnects (\<lambda>_. True) (sv_reg v) + map_total to_count (sv_conns v)"
    "documented (sv_reg v)"
  using assms unfolding books_def by blast+

text \<open>The frequent case: neither the limits nor the registry change.\<close>

lemma books_same:
  assumes "books v" and "sv_conns v' = (sv_conns v)(s := x)" and "sv_conns v s = Some c" and "x = Some c'"
    and "globalSem (sv_limits v') = globalSem (sv_limits v)" "user_count (sv_limits v') = user_count (sv_limits v)"
      "lim_cfg (sv_limits v') = lim_cfg (sv_limits v)"
    and "\<And>u. takes_user u c' = takes_user u c" and "\<And>l. shows_active l c' = shows_active l c"
    and "to_count c' = to_count c"
    and "sv_reg v' = sv_reg v"
  shows "books v'"
proof -
  note b = booksD [OF assms(1)]
  show ?thesis
    by (intro books_move [OF assms(1,2)]) (simp_all add: assms(3-11) takes_global_def b(4-6,9))
qed

text \<open>The handlers stay in order when one of them changes.\<close>

lemma conns_move:
  assumes "conns_ok v" and "sv_conns v' = (sv_conns v)(s := x)" and "bc_ok (sv_bc v')"
    and "\<And>t. registered (sv_bc v') t \<longleftrightarrow> (if t = s then (\<exists>c. x = Some c \<and> is_registered c) else registered (sv_bc v) t)"
    and "\<And>t. t \<noteq> s \<Longrightarrow> bc_heap (sv_bc v') t = bc_heap (sv_bc v) t"
    and "\<And>c. x = Some c \<Longrightarrow> hs_ok c \<and> stream_fits (bc_heap (sv_bc v') s) c"
  shows "conns_ok v'"
  using assms(1,3,4,5,6) unfolding conns_ok_def assms(2) by auto

lemma conns_same:
  assumes "conns_ok v" and "sv_conns v' = (sv_conns v)(s := x)" and "sv_bc v' = sv_bc v"
    and "entry (\<lambda>c. of_bool (is_registered c)) x = entry (\<lambda>c. of_bool (is_registered c)) (sv_conns v s)"
    and "\<And>c. x = Some c \<Longrightarrow> hs_ok c \<and> stream_fits (bc_heap (sv_bc v) s) c"
  shows "conns_ok v'"
proof (rule conns_move [OF assms(1,2)])
  show "registered (sv_bc v') t \<longleftrightarrow> (if t = s then (\<exists>c. x = Some c \<and> is_registered c) else registered (sv_bc v) t)" for t
    using assms(1,4) by (cases x; cases "sv_conns v s") (auto simp: assms(3) conns_ok_def of_bool_def split: if_splits)
qed (use assms(1,3,5) in \<open>auto simp: conns_ok_def\<close>)

lemma conns_okD:
  assumes "conns_ok v"
  shows "bc_ok (sv_bc v)" "registered (sv_bc v) s \<longleftrightarrow> (\<exists>c. sv_conns v s = Some c \<and> is_registered c)"
    "sv_conns v s = Some c \<Longrightarrow> hs_ok c" "sv_conns v s = Some c \<Longrightarrow> stream_fits (bc_heap (sv_bc v) s) c"
  using assms unfolding conns_ok_def by blast+

lemma entry_bool: "entry (\<lambda>c. of_bool (P c)) x = of_bool (\<exists>c. x = Some c \<and> P c)"
  by (cases x) simp_all

subsection \<open>The steps of the handshake\<close>

lemma authenticate_limits:
  assumes "authenticate W ch r0 h0 res wr = ((ok, hs'), w, r, h)"
  shows "h_limits h = h_limits h0"
proof (cases ok)
  case True
  with assms have "authenticate W ch r0 h0 res wr = ((True, hs'), w, r, h)" by simp
  then show ?thesis by (rule authenticate_True)
next
  case False
  with assms have "authenticate W ch r0 h0 res wr = ((False, hs'), w, r, h)" by simp
  then show ?thesis by (rule authenticate_False(2))
qed

lemma accept_ok:
  assumes "service_ok v" and "sv_conns v s = None" and "validTableName (r_table r)"
  shows "service_ok (accept W s r startLSN v)"
proof -
  let ?l = "snd (AcquireGlobal (sv_limits v))"
  let ?c = "new_conn W r startLSN (bc_heap (sv_bc v) s)"
  have c: "conns_ok v" and b: "books v" using assms(1) by (simp_all add: service_ok_def)
  have l: "lim_cfg ?l = lim_cfg (sv_limits v)" by (simp add: AcquireGlobal_def)
  have users: "user_count ?l = user_count (sv_limits v)"
    by (rule global.keeps_others(1))
  have t: "tableFromChannel (r_table r @ '':'' @ r_pk r) = r_table r" "r_table r \<noteq> []"
    using validTableName_plain [OF assms(3)] tableFromChannel_plain [of "r_table r" "r_pk r"] by simp_all
  note used = global.acquire_used [of "sv_limits v"] and within = global.acquire_within [OF booksD(4) [OF b]]
  show ?thesis
  proof (cases "fst (AcquireGlobal (sv_limits v))")
    case True
    then have "AcquireGlobal (sv_limits v) = (True, ?l)" by (simp add: prod_eq_iff)
    then have e: "accept W s r startLSN v = set_conn s ?c (set_limits ?l v)"
      unfolding accept_def by (metis (no_types, lifting) case_prod_conv bool.case(1) snd_conv)
    have "books (set_conn s ?c (set_limits ?l v))"
      by (rule books_move [OF b, of _ s "Some ?c"])
        (use assms(2) True used within l booksD(5,6,9) [OF b] in
          \<open>simp_all add: users contributions new_conn_def zero_handshake_def\<close>)
    moreover have "conns_ok (set_conn s ?c (set_limits ?l v))"
      by (rule conns_same [OF c, of _ s "Some ?c"])
        (use assms(2) t in \<open>auto simp: contributions new_conn_def zero_handshake_def hs_ok_def stream_fits_def\<close>)
    ultimately show ?thesis unfolding e by (simp add: service_ok_def)
  next
    case False
    then have "AcquireGlobal (sv_limits v) = (False, sv_limits v)" by (simp add: AcquireGlobal_def split: if_splits)
    then have "accept W s r startLSN v = v" by (simp add: accept_def set_limits_def)
    with assms(1) show ?thesis by simp
  qed
qed

lemma ask_backend_ok:
  assumes "service_ok v" and "sv_conns v s = Some c" and "cn_pc c = Authenticating"
  shows "service_ok (ask_backend W s c v)"
proof -
  have cs: "conns_ok v" and b: "books v" using assms(1) by (simp_all add: service_ok_def)
  have hs: "hs_ok c" by (rule conns_okD(3) [OF cs assms(2)])
  have move: "service_ok (set_conn s c' (v\<lparr>sv_handler := h\<rparr>))"
    if "h_limits h = sv_limits v" "cn_kind c' = cn_kind c" "hs_ok c'" "cn_pc c' = Granted \<or> cn_pc c' = Releasing"
      "\<not> hs_perUserAcquired (cn_hs c')" for c' h
  proof -
    have "\<not> hs_perUserAcquired (cn_hs c)" using hs assms(3) by (simp add: hs_ok_def)
    then have "books (set_conn s c' (v\<lparr>sv_handler := h\<rparr>))"
      by (intro books_same [OF b _ assms(2), of _ "Some c'" c'])
        (use that assms(3) in \<open>auto simp: contributions\<close>)
    moreover have "conns_ok (set_conn s c' (v\<lparr>sv_handler := h\<rparr>))"
      by (rule conns_same [OF cs, of _ s "Some c'"])
        (use that assms(2,3) in \<open>auto simp: contributions stream_fits_def\<close>)
    ultimately show ?thesis by (simp add: service_ok_def)
  qed
  obtain ok hs' w r h where a: "authenticate W (cn_channel c) (cn_req c) (sv_handler v) (cn_hs c) fresh_response
      = ((ok, hs'), w, r, h)" by (metis prod.exhaust)
  show ?thesis
  proof (cases ok)
    case False
    then have "ask_backend W s c v
        = set_conn s (c\<lparr>cn_pc := Releasing, cn_hs := hs', cn_req := r\<rparr>) (v\<lparr>sv_handler := h\<rparr>)"
      by (simp add: ask_backend_def a)
    moreover have "hs' = cn_hs c" "h_limits h = sv_limits v"
      using authenticate_False(1,2) [of W _ _ _ _ _ hs' w r h] a False by metis+
    ultimately show ?thesis using hs assms(3) by (simp add: move hs_ok_def)
  next
    case True
    then obtain m where m: "hs_authMap hs' = Some m" "h_limits h = sv_limits v"
      "hs_globalAcquired hs' = hs_globalAcquired (cn_hs c)" "hs_perUserAcquired hs' = hs_perUserAcquired (cn_hs c)"
      using authenticate_True [of W _ _ _ _ _ hs' w r h] a by metis
    then have "ask_backend W s c v
        = set_conn s (c\<lparr>cn_pc := Granted, cn_hs := hs'\<lparr>hs_userID := UserID m\<rparr>, cn_req := r\<rparr>) (v\<lparr>sv_handler := h\<rparr>)"
      using True by (simp add: ask_backend_def a)
    then show ?thesis using hs m assms(3) by (simp add: move hs_ok_def)
  qed
qed

lemma admit_user_ok:
  assumes "service_ok v" and "sv_conns v s = Some c" and "cn_pc c = Granted"
  shows "service_ok (admit_user s c v)"
proof -
  have cs: "conns_ok v" and b: "books v" using assms(1) by (simp_all add: service_ok_def)
  have hs: "hs_ok c" by (rule conns_okD(3) [OF cs assms(2)])
  let ?u = "hs_userID (cn_hs c)"
  have user: "\<not> hs_perUserAcquired (cn_hs c)" using hs assms(3) by (simp add: hs_ok_def)
  obtain ok n l where a: "AcquirePerUser ?u (sv_limits v) = ((ok, n), l)" by (metis prod.exhaust)
  note cnt = AcquirePerUser_count [of ?u "sv_limits v", unfolded a, simplified]
  have bound: "user_count l x \<le> PerUserConcurrentMax (lim_cfg (sv_limits v))" for x
    using booksD(5) [OF b, of x] cnt(1,2) by auto
  have move: "service_ok (set_conn s c' (set_limits l v))"
    if "hs_ok c'" "cn_kind c' = cn_kind c" "hs_userID (cn_hs c') = ?u" "hs_perUserAcquired (cn_hs c') = ok"
      "cn_pc c' = Admitted \<or> cn_pc c' = Releasing" for c'
  proof -
    have "books (set_conn s c' (set_limits l v))"
      by (rule books_move [OF b, of _ s "Some c'"])
        (use that assms(2,3) user bound cnt booksD(4,6,9) [OF b] in \<open>auto simp: contributions\<close>)
    moreover have "conns_ok (set_conn s c' (set_limits l v))"
      by (rule conns_same [OF cs, of _ s "Some c'"])
        (use that assms(2,3) in \<open>auto simp: contributions stream_fits_def\<close>)
    ultimately show ?thesis by (simp add: service_ok_def)
  qed
  show ?thesis
  proof (cases ok)
    case False
    then have "admit_user s c v = set_conn s (c\<lparr>cn_pc := Releasing\<rparr>) (set_limits l v)"
      by (simp add: admit_user_def a)
    then show ?thesis using hs user assms(3) False by (auto intro!: move simp: hs_ok_def)
  next
    case True
    define hs' where "hs' = (cn_hs c)\<lparr>hs_perUserAcquired := True\<rparr>"
    define fine where "fine \<longleftrightarrow> (case hs_authMap hs' of None \<Rightarrow> False | Some m \<Rightarrow> gm_get (wl_Tables m) (cn_table c) \<noteq> None)"
    have "admit_user s c v
        = set_conn s (c\<lparr>cn_pc := (if fine then Admitted else Releasing), cn_hs := hs'\<rparr>) (set_limits l v)"
      using True by (simp add: admit_user_def a fine_def hs'_def Let_def)
    then show ?thesis
      using hs assms(3) True by (auto intro!: move simp: hs_ok_def hs'_def fine_def split: option.splits)
  qed
qed

subsection \<open>The steps of the stream\<close>

definition same_channel :: "'f subscriber \<Rightarrow> 'f subscriber \<Rightarrow> bool" where
  "same_channel sub sub' \<longleftrightarrow>
     sub_kind sub' = sub_kind sub \<and> sub_schema sub' = sub_schema sub \<and> sub_table sub' = sub_table sub
     \<and> sub_pk sub' = sub_pk sub \<and> sub_Filter sub' = sub_Filter sub"

lemma same_channel_simps [simp]:
  "same_channel sub sub" "same_channel sub (Drop r sub)" "same_channel sub (snd (Send f sub))"
  "same_channel sub (dispatch cfg enc tx sub)"
  by (auto simp: same_channel_def Send_def Drop_def split: option.splits)

lemma set_sub_sel [simp]:
  "bc_heap (set_sub s sub b) = (bc_heap b)(s := sub)" "bc_closed (set_sub s sub b) = bc_closed b"
  "registered (set_sub s sub b) t \<longleftrightarrow> registered b t"
  by (simp_all add: set_sub_def registered_def shutdown_subs_def)

lemma set_sub_ok: "bc_ok b \<Longrightarrow> same_channel (bc_heap b s) sub \<Longrightarrow> bc_ok (set_sub s sub b)"
  using bc_ok_heap [of b "(bc_heap b)(s := sub)" "bc_closed b"] by (simp add: set_sub_def same_channel_def)

lemma set_sub_ok': "bc_ok (set_sub s sub b) \<Longrightarrow> bc_ok (set_sub s (with_grant a sub) b)"
  using bc_ok_heap [of "set_sub s sub b" "(bc_heap b)(s := with_grant a sub)" "bc_closed b"]
  by (simp add: set_sub_def with_grant_def)

lemma set_sub_new:
  assumes "bc_ok b" and "\<not> registered b s"
  shows "bc_ok (set_sub s sub b)"
proof -
  have "s \<notin> set (exact_Lookup (bc_exact b) k)" "s \<notin> set (wild_Lookup (bc_wildcard b) k)" for k
    using assms by (auto simp: registered_def shutdown_subs_def bc_ok_def exact.snap_all wild.snap_all)
  then show ?thesis
    using assms(1) by (auto simp: bc_ok_def keyed_def set_sub_def ExactLen_def WildcardLen_def)
qed

lemma reason_ok_Drop: "reason_ok sub \<Longrightarrow> r \<in> reasons \<Longrightarrow> reason_ok (Drop r sub)"
  by (simp add: reason_ok_def Drop_def)

lemma failure_reason: "writeFailureReason t \<in> reasons"
  by (simp add: writeFailureReason_def)

lemma reason_Reason: "reason_ok sub \<Longrightarrow> Reason sub \<noteq> [] \<Longrightarrow> Reason sub \<in> reasons"
  by (auto simp: reason_ok_def Reason_def split: option.splits)

text \<open>A stream that still runs, under a subscriber that was dropped for a documented reason at most.\<close>

definition running :: "'f stream \<Rightarrow> bool" where
  "running st \<longleftrightarrow> \<not> st_ended st \<and> st_reason st = ''client_closed'' \<and> reason_ok (st_sub st)"

definition stepped :: "'f stream \<Rightarrow> 'f stream \<Rightarrow> bool" where
  "stepped st st' \<longleftrightarrow>
     same_channel (st_sub st) (st_sub st') \<and> reason_ok (st_sub st') \<and> st_sent st \<le> st_sent st'
     \<and> (if st_ended st' then st_reason st' \<in> reasons else st_reason st' = ''client_closed'')"

lemma stepped_fail: "running st \<Longrightarrow> st_sub st' = st_sub st \<Longrightarrow> st_sent st' = st_sent st \<Longrightarrow> stepped st (fail_write t st')"
  using failure_reason [of t]
  by (simp add: running_def stepped_def reason_ok_Drop fail_write_def Let_def)

lemma stepped_finish:
  assumes "running st" and "same_channel (st_sub st) (st_sub st')" and "sub_reason (st_sub st') = sub_reason (st_sub st)"
    and "st_sent st' = st_sent st"
  shows "stepped st (finish ev st')"
proof -
  have r: "reason_ok (st_sub st')" using assms(1,3) by (simp add: running_def reason_ok_def)
  have "st_reason (finish ev st') \<in> reasons"
    using reason_Reason [OF r] by (auto simp: finish_def Let_def)
  with r assms(2,4) show ?thesis by (simp add: stepped_def)
qed

lemma take_batch_channel: "take_batch cap sub = (fs, sub') \<Longrightarrow> same_channel sub sub'"
  by (auto simp: take_batch_def same_channel_def split: option.splits)

lemma stream_step_stepped:
  assumes "running st" and "own_event ev"
  shows "stepped st (stream_step cap ev st)"
proof -
  have idle: "stepped st st" using assms(1) by (simp add: running_def stepped_def)
  show ?thesis
  proof (cases ev)
    case (EvQueue w)
    obtain fs sub' where t: "take_batch cap (st_sub st) = (fs, sub')" by fastforce
    note ch = take_batch_channel [OF t] and q = take_batch_queue [OF t]
    have st1: "running (st\<lparr>st_sub := sub'\<rparr>)" using assms(1) q by (simp add: running_def reason_ok_def)
    have lift: "stepped st st'" if "stepped (st\<lparr>st_sub := sub'\<rparr>) st'" for st'
      using that ch by (auto simp: stepped_def same_channel_def)
    show ?thesis
    proof (cases w)
      case WriteOk
      have "stepped (st\<lparr>st_sub := sub'\<rparr>) ((write_items xs WriteOk (st\<lparr>st_sub := sub'\<rparr>))\<lparr>st_sent := st_sent st + n\<rparr>)" for xs n
        using st1 by (simp add: stepped_def running_def)
      then show ?thesis
        using EvQueue WriteOk t assms(1) idle st1 by (auto simp: Let_def intro!: lift stepped_finish)
    next
      case (WriteFail n t')
      then show ?thesis
        using EvQueue t assms(1) idle st1 by (auto simp: Let_def intro!: lift stepped_finish stepped_fail)
    qed
  next
    case (EvHeartbeat w)
    show ?thesis
    proof (cases w)
      case WriteOk
      have "stepped st (write_items [Ctl EncodeHeartbeat] WriteOk st)"
        using assms(1) by (simp add: running_def stepped_def)
      with EvHeartbeat WriteOk idle show ?thesis by (simp add: Let_def)
    next
      case (WriteFail n t)
      have "stepped st (fail_write t (write_items [Ctl EncodeHeartbeat] w st))"
        by (rule stepped_fail [OF assms(1)]) simp_all
      with EvHeartbeat WriteFail idle show ?thesis by (simp add: Let_def)
    qed
  next
    case EvCtxDone
    then show ?thesis using assms(1) by (auto simp: running_def stepped_def reason_ok_Drop)
  next
    case (EvSubDone w)
    then show ?thesis using assms(1) idle by (auto intro: stepped_finish)
  qed (use assms(2) in simp_all)
qed

lemma stream_now_running:
  assumes "conns_ok v" and "sv_conns v s = Some c" and "cn_pc c = Opening \<or> cn_pc c = Live"
  shows "running (stream_now s c v)" "is_registered c" "hs_ok c" "stream_fits (bc_heap (sv_bc v) s) c"
  using assms conns_okD(3,4) [OF assms(1,2)]
  by (auto simp: running_def stream_now_def stream_fits_def is_uncounted_def is_registered_def)

text \<open>Past its admission a handler keeps its handshake.\<close>

lemma hs_ok_later:
  assumes "hs_ok c" and "cn_hs c' = cn_hs c" "cn_kind c' = cn_kind c" "cn_table c' = cn_table c"
      "cn_channel c' = cn_channel c"
    and "Admitted \<le> cn_pc c" "cn_pc c \<le> Deregistered" "Admitted \<le> cn_pc c'"
  shows "hs_ok c'"
  using assms(1,6-8) unfolding hs_ok_def assms(2-5) by auto

lemma is_registered_uncounted: "is_registered c \<Longrightarrow> is_uncounted c"
  by (simp add: is_registered_def is_uncounted_def)

lemma kind_string_active: "cn_kind c \<in> {KindExact, KindWildcard} \<Longrightarrow> kind_string (cn_kind c) \<in> {''exact'', ''wildcard''}"
  by (auto simp: kind_string_def)

lemma put_stream_ok:
  assumes "service_ok v" and "sv_conns v s = Some c" and "cn_pc c = Opening \<or> cn_pc c = Live"
    and "stepped (stream_now s c v) st"
  shows "service_ok (put_stream s c st v)"
proof -
  have cs: "conns_ok v" and b: "books v" using assms(1) by (simp_all add: service_ok_def)
  note now = stream_now_running [OF cs assms(2,3)]
  let ?c = "c\<lparr>cn_pc := (if st_ended st then Ending else Live), cn_stream := st\<rparr>"
  let ?reg = "sv_reg (put_stream s c st v)"
  have ch: "same_channel (bc_heap (sv_bc v) s) (st_sub st)" and sent: "st_sent (cn_stream c) \<le> st_sent st"
    using assms(4) by (simp_all add: stepped_def stream_now_def)
  have conns: "sv_conns (put_stream s c st v) = (sv_conns v)(s := Some ?c)"
    "sv_bc (put_stream s c st v) = set_sub s (st_sub st) (sv_bc v)"
    "sv_handler (put_stream s c st v) = sv_handler v"
    by (simp_all add: put_stream_def)
  have k: "kind_string (cn_kind c) \<in> set (help_values eventsSentTotal)"
    using now(3) kind_string_active [of c] by (simp add: hs_ok_def)
  have reg: "shown subscribersActive P ?reg = shown subscribersActive P (sv_reg v)"
    "shown subscriberDisconnects P ?reg = shown subscriberDisconnects P (sv_reg v)"
    "started ?reg = started (sv_reg v)" "counters_ok ?reg" "documented ?reg" for P
    using booksD(6,9) [OF b] k by (simp_all add: put_stream_def)
  have "books (put_stream s c st v)"
    by (rule books_move [OF b conns(1)])
      (use now(2,3) reg booksD(4,5) [OF b] assms(2,3) in \<open>auto simp: conns contributions\<close>)
  moreover have "conns_ok (put_stream s c st v)"
  proof (rule conns_move [OF cs conns(1)])
    show "bc_ok (sv_bc (put_stream s c st v))"
      using set_sub_ok [OF conns_okD(1) [OF cs] ch] by (simp add: conns)
    show "registered (sv_bc (put_stream s c st v)) t \<longleftrightarrow>
        (if t = s then (\<exists>c. Some ?c = Some c \<and> is_registered c) else registered (sv_bc v) t)" for t
      using conns_okD(2) [OF cs, of s] assms(2) now(2) by (simp add: conns is_registered_def)
    have "hs_ok ?c" by (rule hs_ok_later [OF now(3)]) (use assms(3) in auto)
    moreover have "stream_fits (st_sub st) ?c"
      using now(4) ch assms(4) is_registered_uncounted [OF now(2)]
      by (cases "st_ended st") (simp_all add: stream_now_def stream_fits_def stepped_def same_channel_def is_uncounted_def)
    ultimately show "hs_ok c' \<and> stream_fits (bc_heap (sv_bc (put_stream s c st v)) s) c'" if "Some ?c = Some c'" for c'
      using that by (auto simp: conns)
  qed (simp add: conns)
  ultimately show ?thesis by (simp add: service_ok_def)
qed

lemma open_stream_ok:
  assumes "service_ok v" and "sv_conns v s = Some c" and "cn_pc c = Opening"
  shows "service_ok (open_stream ev s c v)"
proof -
  have run: "running (stream_now s c v)"
    using assms stream_now_running(1) [of v s c] by (simp add: service_ok_def)
  let ?st = "write_items [Ctl preludeFrame, Ctl (initial_frame (sv_cfg v) (cn_hs c))] ev (stream_now s c v)"
  have "stepped (stream_now s c v) ?st" using run by (simp add: running_def stepped_def)
  moreover have "stepped (stream_now s c v) (fail_write t ?st)" for t by (rule stepped_fail [OF run]) simp_all
  ultimately show ?thesis
    using assms unfolding open_stream_def Let_def by (intro put_stream_ok) (auto split: write_ev.split)
qed

lemma serve_stream_ok:
  assumes "service_ok v" and "sv_conns v s = Some c" and "cn_pc c = Live" and "own_event ev"
  shows "service_ok (serve_stream ev s c v)"
proof -
  have "running (stream_now s c v)"
    using assms stream_now_running(1) [of v s c] by (simp add: service_ok_def)
  from stream_step_stepped [OF this assms(4)] show ?thesis
    using assms(1-3) unfolding serve_stream_def Let_def by (intro put_stream_ok) simp_all
qed

lemma Register_heap:
  "bc_heap (Register s b) s = (if bc_closed b then Drop ''shutdown'' (bc_heap b s) else bc_heap b s)"
  by (auto simp: Register_def register_check_def register_add_eq split: kind.splits)

lemma start_stream_ok:
  fixes v :: "'f service"
  assumes "service_ok v" and "sv_conns v s = Some c" and "cn_pc c = Admitted"
  shows "service_ok (start_stream W w rnd now s c v)"
proof -
  have cs: "conns_ok v" and b: "books v" using assms(1) by (simp_all add: service_ok_def)
  have hs: "hs_ok c" by (rule conns_okD(3) [OF cs assms(2)])
  obtain sub0 :: "'f subscriber" and a w' where h: "headersAndPreamble W (sv_cfg v) (cn_table c) (cn_pk c) (cn_channel c) (cn_kind c)
      (cn_startLSN c) (cn_hs c) (cn_req c) w rnd now = (sub0, a, w')" by (metis prod.exhaust)
  define sub where "sub = WireSendFunc (queue_cap (sse_Router (sv_cfg v)) sub0) sub0"
  define c' where "c' = c\<lparr>cn_pc := Opening, cn_auth := a, cn_stream := blank_stream sub\<rparr>"
  let ?bc = "set_sub s sub (sv_bc v)"
  let ?v = "start_stream W w rnd now s c v"
  have sub: "sub_kind sub = cn_kind c" "sub_table sub = cn_table c" "sub_pk sub = cn_pk c" "reason_ok sub"
    "sub_Filter sub = Some (FilterWithLSN a)"
    using h by (auto simp: headersAndPreamble_def Let_def sub_def WireSendFunc_def with_grant_def NewSubscriber_def reason_ok_def)
  have "a = New_auth_sub \<lparr>InitialMap = hs_authMap (cn_hs c), ac_UserID = hs_userID (cn_hs c), ac_Channel = cn_channel c,
      ac_DefaultTTL = wrap_int (DefaultTTLSeconds (sse_Auth (sv_cfg v)) * second_ns), ac_Backoffs = None\<rparr> now"
    using h by (simp add: headersAndPreamble_def Let_def)
  moreover obtain m where m: "hs_authMap (cn_hs c) = Some m" "hs_userID (cn_hs c) = UserID m"
      "gm_get (wl_Tables m) (cn_table c) \<noteq> None"
    using hs assms(3) by (auto simp: hs_ok_def)
  ultimately have grant: "grant_ok c'"
    by (auto simp: grant_ok_def names_table_def c'_def New_auth_sub_def)
  have v: "sv_conns ?v = (sv_conns v)(s := Some c')" "sv_bc ?v = Register s ?bc" "sv_handler ?v = sv_handler v"
    "sv_reg ?v = SubscribersActive (kind_string (cn_kind c)) 1 (sv_reg v)"
    by (simp_all add: start_stream_def h Let_def sub_def c'_def)
  have old: "\<not> is_registered c" "\<not> is_uncounted c" using assms(3) by (simp_all add: is_registered_def is_uncounted_def)
  have nr: "\<not> registered (sv_bc v) s" using conns_okD(2) [OF cs, of s] assms(2) old(1) by simp
  have bc: "bc_ok ?bc" "\<not> registered ?bc s" using set_sub_new [OF conns_okD(1) [OF cs] nr] nr by simp_all
  have k: "sub_kind (bc_heap ?bc s) = KindExact \<or> sub_kind (bc_heap ?bc s) = KindWildcard"
    using hs by (simp add: hs_ok_def sub(1))
  have new: "is_registered c'" "is_uncounted c'" "cn_kind c' = cn_kind c" "cn_hs c' = cn_hs c"
    by (simp_all add: c'_def is_registered_def is_uncounted_def)
  have "books ?v"
    by (rule books_move [OF b v(1)])
      (use old new assms(2) booksD(4,5,6,9) [OF b] kind_string_active [of c] hs in
        \<open>simp_all add: v takes_global_def takes_user_def shows_active_def to_count_def hs_ok_def\<close>)
  moreover have "conns_ok ?v"
  proof (rule conns_move [OF cs v(1)])
    show "bc_ok (sv_bc ?v)"
      unfolding v(2) Register_def by (rule register_check_ok [OF register_add_ok [OF bc]])
    show "registered (sv_bc ?v) t \<longleftrightarrow>
        (if t = s then (\<exists>c. Some c' = Some c \<and> is_registered c) else registered (sv_bc v) t)" for t
      using new(1) by (simp add: v registered_Register [OF bc k])
    show "bc_heap (sv_bc ?v) t = bc_heap (sv_bc v) t" if "t \<noteq> s" for t
      using that by (simp add: v Register_facts(3))
    have "hs_ok c'" by (rule hs_ok_later [OF hs]) (simp_all add: c'_def assms(3))
    moreover have "stream_fits (bc_heap (sv_bc ?v) s) c'"
      using sub grant reason_ok_Drop [OF sub(4), of "''shutdown''"]
      by (auto simp: v Register_heap stream_fits_def Drop_def) (simp_all add: c'_def blank_stream_def)
    ultimately show "hs_ok x \<and> stream_fits (bc_heap (sv_bc ?v) s) x" if "Some c' = Some x" for x
      using that by simp
  qed
  ultimately show ?thesis by (simp add: service_ok_def)
qed

subsection \<open>The deferred calls\<close>

lemma deregister_stream_ok:
  assumes "service_ok v" and "sv_conns v s = Some c" and "cn_pc c = Ending"
  shows "service_ok (deregister_stream s c v)"
proof -
  have cs: "conns_ok v" and b: "books v" using assms(1) by (simp_all add: service_ok_def)
  note now = conns_okD(3,4) [OF cs assms(2)]
  let ?c = "c\<lparr>cn_pc := Deregistered\<rparr>"
  let ?v = "deregister_stream s c v"
  have old: "is_registered c" "is_uncounted c" using assms(3) by (simp_all add: is_registered_def is_uncounted_def)
  have new: "\<not> is_registered ?c" "is_uncounted ?c" by (simp_all add: is_registered_def is_uncounted_def)
  have v: "sv_conns ?v = (sv_conns v)(s := Some ?c)" "sv_bc ?v = Deregister s (sv_bc v)" "sv_handler ?v = sv_handler v"
    "sv_reg ?v = SubscribersActive (kind_string (cn_kind c)) (- 1) (sv_reg v)"
    by (simp_all add: deregister_stream_def)
  have r: "registered (sv_bc v) s" using conns_okD(2) [OF cs, of s] assms(2) old(1) by simp
  have "books ?v"
    by (rule books_move [OF b v(1)])
      (use old new assms(2) booksD(4,5,6,9) [OF b] kind_string_active [of c] now(1) in
        \<open>simp_all add: v takes_global_def takes_user_def shows_active_def to_count_def hs_ok_def\<close>)
  moreover have "conns_ok ?v"
  proof (rule conns_move [OF cs v(1)])
    show "bc_ok (sv_bc ?v)" unfolding v(2) by (rule Deregister_keeps [OF conns_okD(1) [OF cs] r])
    show "registered (sv_bc ?v) t \<longleftrightarrow>
        (if t = s then (\<exists>c. Some ?c = Some c \<and> is_registered c) else registered (sv_bc v) t)" for t
      using new(1) by (simp add: v registered_Deregister [OF conns_okD(1) [OF cs] r])
    have "hs_ok ?c" by (rule hs_ok_later [OF now(1)]) (simp_all add: assms(3))
    moreover have "stream_fits (bc_heap (sv_bc v) s) ?c"
      using now(2) assms(3) by (simp add: stream_fits_def is_uncounted_def)
    ultimately show "hs_ok x \<and> stream_fits (bc_heap (sv_bc ?v) s) x" if "Some ?c = Some x" for x
      using that by (auto simp: v Deregister_facts)
  qed (simp add: v Deregister_facts)
  ultimately show ?thesis by (simp add: service_ok_def)
qed

lemma count_disconnect_ok:
  assumes "service_ok v" and "sv_conns v s = Some c" and "cn_pc c = Deregistered"
  shows "service_ok (count_disconnect s c v)"
proof -
  have cs: "conns_ok v" and b: "books v" using assms(1) by (simp_all add: service_ok_def)
  note now = conns_okD(3,4) [OF cs assms(2)]
  let ?c = "c\<lparr>cn_pc := Releasing\<rparr>"
  let ?v = "count_disconnect s c v"
  have v: "sv_conns ?v = (sv_conns v)(s := Some ?c)" "sv_bc ?v = sv_bc v" "sv_handler ?v = sv_handler v"
    "sv_reg ?v = SubscriberDisconnects (st_reason (cn_stream c)) 1 (sv_reg v)"
    by (simp_all add: count_disconnect_def)
  have "st_reason (cn_stream c) \<in> reasons" using now(2) assms(3) by (simp add: stream_fits_def)
  then have "books ?v"
    by (intro books_move [OF b v(1)])
      (use assms(2,3) booksD(4,5,6,9) [OF b] in \<open>simp_all add: v contributions reasons_def [symmetric] del: help_values.simps\<close>)
  moreover have "conns_ok ?v"
    by (rule conns_same [OF cs v(1,2)])
      (use assms(2,3) now(1) in \<open>auto simp: contributions stream_fits_def hs_ok_def\<close>)
  ultimately show ?thesis by (simp add: service_ok_def)
qed

lemma release_places_ok:
  assumes "service_ok v" and "sv_conns v s = Some c" and "cn_pc c = Releasing"
  shows "service_ok (release_places s c v)"
proof -
  have cs: "conns_ok v" and b: "books v" using assms(1) by (simp_all add: service_ok_def)
  have hs: "hs_globalAcquired (cn_hs c)" using conns_okD(3) [OF cs assms(2)] by (simp add: hs_ok_def)
  let ?v = "release_places s c v"
  let ?l = "release_all (cn_hs c) (sv_limits v)"
  let ?u = "hs_userID (cn_hs c)"
  have v: "sv_conns ?v = (sv_conns v)(s := None)" "sv_bc ?v = sv_bc v" "sv_limits ?v = ?l" "sv_reg ?v = sv_reg v"
    by (simp_all add: release_places_def Let_def)
  have "takes_global c \<le> int (globalSem (sv_limits v))"
    unfolding booksD(2) [OF b] by (rule map_total_ge [OF booksD(1) [OF b] _ assms(2)]) (simp add: takes_global_def)
  then have g: "0 < int (globalSem (sv_limits v))" by (simp add: takes_global_def)
  have "takes_user ?u c \<le> user_count (sv_limits v) ?u"
    unfolding booksD(3) [OF b] by (rule map_total_ge [OF booksD(1) [OF b] _ assms(2)]) (simp add: takes_user_def)
  then have u: "hs_perUserAcquired (cn_hs c) \<Longrightarrow> 0 < user_count (ReleaseGlobal (sv_limits v)) ?u"
    using global.keeps_others(2) [of "sv_limits v"] by (simp add: takes_user_def)
  have l: "lim_cfg ?l = lim_cfg (sv_limits v)" "int (globalSem ?l) = int (globalSem (sv_limits v)) - 1"
    "user_count ?l x = user_count (sv_limits v) x - takes_user x c" for x
    using hs global.release_used [OF g] global.keeps_others(2) [of "sv_limits v"] ReleasePerUser_count(1) [OF u]
    by (auto simp: release_all_def Let_def ReleasePerUser_count(3,4) ReleaseGlobal_def takes_user_def split: if_splits)
  have "user_count ?l x \<le> PerUserConcurrentMax (lim_cfg (sv_limits v))" for x
    using booksD(5) [OF b, of x] by (simp add: l takes_user_def)
  then have "books ?v"
    by (intro books_move [OF b v(1)])
      (use assms(2,3) booksD(4,6,9) [OF b] in \<open>simp_all add: v l contributions\<close>)
  moreover have "conns_ok ?v"
    by (rule conns_same [OF cs v(1,2)]) (use assms(2,3) in \<open>simp_all add: contributions\<close>)
  ultimately show ?thesis by (simp add: service_ok_def)
qed

subsection \<open>The steps of the others\<close>

lemma refreshed:
  assumes "tryRefresh n as (s, sub) = (r, s', sub')"
  shows "same_channel sub sub' \<and> (reason_ok sub \<longrightarrow> reason_ok sub')
    \<and> (s' = s \<or> (\<exists>w p now. refreshMapAllowed (Some w) s \<and> s' = swapMap (Some w) p now s))"
  using assms
proof (induction as arbitrary: n)
  case (Cons a as)
  obtain r1 s1 sub1 where ap: "applyFetched (at_result a) (at_lsn a) (at_now a) (s, sub) = (r1, s1, sub1)"
    by (metis prod_cases3)
  define same where "same x \<longleftrightarrow> same_channel sub x \<and> (reason_ok sub \<longrightarrow> reason_ok x)" for x
  have drop: "same (Drop ''auth_revoked'' sub)" "same (Drop ''auth_unavailable'' sub)" "same sub"
    using reason_ok_Drop [of sub "''auth_revoked''"] reason_ok_Drop [of sub "''auth_unavailable''"]
    by (auto simp: same_def)
  from ap have "same sub' \<and> (s' = s \<or> (\<exists>w p now. refreshMapAllowed (Some w) s \<and> s' = swapMap (Some w) p now s))"
  proof (cases rule: applyFetched_cases)
    case (swapped w)
    with ap Cons.prems drop(3) show ?thesis by (auto split: if_splits)
  next
    case revoked
    with ap Cons.prems drop(1,3) show ?thesis by (simp split: if_splits)
  next
    case (unavailable cause)
    from unavailable ap Cons.prems drop(2,3) Cons.IH [of "n + 1"] show ?thesis
      by (auto simp: same_def split: if_splits wait_ev.splits)
  next
    case other
    with ap Cons.prems drop(2,3) show ?thesis by (simp split: if_splits)
  qed
  then show ?case unfolding same_def by blast
qed simp

lemma grant_ok_swap:
  assumes "grant_ok c" and "hs_ok c" and "refreshMapAllowed (Some w) (cn_auth c)"
  shows "grant_ok (c\<lparr>cn_auth := swapMap (Some w) p now (cn_auth c)\<rparr>)"
proof -
  have "names_table c w"
    using assms by (auto simp: grant_ok_def hs_ok_def names_table_def refreshMapAllowed_iff)
  then have "names_table c (w\<lparr>InitialData := [], RefreshLSN := p\<rparr>)" by (simp add: names_table_def)
  moreover have "names_table (c\<lparr>cn_auth := a\<rparr>) = names_table c" for a by (simp add: names_table_def fun_eq_iff)
  ultimately show ?thesis using assms(1) by (auto simp: grant_ok_def swapMap_def Let_def)
qed

lemma refresh_stream_ok:
  assumes "service_ok v" and "sv_conns v s = Some c" and "Opening \<le> cn_pc c" "cn_pc c \<le> Deregistered"
  shows "service_ok (refresh_stream as s c v)"
proof -
  have cs: "conns_ok v" and b: "books v" using assms(1) by (simp_all add: service_ok_def)
  note now = conns_okD(3,4) [OF cs assms(2)]
  have unc: "is_uncounted c" using assms(3,4) by (simp add: is_uncounted_def)
  obtain r a sub where t: "tryRefresh 0 as (cn_auth c, bc_heap (sv_bc v) s) = (r, a, sub)" by (metis prod_cases3)
  note ref = refreshed [OF t]
  let ?c = "c\<lparr>cn_auth := a\<rparr>"
  let ?v = "refresh_stream as s c v"
  have v: "sv_conns ?v = (sv_conns v)(s := Some ?c)" "sv_bc ?v = set_sub s (with_grant a sub) (sv_bc v)"
    "sv_handler ?v = sv_handler v" "sv_reg ?v = sv_reg v"
    by (simp_all add: refresh_stream_def t)
  have "books ?v"
    by (rule books_same [OF b v(1) assms(2) refl]) (simp_all add: v contributions)
  moreover have "conns_ok ?v"
  proof (rule conns_move [OF cs v(1)])
    have "bc_ok (set_sub s sub (sv_bc v))" using set_sub_ok [OF conns_okD(1) [OF cs]] ref by blast
    from set_sub_ok' [OF this] show "bc_ok (sv_bc ?v)" by (simp add: v)
    show "registered (sv_bc ?v) t \<longleftrightarrow>
        (if t = s then (\<exists>c. Some ?c = Some c \<and> is_registered c) else registered (sv_bc v) t)" for t
      using conns_okD(2) [OF cs, of s] assms(2) by (simp add: v is_registered_def)
    have "grant_ok ?c"
      using ref grant_ok_swap [OF _ now(1)] now(2) unc by (auto simp: stream_fits_def)
    moreover have "same_channel (bc_heap (sv_bc v) s) sub" "reason_ok sub"
      using ref now(2) unc by (simp_all add: stream_fits_def)
    moreover have "is_uncounted ?c = is_uncounted c" by (simp add: is_uncounted_def)
    ultimately have "stream_fits (with_grant a sub) ?c"
      using now(2) unc by (simp add: stream_fits_def same_channel_def with_grant_def reason_ok_def)
    moreover have "hs_ok ?c" using now(1) by (simp add: hs_ok_def)
    ultimately show "hs_ok x \<and> stream_fits (bc_heap (sv_bc ?v) s) x" if "Some ?c = Some x" for x
      using that by (auto simp: v)
  qed (simp add: v)
  ultimately show ?thesis by (simp add: service_ok_def)
qed

text \<open>The router and the shutdown only touch the subscribers.\<close>

lemma heap_ok:
  assumes "service_ok v" and "bc_ok b" and "\<And>s. registered b s \<longleftrightarrow> registered (sv_bc v) s"
    and "\<And>s. same_channel (bc_heap (sv_bc v) s) (bc_heap b s)"
    and "\<And>s. reason_ok (bc_heap (sv_bc v) s) \<Longrightarrow> reason_ok (bc_heap b s)"
  shows "service_ok (v\<lparr>sv_bc := b\<rparr>)"
proof -
  have "stream_fits (bc_heap b s) c" if "stream_fits (bc_heap (sv_bc v) s) c" for s c
    using that assms(4,5) [of s] by (simp add: stream_fits_def same_channel_def)
  then have "conns_ok (v\<lparr>sv_bc := b\<rparr>)" using assms(1-3) by (auto simp: service_ok_def conns_ok_def)
  moreover have "books (v\<lparr>sv_bc := b\<rparr>) = books v" by (simp add: books_def)
  ultimately show ?thesis using assms(1) by (simp add: service_ok_def)
qed

lemma route_ok:
  assumes "service_ok v" and "\<forall>l. mset (order l) = mset l"
  shows "service_ok (v\<lparr>sv_bc := routeTx enc order tx (sv_bc v)\<rparr>)"
proof (rule heap_ok [OF assms(1)])
  have o: "\<And>l. mset (order l) = mset l" using assms(2) by blast
  note eq = routeTx_eq [OF o, of enc tx "sv_bc v"]
  show "bc_ok (routeTx enc order tx (sv_bc v))"
    by (rule routeTx_ok [OF o]) (use assms(1) in \<open>simp add: service_ok_def conns_ok_def\<close>)
  show "registered (routeTx enc order tx (sv_bc v)) s \<longleftrightarrow> registered (sv_bc v) s" for s
    by (simp add: eq registered_def shutdown_subs_def)
  show "same_channel (bc_heap (sv_bc v) s) (bc_heap (routeTx enc order tx (sv_bc v)) s)" for s
    by (simp add: eq)
  show "reason_ok (bc_heap (routeTx enc order tx (sv_bc v)) s)" if ok: "reason_ok (bc_heap (sv_bc v) s)" for s
  proof (cases rule: dispatch_cases [of tx "bc_heap (sv_bc v) s" "bc_cfg (sv_bc v)" enc])
    case (dropped flt reason)
    then show ?thesis using ok reason_ok_Drop [OF ok, of reason] by (auto simp: eq)
  next
    case (delivered flt frame)
    then show ?thesis using ok by (simp add: eq reason_ok_def)
  qed (use ok in \<open>simp add: eq\<close>)
qed

lemma shutdown_ok:
  assumes "service_ok v"
  shows "service_ok (v\<lparr>sv_bc := Shutdown (sv_bc v)\<rparr>)"
proof (rule heap_ok [OF assms])
  show "bc_ok (Shutdown (sv_bc v))" using assms by (simp add: service_ok_def conns_ok_def Shutdown_ok)
  have heap: "bc_heap (Shutdown (sv_bc v)) s
      = (if registered (sv_bc v) s then Drop ''shutdown'' (bc_heap (sv_bc v) s) else bc_heap (sv_bc v) s)" for s
    by (simp add: Shutdown_def Let_def fold_drop_heap registered_def shutdown_subs_def)
  show "same_channel (bc_heap (sv_bc v) s) (bc_heap (Shutdown (sv_bc v)) s)" for s by (simp add: heap)
  show "reason_ok (bc_heap (Shutdown (sv_bc v)) s)" if "reason_ok (bc_heap (sv_bc v) s)" for s
    using that reason_ok_Drop [OF that, of "''shutdown''"] by (simp add: heap)
qed (simp add: Shutdown_facts)

lemma service_ok_step: "sv_step enc T v v' \<Longrightarrow> service_ok v \<Longrightarrow> service_ok v'"
  by (induction rule: sv_step.induct)
    (blast intro: accept_ok ask_backend_ok admit_user_ok start_stream_ok open_stream_ok serve_stream_ok
      deregister_stream_ok count_disconnect_ok release_places_ok refresh_stream_ok route_ok shutdown_ok)+

lemma service_ok_star: "(sv_step enc T)\<^sup>*\<^sup>* v v' \<Longrightarrow> service_ok v \<Longrightarrow> service_ok v'"
  by (induction rule: rtranclp_induct) (auto intro: service_ok_step)

end
