(* ===== verification/Service_Claims.thy ===== *)
theory Service_Claims
  imports Service_Books
begin

text \<open>
  What the books of the running service (\<open>Service_Books\<close>) say in every reachable state, from the
  state a loaded configuration wires, and that cutting a handler into steps changes nothing for a
  handler that runs alone.
\<close>

subsection \<open>What never changes\<close>

lemma release_all_cfg [simp]: "lim_cfg (release_all hs l) = lim_cfg l"
  by (simp add: release_all_def Let_def ReleaseGlobal_def ReleasePerUser_def split: option.splits)

lemma sv_step_cfg: "sv_step enc T v v' \<Longrightarrow> lim_cfg (sv_limits v') = lim_cfg (sv_limits v)"
proof (induction rule: sv_step.induct)
  case (accepts v s r W startLSN)
  then show ?case by (simp add: accept_def AcquireGlobal_def)
next
  case (asks v s c W)
  obtain ok hs w r h where a: "authenticate W (cn_channel c) (cn_req c) (sv_handler v) (cn_hs c) fresh_response
      = ((ok, hs), w, r, h)" by (metis prod.exhaust)
  note authenticate_limits [OF a]
  then show ?case by (cases ok) (simp_all add: ask_backend_def a split: option.split)
next
  case (admits v s c)
  obtain ok n l where a: "AcquirePerUser (hs_userID (cn_hs c)) (sv_limits v) = ((ok, n), l)" by (metis prod.exhaust)
  from AcquirePerUser_count(4) [of "hs_userID (cn_hs c)" "sv_limits v"] show ?case
    by (cases ok) (simp_all add: admit_user_def a Let_def)
qed (simp_all add: start_stream_def open_stream_def serve_stream_def put_stream_def deregister_stream_def
    count_disconnect_def release_places_def refresh_stream_def Let_def split: prod.splits)

lemma sv_star_cfg: "(sv_step enc T)\<^sup>*\<^sup>* v v' \<Longrightarrow> lim_cfg (sv_limits v') = lim_cfg (sv_limits v)"
  by (induction rule: rtranclp_induct) (simp_all add: sv_step_cfg)

subsection \<open>The start\<close>

lemma service_start_ok:
  assumes "LoadFromEnv L environ = Inr cfg"
  shows "service_ok (service_start (InitializeApp cfg current h))"
    and "lim_cfg (sv_limits (service_start (InitializeApp cfg current h))) = cfg_Limits cfg"
proof -
  note lim = loaded_limits [OF assms]
  have none: "\<not> registered (New_broadcaster (cfg_Router cfg) h) s" for s
    by (simp add: registered_def shutdown_subs_def New_broadcaster_def exact_Snapshot_def wild_Snapshot_def
        newIndex_def newWildcardIndex_def)
  have "conns_ok (service_start (InitializeApp cfg current h))"
    by (simp add: conns_ok_def service_start_def bc_ok_New none)
  moreover have "books (service_start (InitializeApp cfg current h))"
    using lim by (simp add: books_def service_start_def New_limits_def user_count_def)
  ultimately show "service_ok (service_start (InitializeApp cfg current h))" by (simp add: service_ok_def)
  show "lim_cfg (sv_limits (service_start (InitializeApp cfg current h))) = cfg_Limits cfg"
    by (simp add: service_start_def New_limits_def)
qed

text \<open>The handlers in a state, and those in some phases.\<close>

definition handlers :: "('f conn \<Rightarrow> bool) \<Rightarrow> 'f service \<Rightarrow> sid set" where
  "handlers P v = {s. \<exists>c. sv_conns v s = Some c \<and> P c}"

lemma reachable_books:
  assumes "LoadFromEnv L environ = Inr cfg"
    and "(sv_step enc T)\<^sup>*\<^sup>* (service_start (InitializeApp cfg current h :: ('f, 't) app)) v"
  shows "service_ok v" "lim_cfg (sv_limits v) = cfg_Limits cfg"
  using service_ok_star [OF assms(2) service_start_ok(1) [OF assms(1)]]
    sv_star_cfg [OF assms(2)] service_start_ok(2) [OF assms(1), of current h]
  by simp_all

text \<open>
  C6: The shared books are exact. However requests, the backend's answers, streams, refreshes, the
  router and a shutdown interleave: the places taken of the global limit are the open handlers, at
  most 50000; the places of a user are the handlers of that user that hold one, at most 10; the
  gauge of active subscribers shows, per kind, the handlers between \<open>Register\<close> and \<open>Deregister\<close>,
  which are exactly the subscribers the router's indexes list; every stream ever started has been
  counted once as a disconnect or is still open; and when no handler is open, both limits, the
  gauges and the indexes are empty again.
\<close>

theorem service_books_exact:
  fixes v :: "'f service"
  assumes "LoadFromEnv L environ = Inr cfg"
    and "(sv_step enc T)\<^sup>*\<^sup>* (service_start (InitializeApp cfg current h :: ('f, 't) app)) v"
  shows "finite (handlers (\<lambda>_. True) v)
    \<and> globalSem (sv_limits v) = card (handlers (\<lambda>_. True) v) 
    \<and> int (globalSem (sv_limits v)) \<le> GlobalConcurrent (cfg_Limits cfg)
    \<and> (\<forall>u. user_count (sv_limits v) u
          = int (card (handlers (\<lambda>c. hs_perUserAcquired (cn_hs c) \<and> hs_userID (cn_hs c) = u) v))
        \<and> user_count (sv_limits v) u \<le> 10)
    \<and> (\<forall>k. shown subscribersActive ((=) k) (sv_reg v)
          = int (card (handlers (\<lambda>c. is_registered c \<and> k = kind_string (cn_kind c)) v)))
    \<and> {s. registered (sv_bc v) s} = handlers is_registered v
    \<and> started (sv_reg v) = shown subscriberDisconnects (\<lambda>_. True) (sv_reg v) + int (card (handlers is_uncounted v))
    \<and> (handlers (\<lambda>_. True) v = {} \<longrightarrow>
        globalSem (sv_limits v) = 0 \<and> (\<forall>u. user_count (sv_limits v) u = 0)
        \<and> (\<forall>k. shown subscribersActive ((=) k) (sv_reg v) = 0)
        \<and> (\<forall>s. \<not> registered (sv_bc v) s)
        \<and> shown subscriberDisconnects (\<lambda>_. True) (sv_reg v) = started (sv_reg v))"
proof -
  note r = reachable_books [OF assms]
  have c: "conns_ok v" and b: "books v" using r(1) by (simp_all add: service_ok_def)
  note fin = booksD(1) [OF b] and card = map_total_card [OF booksD(1) [OF b]]
  have dom: "handlers (\<lambda>_. True) v = dom (sv_conns v)" by (auto simp: handlers_def)
  have tot: "map_total (\<lambda>c. of_bool (P c)) (sv_conns v) = int (card (handlers P v))" for P
    using card [of P] by (simp add: handlers_def)
  have g: "globalSem (sv_limits v) = card (handlers (\<lambda>_. True) v)"
    using booksD(2) [OF b] tot [of "\<lambda>_. True"] by (simp add: takes_global_def [abs_def])
  have u: "user_count (sv_limits v) u
      = int (card (handlers (\<lambda>c. hs_perUserAcquired (cn_hs c) \<and> hs_userID (cn_hs c) = u) v))" for u
    using booksD(3) [OF b, of u] by (simp add: takes_user_def [abs_def] tot)
  have k: "shown subscribersActive ((=) k) (sv_reg v)
      = int (card (handlers (\<lambda>c. is_registered c \<and> k = kind_string (cn_kind c)) v))" for k
    using booksD(7) [OF b, of k] by (simp add: shows_active_def [abs_def] tot)
  have d: "started (sv_reg v) = shown subscriberDisconnects (\<lambda>_. True) (sv_reg v) + int (card (handlers is_uncounted v))"
    using booksD(8) [OF b] by (simp add: to_count_def [abs_def] tot)
  have reg: "{s. registered (sv_bc v) s} = handlers is_registered v"
    using conns_okD(2) [OF c] by (auto simp: handlers_def)
  have bounds: "int (globalSem (sv_limits v)) \<le> GlobalConcurrent (cfg_Limits cfg)" "user_count (sv_limits v) x \<le> 10" for x
    using booksD(4,5) [OF b] by (simp_all add: r(2) loaded_limits [OF assms(1)])
  have none: "handlers P v = {}" if "handlers (\<lambda>_. True) v = {}" for P
    using that by (auto simp: handlers_def)
  have z: "globalSem (sv_limits v) = 0 \<and> (\<forall>u. user_count (sv_limits v) u = 0)
        \<and> (\<forall>k. shown subscribersActive ((=) k) (sv_reg v) = 0)
        \<and> (\<forall>s. \<not> registered (sv_bc v) s)
        \<and> shown subscriberDisconnects (\<lambda>_. True) (sv_reg v) = started (sv_reg v)"
    if "handlers (\<lambda>_. True) v = {}"
    using none [OF that] reg by (simp add: g u k d)
  show ?thesis using fin dom g u k d reg bounds z by (intro conjI allI impI) simp_all
qed


subsection \<open>The cut of the handshake\<close>

lemma authenticate_response:
  assumes "authenticate W ch r h res w = (p, w1, r1, h1)"
  shows "\<exists>w2. authenticate W ch r h res x = (p, w2, r1, h1)"
  using assms by (auto simp: authenticate_def Let_def split: if_splits prod.splits sum.splits)

text \<open>The shape of \<open>runHandshake\<close>, with the calls that the steps make.\<close>

lemma runHandshake_steps:
  assumes "runHandshake W tbl ch r h w = ((hs, ok), w', r', h')"
  obtains (full) "AcquireGlobal (h_limits h) = (False, h_limits h)" "hs = zero_handshake" "\<not> ok" "h' = h" "r' = r"
  | (refused) l w1 where "AcquireGlobal (h_limits h) = (True, l)"
      "authenticate W ch r (h\<lparr>h_limits := l\<rparr>) (zero_handshake\<lparr>hs_globalAcquired := True, hs_clientIP := clientIP W r\<rparr>)
         fresh_response = ((False, hs), w1, r', h')" "\<not> ok"
  | (granted) l hs1 w1 h1 m b n l' where "AcquireGlobal (h_limits h) = (True, l)"
      "authenticate W ch r (h\<lparr>h_limits := l\<rparr>) (zero_handshake\<lparr>hs_globalAcquired := True, hs_clientIP := clientIP W r\<rparr>)
         fresh_response = ((True, hs1), w1, r', h1)" "hs_authMap hs1 = Some m"
      "AcquirePerUser (UserID m) (h_limits h1) = ((b, n), l')" "h' = h1\<lparr>h_limits := l'\<rparr>"
      "hs = (if b then hs1\<lparr>hs_userID := UserID m, hs_perUserAcquired := True\<rparr> else hs1\<lparr>hs_userID := UserID m\<rparr>)"
      "ok \<longleftrightarrow> b \<and> gm_get (wl_Tables m) tbl \<noteq> None"
proof -
  obtain g l where g: "AcquireGlobal (h_limits h) = (g, l)" by fastforce
  show ?thesis
  proof (cases g)
    case False
    then have "l = h_limits h" using g by (simp add: AcquireGlobal_def split: if_splits)
    with assms g False show ?thesis by (intro full) (auto simp: runHandshake_def)
  next
    case True
    let ?res = "zero_handshake\<lparr>hs_globalAcquired := True, hs_clientIP := clientIP W r\<rparr>"
    obtain a hs1 w1 r1 h1 where a: "authenticate W ch r (h\<lparr>h_limits := l\<rparr>) ?res w = ((a, hs1), w1, r1, h1)"
      by (metis prod.exhaust)
    obtain w2 where a2: "authenticate W ch r (h\<lparr>h_limits := l\<rparr>) ?res fresh_response = ((a, hs1), w2, r1, h1)"
      using authenticate_response [OF a] by blast
    show ?thesis
    proof (cases a)
      case False
      with True assms g a a2 show ?thesis by (intro refused [of l w2]) (auto simp: runHandshake_def Let_def)
    next
      case a: True
      with a2 obtain m where m: "hs_authMap hs1 = Some m" by (metis (full_types) authenticate_True)
      obtain b n l' where u: "AcquirePerUser (UserID m) (h_limits h1) = ((b, n), l')" by (metis prod.exhaust)
      from True a assms g \<open>authenticate W ch r (h\<lparr>h_limits := l\<rparr>) ?res w = ((a, hs1), w1, r1, h1)\<close> a2 m u
      show ?thesis
        by (intro granted [of l hs1 w2 h1 m b n l'])
           (auto simp: runHandshake_def Let_def split: if_splits bool.splits)
    qed
  qed
qed

lemma release_conn:
  assumes "sv_conns v s = None" and "v1 = set_conn s c (v\<lparr>sv_handler := h\<rparr>)" and "cn_pc c = Releasing"
  shows "sv_step enc T v1 (v\<lparr>sv_handler := h\<lparr>h_limits := release_all (cn_hs c) (h_limits h)\<rparr>\<rparr>)"
proof -
  have "sv_step enc T v1 (release_places s c v1)" by (rule sv_step.releases) (simp_all add: assms(2,3))
  moreover have "release_places s c v1 = v\<lparr>sv_handler := h\<lparr>h_limits := release_all (cn_hs c) (h_limits h)\<rparr>\<rparr>"
    using assms(1) by (simp add: assms(2) release_places_def set_conn_def set_limits_def Let_def fun_upd_idem)
  ultimately show ?thesis by simp
qed

text \<open>A handshake that gets its grant goes through \<open>ask_backend\<close> and \<open>admit_user\<close>.\<close>

lemma granted_in_steps:
  fixes v :: "'f service"
  assumes c_def: "c = new_conn W r p (bc_heap (sv_bc v) s)" and "sv_step enc T v (accept W s r p v)" and "AcquireGlobal (sv_limits v) = (True, l)"
    and "authenticate W (cn_channel c) (cn_req c) ((sv_handler v)\<lparr>h_limits := l\<rparr>) (cn_hs c) fresh_response
        = ((True, hs1), w1, r', h1)"
    and "cn_pc c = Authenticating" and "ok \<longleftrightarrow> b \<and> gm_get (wl_Tables m) (cn_table c) \<noteq> None"
    and "hs_authMap hs1 = Some m" and "AcquirePerUser (UserID m) (h_limits h1) = ((b, n), l')"
    and "h' = h1\<lparr>h_limits := l'\<rparr>"
    and "hs = (if b then hs1\<lparr>hs_userID := UserID m, hs_perUserAcquired := True\<rparr> else hs1\<lparr>hs_userID := UserID m\<rparr>)"
  shows "(sv_step enc T)\<^sup>*\<^sup>* v
    (set_conn s (c\<lparr>cn_pc := (if ok then Admitted else Releasing), cn_hs := hs, cn_req := r'\<rparr>) (v\<lparr>sv_handler := h'\<rparr>))"
proof -
  let ?va = "set_conn s c (set_limits l v)"
  let ?cg = "c\<lparr>cn_pc := Granted, cn_hs := hs1\<lparr>hs_userID := UserID m\<rparr>, cn_req := r'\<rparr>"
  let ?vb = "set_conn s ?cg (v\<lparr>sv_handler := h1\<rparr>)"
  let ?cf = "c\<lparr>cn_pc := (if ok then Admitted else Releasing), cn_hs := hs, cn_req := r'\<rparr>"
  have va: "accept W s r p v = ?va" by (simp add: accept_def assms(3) c_def)
  have "ask_backend W s c ?va = ?vb"
    using assms(4,7) by (simp add: ask_backend_def set_conn_def set_limits_def)
  then have asked: "sv_step enc T ?va ?vb" using sv_step.asks [of ?va s c enc T W] by (simp add: assms(5))
  have "?cg\<lparr>cn_pc := Releasing\<rparr> = ?cf" if "\<not> b" using that assms(6,10) by (intro conn.equality) simp_all
  moreover have "?cg\<lparr>cn_pc := (if ok then Admitted else Releasing), cn_hs := (cn_hs ?cg)\<lparr>hs_perUserAcquired := True\<rparr>\<rparr> = ?cf"
    if b using that assms(10) by (intro conn.equality) simp_all
  moreover have "admit_user s ?cg ?vb = set_conn s (if b
      then ?cg\<lparr>cn_pc := (if ok then Admitted else Releasing), cn_hs := (cn_hs ?cg)\<lparr>hs_perUserAcquired := True\<rparr>\<rparr>
      else ?cg\<lparr>cn_pc := Releasing\<rparr>) (v\<lparr>sv_handler := h'\<rparr>)"
    using assms(6-9) by (simp add: admit_user_def set_conn_def set_limits_def Let_def)
  ultimately have "admit_user s ?cg ?vb = set_conn s ?cf (v\<lparr>sv_handler := h'\<rparr>)" by (cases b) (simp_all only: if_True if_False simp_thms)
  then have "sv_step enc T ?vb (set_conn s ?cf (v\<lparr>sv_handler := h'\<rparr>))" using sv_step.admits [of ?vb s ?cg enc T] by simp
  with assms(2) asked show ?thesis
    unfolding va by (meson converse_rtranclp_into_rtranclp rtranclp.rtrancl_refl)
qed

lemma serve_in_steps:
  assumes "sv_conns v s = None"
  shows "case serveStream W r (sv_handler v) w of
      Refused w' r' h' \<Rightarrow> (sv_step enc T)\<^sup>*\<^sup>* v (v\<lparr>sv_handler := h'\<rparr>)
    | Stream k tbl pkey ch startLSN hs w' r' h' \<Rightarrow>
        (\<exists>c. (sv_step enc T)\<^sup>*\<^sup>* v (set_conn s c (v\<lparr>sv_handler := h'\<rparr>)) \<and> cn_pc c = Admitted
           \<and> cn_kind c = k \<and> cn_table c = tbl \<and> cn_pk c = pkey \<and> cn_channel c = ch
           \<and> cn_startLSN c = startLSN \<and> cn_hs c = hs \<and> cn_req c = r')"
proof (cases rule: serveStream_cases [of W r "sv_handler v" w])
  case (bad code)
  then show ?thesis by simp
next
  case (handshake p)
  let ?cnew = "new_conn W r p (bc_heap (sv_bc v) s)"
  define ch where "ch = r_table r @ '':'' @ r_pk r"
  define k where "k = (if r_pk r = ''all'' then KindWildcard else KindExact)"
  define pkey where "pkey = (if r_pk r = ''all'' then [] else r_pk r)"
  obtain hs ok w' r' h' where run: "runHandshake W (r_table r) ch r (sv_handler v) w = ((hs, ok), w', r', h')"
    by (metis prod.exhaust)
  have serve: "serveStream W r (sv_handler v) w =
      (if \<not> ok then Refused w' r' (h'\<lparr>h_limits := release_all hs (h_limits h')\<rparr>)
       else Stream k (r_table r) pkey ch p hs w' r' h')"
    using handshake(1) unfolding ch_def [symmetric] k_def [symmetric] pkey_def [symmetric]
    by (simp add: runHandshakeAndWriter_def run)
  have acc: "sv_step enc T v (accept W s r p v)" by (rule sv_step.accepts [OF assms handshake(2-4)])
  have c0: "cn_channel ?cnew = ch" "cn_kind ?cnew = k" "cn_pk ?cnew = pkey" "cn_startLSN ?cnew = p" "cn_req ?cnew = r" "cn_pc ?cnew = Authenticating"
    "cn_table ?cnew = r_table r"
    "cn_hs ?cnew = zero_handshake\<lparr>hs_globalAcquired := True, hs_clientIP := clientIP W r\<rparr>"
    by (simp_all add: new_conn_def ch_def k_def pkey_def)
  from run show ?thesis
  proof (cases rule: runHandshake_steps)
    case full
    then show ?thesis by (simp add: serve release_all_def zero_handshake_def)
  next
    case (refused l w1)
    let ?va = "set_conn s ?cnew (set_limits l v)"
    let ?c = "?cnew\<lparr>cn_pc := Releasing, cn_hs := hs, cn_req := r'\<rparr>"
    have v1: "accept W s r p v = ?va" by (simp add: accept_def refused(1))
    have "ask_backend W s ?cnew ?va = set_conn s ?c (v\<lparr>sv_handler := h'\<rparr>)"
      using refused(2) by (simp add: ask_backend_def c0 set_conn_def set_limits_def)
    then have asked: "sv_step enc T ?va (set_conn s ?c (v\<lparr>sv_handler := h'\<rparr>))"
      using sv_step.asks [of ?va s ?cnew enc T W] by (simp add: c0)
    have "sv_step enc T (set_conn s ?c (v\<lparr>sv_handler := h'\<rparr>))
        (v\<lparr>sv_handler := h'\<lparr>h_limits := release_all hs (h_limits h')\<rparr>\<rparr>)"
      using release_conn [OF assms refl, where c = ?c and h = h' and enc = enc] by simp
    with acc asked have "(sv_step enc T)\<^sup>*\<^sup>* v (v\<lparr>sv_handler := h'\<lparr>h_limits := release_all hs (h_limits h')\<rparr>\<rparr>)"
      unfolding v1 by (meson converse_rtranclp_into_rtranclp rtranclp.rtrancl_refl)
    then show ?thesis by (simp add: serve refused(3))
  next
    case (granted l hs1 w1 h1 m b n l')
    let ?c = "?cnew\<lparr>cn_pc := (if ok then Admitted else Releasing), cn_hs := hs, cn_req := r'\<rparr>"
    have adm: "(sv_step enc T)\<^sup>*\<^sup>* v (set_conn s ?c (v\<lparr>sv_handler := h'\<rparr>))"
      by (rule granted_in_steps [OF refl acc granted(1) _ _ _ granted(3-6)]) (use granted(2,7) in \<open>simp_all add: c0\<close>)
    show ?thesis
    proof (cases ok)
      case True
      with adm show ?thesis
        by (auto simp: serve c0 intro!: exI [of _ ?c])
    next
      case False
      from release_conn [OF assms refl, where c = ?c and h = h' and enc = enc] False adm
      have "(sv_step enc T)\<^sup>*\<^sup>* v (v\<lparr>sv_handler := h'\<lparr>h_limits := release_all hs (h_limits h')\<rparr>\<rparr>)"
        by (simp add: rtranclp.rtrancl_into_rtrancl)
      then show ?thesis by (simp add: serve False)
    qed
  qed
qed


subsection \<open>No handler is stuck\<close>

text \<open>In every phase a handler has a step of its own that moves it forward or ends it.\<close>

lemma handler_advances:
  fixes v :: "'f service"
  assumes "sv_conns v s = Some c"
  shows "\<exists>v' x. sv_step enc T v v' \<and> sv_conns v' = (sv_conns v)(s := x) \<and> (\<forall>c'. x = Some c' \<longrightarrow> cn_pc c < cn_pc c')"
proof -
  have put: "sv_conns (put_stream s c st v)
      = (sv_conns v)(s \<mapsto> c\<lparr>cn_pc := (if st_ended st then Ending else Live), cn_stream := st\<rparr>)" for st
    by (simp add: put_stream_def)
  show ?thesis
  proof (cases "cn_pc c")
    case Authenticating
    fix W
    obtain ok hs w r h where a: "authenticate W (cn_channel c) (cn_req c) (sv_handler v) (cn_hs c) fresh_response
        = ((ok, hs), w, r, h)" by (metis prod.exhaust)
    then have "\<exists>c'. sv_conns (ask_backend W s c v) = (sv_conns v)(s \<mapsto> c') \<and> cn_pc c < cn_pc c'"
      using Authenticating by (cases ok; cases "hs_authMap hs") (auto simp: ask_backend_def)
    with sv_step.asks [OF assms Authenticating] show ?thesis by (metis option.inject)
  next
    case Granted
    obtain ok n l where "AcquirePerUser (hs_userID (cn_hs c)) (sv_limits v) = ((ok, n), l)" by (metis prod.exhaust)
    then have "\<exists>c'. sv_conns (admit_user s c v) = (sv_conns v)(s \<mapsto> c') \<and> cn_pc c < cn_pc c'"
      using Granted by (cases ok) (auto simp: admit_user_def Let_def)
    with sv_step.admits [OF assms Granted] show ?thesis by (metis option.inject)
  next
    case Admitted
    fix W w rnd now
    have "\<exists>c'. sv_conns (start_stream W w rnd now s c v) = (sv_conns v)(s \<mapsto> c') \<and> cn_pc c < cn_pc c'"
      using Admitted by (auto simp: start_stream_def Let_def split: prod.splits)
    with sv_step.starts [OF assms Admitted] show ?thesis by (metis option.inject)
  next
    case Opening
    have "\<exists>c'. sv_conns (open_stream WriteOk s c v) = (sv_conns v)(s \<mapsto> c') \<and> cn_pc c < cn_pc c'"
      using Opening by (auto simp: open_stream_def put)
    with sv_step.opens [OF assms Opening] show ?thesis by (metis option.inject)
  next
    case Live
    have "st_ended (stream_step cap EvCtxDone st)" for cap and st :: "'f stream" by simp
    then have "\<exists>c'. sv_conns (serve_stream EvCtxDone s c v) = (sv_conns v)(s \<mapsto> c') \<and> cn_pc c < cn_pc c'"
      using Live by (auto simp: serve_stream_def put Let_def simp del: stream_step.simps)
    with sv_step.serves [OF assms Live, of EvCtxDone] show ?thesis by (metis option.inject own_event.simps(5))
  next
    case Ending
    have "sv_conns (deregister_stream s c v) = (sv_conns v)(s \<mapsto> c\<lparr>cn_pc := Deregistered\<rparr>)"
      by (simp add: deregister_stream_def)
    with sv_step.deregisters [OF assms Ending] Ending show ?thesis by fastforce
  next
    case Deregistered
    have "sv_conns (count_disconnect s c v) = (sv_conns v)(s \<mapsto> c\<lparr>cn_pc := Releasing\<rparr>)"
      by (simp add: count_disconnect_def)
    with sv_step.counts [OF assms Deregistered] Deregistered show ?thesis by fastforce
  next
    case Releasing
    have "sv_conns (release_places s c v) = (sv_conns v)(s := None)"
      by (simp add: release_places_def Let_def)
    with sv_step.releases [OF assms Releasing] show ?thesis by fastforce
  qed
qed

lemma handler_finishes:
  "\<exists>v'. (sv_step enc T)\<^sup>*\<^sup>* v v' \<and> sv_conns v' = (sv_conns v)(s := None)"
proof (induction "case sv_conns v s of None \<Rightarrow> 0 | Some c \<Rightarrow> 8 - phase_rank (cn_pc c)" arbitrary: v rule: less_induct)
  case less
  show ?case
  proof (cases "sv_conns v s")
    case None
    then show ?thesis by (metis fun_upd_triv rtranclp.rtrancl_refl)
  next
    case (Some c)
    have rank: "phase_rank p < 8" for p by (cases p) simp_all
    obtain v' x where v': "sv_step enc T v v'" "sv_conns v' = (sv_conns v)(s := x)" "\<And>c'. x = Some c' \<Longrightarrow> cn_pc c < cn_pc c'"
      using handler_advances [OF Some, of enc T] by blast
    have "(case sv_conns v' s of None \<Rightarrow> 0 | Some c \<Rightarrow> 8 - phase_rank (cn_pc c))
        < (case sv_conns v s of None \<Rightarrow> 0 | Some c \<Rightarrow> 8 - phase_rank (cn_pc c))"
      using rank [of "cn_pc c"] v'(2,3) Some by (cases x) (simp_all add: diff_less_mono2)
    from less [OF this] v'(1,2) show ?thesis by (metis converse_rtranclp_into_rtranclp fun_upd_upd)
  qed
qed

lemma all_handlers_finish:
  "finite D \<Longrightarrow> dom (sv_conns v) \<subseteq> D \<Longrightarrow> \<exists>v'. (sv_step enc T)\<^sup>*\<^sup>* v v' \<and> sv_conns v' = (\<lambda>_. None)"
proof (induction D arbitrary: v rule: finite_induct)
  case empty
  then have "sv_conns v = (\<lambda>_. None)" by auto
  then show ?case by blast
next
  case (insert s D)
  obtain v1 where v1: "(sv_step enc T)\<^sup>*\<^sup>* v v1" "sv_conns v1 = (sv_conns v)(s := None)"
    using handler_finishes by blast
  then have "dom (sv_conns v1) \<subseteq> D" using insert.prems by auto
  from insert.IH [OF this] v1(1) show ?case by (meson rtranclp_trans)
qed

text \<open>
  C14: The service can always drain. From every reachable state, whatever its handlers are in the
  middle of, there is a run in which each of them gets to its end, and then nothing is left: no
  place of a limit is taken, no subscriber is registered, the gauges are 0 and every stream that
  was started is counted as a disconnect.
\<close>

theorem service_can_drain:
  fixes v :: "'f service"
  assumes "LoadFromEnv L environ = Inr cfg"
    and "(sv_step enc T)\<^sup>*\<^sup>* (service_start (InitializeApp cfg current h :: ('f, 't) app)) v"
  shows "\<exists>v'. (sv_step enc T)\<^sup>*\<^sup>* v v' \<and> handlers (\<lambda>_. True) v' = {}
    \<and> globalSem (sv_limits v') = 0 \<and> (\<forall>u. user_count (sv_limits v') u = 0)
    \<and> (\<forall>s. \<not> registered (sv_bc v') s) \<and> (\<forall>k. shown subscribersActive ((=) k) (sv_reg v') = 0)
    \<and> shown subscriberDisconnects (\<lambda>_. True) (sv_reg v') = started (sv_reg v')"
proof -
  have "finite (dom (sv_conns v))"
    using reachable_books(1) [OF assms] by (auto simp: service_ok_def booksD(1))
  then obtain v' where v': "(sv_step enc T)\<^sup>*\<^sup>* v v'" "sv_conns v' = (\<lambda>_. None)"
    using all_handlers_finish [of "dom (sv_conns v)" v enc T] by blast
  have ok: "service_ok v'" by (rule reachable_books(1) [OF assms(1) rtranclp_trans [OF assms(2) v'(1)]])
  then have b: "books v'" and c: "conns_ok v'" by (simp_all add: service_ok_def)
  have "int (globalSem (sv_limits v')) = 0" "user_count (sv_limits v') u = 0"
    "shown subscribersActive ((=) k) (sv_reg v') = 0"
    "started (sv_reg v') = shown subscriberDisconnects (\<lambda>_. True) (sv_reg v')" for u k
    using booksD(2,3,7,8) [OF b] by (simp_all add: v'(2))
  moreover have "\<not> registered (sv_bc v') s" for s using conns_okD(2) [OF c, of s] by (simp add: v'(2))
  ultimately show ?thesis using v' by (intro exI [of _ v']) (simp add: handlers_def)
qed

end
