(* ===== verification/Service_Frames.thy ===== *)
theory Service_Frames
  imports Service_Claims
begin

text \<open>
  What the running service hands to its clients: every frame that is queued for a stream or
  written to it is a delivered transaction cut by a grant of the stream's own user. The invariant
  is kept by every interleaved step on top of \<open>service_ok\<close>.
\<close>

subsection \<open>The frames of a handler\<close>

text \<open>The event of a transaction for a schema, cut by a grant.\<close>

definition cut_event :: "string \<Rightarrow> whitelist \<Rightarrow> ('f, 't) tx \<Rightarrow> ('f, 't) event" where
  "cut_event schema w tx =
     (let rows = map (\<lambda>ch. fst (Filter (Some w) ch))
                   (filter (\<lambda>ch. Schema ch = schema \<and> \<not> snd (Filter (Some w) ch)) (Changes tx))
      in \<lparr>ev_Tx = tx\<lparr>Changes := rows\<rparr>, MatchedIndices = map int [0..<length rows]\<rparr>)"

text \<open>A row of the channel of a handler.\<close>

definition of_channel :: "'f conn \<Rightarrow> 'f change \<Rightarrow> bool" where
  "of_channel c ch \<longleftrightarrow> Table ch = cn_table c \<and> (cn_kind c = KindExact \<longrightarrow> PK ch = cn_pk c)"

definition entitled_frame :: "('f, 't) encode_fn \<Rightarrow> ('f, 't) tx set \<Rightarrow> 'f conn \<Rightarrow> string \<Rightarrow> bool" where
  "entitled_frame enc T c frame \<longleftrightarrow>
     (\<exists>tx \<in> T. \<exists>w. names_table c w \<and> cn_startLSN c < CommitLSN tx
        \<and> (\<exists>ch \<in> set (Changes tx). Schema ch = ''public'' \<and> of_channel c ch \<and> \<not> snd (Filter (Some w) ch))
        \<and> enc (cut_event ''public'' w tx) = (frame, False))"

text \<open>Moving on does not change what a handler may be sent.\<close>

definition same_client :: "'f conn \<Rightarrow> 'f conn \<Rightarrow> bool" where
  "same_client c c' \<longleftrightarrow> hs_userID (cn_hs c') = hs_userID (cn_hs c) \<and> cn_table c' = cn_table c
     \<and> cn_kind c' = cn_kind c \<and> cn_pk c' = cn_pk c \<and> cn_startLSN c' = cn_startLSN c"

lemma same_client_entitled: "same_client c c' \<Longrightarrow> entitled_frame enc T c' f = entitled_frame enc T c f"
  by (simp add: same_client_def entitled_frame_def names_table_def of_channel_def)

definition has_queue :: "'f conn \<Rightarrow> bool" where
  "has_queue c \<longleftrightarrow> Opening \<le> cn_pc c \<and> cn_pc c \<le> Deregistered"

definition frames_fit :: "('f, 't) encode_fn \<Rightarrow> ('f, 't) tx set \<Rightarrow> 'f subscriber \<Rightarrow> 'f conn \<Rightarrow> bool" where
  "frames_fit enc T sub c \<longleftrightarrow>
     (cn_pc c < Opening \<longrightarrow> tx_out (cn_stream c) = [])
     \<and> (\<forall>f \<in> set (tx_out (cn_stream c)). entitled_frame enc T c f)
     \<and> (has_queue c \<longrightarrow> sub_schema sub = ''public'' \<and> sub_startLSN sub = cn_startLSN c
          \<and> (\<forall>f \<in> set (queue sub). entitled_frame enc T c f))"

definition frames_ok :: "('f, 't) encode_fn \<Rightarrow> ('f, 't) tx set \<Rightarrow> 'f service \<Rightarrow> bool" where
  "frames_ok enc T v \<longleftrightarrow> (\<forall>s c. sv_conns v s = Some c \<longrightarrow> frames_fit enc T (bc_heap (sv_bc v) s) c)"

lemma frames_okD: "frames_ok enc T v \<Longrightarrow> sv_conns v s = Some c \<Longrightarrow> frames_fit enc T (bc_heap (sv_bc v) s) c"
  by (simp add: frames_ok_def)

text \<open>One handler changes, its subscriber with it.\<close>

lemma frames_move:
  assumes "frames_ok enc T v" and "sv_conns v' = (sv_conns v)(s := x)"
    and "\<And>t. t \<noteq> s \<Longrightarrow> bc_heap (sv_bc v') t = bc_heap (sv_bc v) t"
    and "\<And>c. x = Some c \<Longrightarrow> frames_fit enc T (bc_heap (sv_bc v') s) c"
  shows "frames_ok enc T v'"
  using assms(1,3,4) unfolding frames_ok_def assms(2) by auto

text \<open>The subscribers change, the handlers do not.\<close>

lemma frames_heap:
  assumes "frames_ok enc T v"
    and "\<And>s c. sv_conns v s = Some c \<Longrightarrow> has_queue c \<Longrightarrow>
      sub_schema (bc_heap b s) = sub_schema (bc_heap (sv_bc v) s) \<and> sub_startLSN (bc_heap b s) = sub_startLSN (bc_heap (sv_bc v) s)
      \<and> (\<forall>f \<in> set (queue (bc_heap b s)). f \<in> set (queue (bc_heap (sv_bc v) s)) \<or> entitled_frame enc T c f)"
  shows "frames_ok enc T (v\<lparr>sv_bc := b\<rparr>)"
proof -
  have "frames_fit enc T (bc_heap b s) c" if c: "sv_conns v s = Some c" for s c
    using frames_okD [OF assms(1) c] assms(2) [OF c] by (auto simp: frames_fit_def)
  then show ?thesis by (simp add: frames_ok_def)
qed

subsection \<open>The steps\<close>

text \<open>Before its stream a handler has written nothing.\<close>

lemma frames_early:
  assumes "frames_ok enc T v" and "sv_conns v s = Some c" and "cn_pc c < Opening"
    and "sv_conns v' = (sv_conns v)(s := Some c')" and "sv_bc v' = sv_bc v"
    and "cn_stream c' = cn_stream c" and "\<not> has_queue c'"
  shows "frames_ok enc T v'"
  using frames_okD [OF assms(1,2)] assms(3,6,7)
  by (intro frames_move [OF assms(1,4)]) (auto simp: assms(5) frames_fit_def)

lemma ask_backend_frames:
  assumes "frames_ok enc T v" and "sv_conns v s = Some c" and "cn_pc c = Authenticating"
  shows "frames_ok enc T (ask_backend W s c v)"
proof -
  obtain ok hs w r h where a: "authenticate W (cn_channel c) (cn_req c) (sv_handler v) (cn_hs c) fresh_response
      = ((ok, hs), w, r, h)" by (metis prod.exhaust)
  have early: "frames_ok enc T (set_conn s c' (v\<lparr>sv_handler := h\<rparr>))"
    if "cn_stream c' = cn_stream c" "\<not> has_queue c'" for c'
    by (rule frames_early [OF assms(1,2) _ _ _ that]) (simp_all add: assms(3))
  show ?thesis
    by (cases ok; cases "hs_authMap hs") (simp_all add: ask_backend_def a early has_queue_def)
qed

lemma admit_user_frames:
  assumes "frames_ok enc T v" and "sv_conns v s = Some c" and "cn_pc c = Granted"
  shows "frames_ok enc T (admit_user s c v)"
proof -
  obtain ok n l where a: "AcquirePerUser (hs_userID (cn_hs c)) (sv_limits v) = ((ok, n), l)" by (metis prod.exhaust)
  have early: "frames_ok enc T (set_conn s c' (set_limits l v))"
    if "cn_stream c' = cn_stream c" "\<not> has_queue c'" for c'
    by (rule frames_early [OF assms(1,2) _ _ _ that]) (simp_all add: assms(3))
  show ?thesis by (cases ok) (simp_all add: admit_user_def a early has_queue_def Let_def)
qed

lemma accept_frames:
  assumes "frames_ok enc T v"
  shows "frames_ok enc T (accept W s r startLSN v)"
proof -
  obtain ok l where a: "AcquireGlobal (sv_limits v) = (ok, l)" by fastforce
  have "frames_fit enc T sub (new_conn W r startLSN sub')" for sub sub' :: "'a subscriber"
    by (simp add: frames_fit_def new_conn_def blank_stream_def tx_out_def has_queue_def)
  then show ?thesis using assms by (cases ok) (simp_all add: accept_def a frames_ok_def)
qed

lemma start_stream_frames:
  fixes v :: "'f service"
  assumes "frames_ok enc T v" and "sv_conns v s = Some c"
  shows "frames_ok enc T (start_stream W w rnd now s c v)"
proof -
  obtain sub0 :: "'f subscriber" and a w' where h: "headersAndPreamble W (sv_cfg v) (cn_table c) (cn_pk c) (cn_channel c) (cn_kind c)
      (cn_startLSN c) (cn_hs c) (cn_req c) w rnd now = (sub0, a, w')" by (metis prod.exhaust)
  define sub where "sub = WireSendFunc (queue_cap (sse_Router (sv_cfg v)) sub0) sub0"
  let ?c = "c\<lparr>cn_pc := Opening, cn_auth := a, cn_stream := blank_stream sub\<rparr>"
  let ?v = "start_stream W w rnd now s c v"
  have v: "sv_conns ?v = (sv_conns v)(s := Some ?c)" "sv_bc ?v = Register s (set_sub s sub (sv_bc v))"
    by (simp_all add: start_stream_def h Let_def sub_def)
  have sub: "sub_schema sub = ''public''" "sub_startLSN sub = cn_startLSN c" "queue sub = []"
    using h by (auto simp: headersAndPreamble_def Let_def sub_def WireSendFunc_def with_grant_def NewSubscriber_def queue_def)
  show ?thesis
  proof (rule frames_move [OF assms(1) v(1)])
    have "frames_fit enc T (Drop r sub) ?c \<and> frames_fit enc T sub ?c" for r
      using sub by (simp add: frames_fit_def blank_stream_def tx_out_def) (simp add: Drop_def)
    then show "frames_fit enc T (bc_heap (sv_bc ?v) s) x" if "Some ?c = Some x" for x
      using that by (auto simp: v Register_heap)
  qed (simp add: v Register_facts(3))
qed

lemma take_batch_same:
  "take_batch cap sub = (fs, sub') \<Longrightarrow> sub_startLSN sub' = sub_startLSN sub \<and> sub_schema sub' = sub_schema sub"
  by (auto simp: take_batch_def split: option.splits)

lemma Drop_startLSN: "sub_startLSN (Drop r sub) = sub_startLSN sub" "sub_schema (Drop r sub) = sub_schema sub"
  by (simp_all add: Drop_def)

text \<open>A round of the loop writes what was queued.\<close>

lemma stream_step_frames:
  assumes "own_event ev"
  shows "set (tx_out (stream_step cap ev st)) \<subseteq> set (tx_out st) \<union> set (queue (st_sub st))"
    and "set (queue (st_sub (stream_step cap ev st))) \<subseteq> set (queue (st_sub st))"
    and "sub_startLSN (st_sub (stream_step cap ev st)) = sub_startLSN (st_sub st)"
    and "sub_schema (st_sub (stream_step cap ev st)) = sub_schema (st_sub st)"
proof -
  have "set (tx_out (stream_step cap ev st)) \<subseteq> set (tx_out st) \<union> set (queue (st_sub st))
    \<and> set (queue (st_sub (stream_step cap ev st))) \<subseteq> set (queue (st_sub st))
    \<and> sub_startLSN (st_sub (stream_step cap ev st)) = sub_startLSN (st_sub st)
    \<and> sub_schema (st_sub (stream_step cap ev st)) = sub_schema (st_sub st)"
  proof (cases ev)
    case (EvQueue w)
    obtain fs sub' where t: "take_batch cap (st_sub st) = (fs, sub')" by fastforce
    have sub': "set fs \<subseteq> set (queue (st_sub st))" "set (queue sub') \<subseteq> set (queue (st_sub st))"
      "sub_startLSN sub' = sub_startLSN (st_sub st)" "sub_schema sub' = sub_schema (st_sub st)"
      using take_batch_queue [OF t] set_take_subset [of cap] set_drop_subset [of cap] take_batch_same [OF t] by simp_all
    have "set (tx_out (write_items (map TxFrame fs) w (st\<lparr>st_sub := sub'\<rparr>))) \<subseteq> set (tx_out st) \<union> set fs"
      using set_take_subset [of _ fs] by (cases w) (auto simp: tx_out_write dest: in_set_takeD)
    with sub'(1) have "set (tx_out (write_items (map TxFrame fs) w (st\<lparr>st_sub := sub'\<rparr>))) \<subseteq> set (tx_out st) \<union> set (queue (st_sub st))"
      by blast
    with EvQueue t sub'(2-4) show ?thesis
      by (cases "st_ended st \<or> queue (st_sub st) = []"; cases "sub_done sub'"; cases w)
        (simp_all add: Let_def Drop_startLSN subset_insertI2 le_supI1)
  next
    case (EvHeartbeat w)
    then show ?thesis by (cases w) (simp_all add: Let_def Drop_startLSN)
  qed (use assms in \<open>simp_all add: Drop_startLSN\<close>)
  then show "set (tx_out (stream_step cap ev st)) \<subseteq> set (tx_out st) \<union> set (queue (st_sub st))"
    "set (queue (st_sub (stream_step cap ev st))) \<subseteq> set (queue (st_sub st))"
    "sub_startLSN (st_sub (stream_step cap ev st)) = sub_startLSN (st_sub st)"
    "sub_schema (st_sub (stream_step cap ev st)) = sub_schema (st_sub st)" by blast+
qed

lemma put_stream_frames:
  assumes "frames_ok enc T v" and "sv_conns v s = Some c" and "cn_pc c = Opening \<or> cn_pc c = Live"
    and "set (tx_out st) \<subseteq> set (tx_out (cn_stream c)) \<union> set (queue (bc_heap (sv_bc v) s))"
    and "set (queue (st_sub st)) \<subseteq> set (queue (bc_heap (sv_bc v) s))"
    and "sub_startLSN (st_sub st) = sub_startLSN (bc_heap (sv_bc v) s)"
    and "sub_schema (st_sub st) = sub_schema (bc_heap (sv_bc v) s)"
  shows "frames_ok enc T (put_stream s c st v)"
proof -
  let ?c = "c\<lparr>cn_pc := (if st_ended st then Ending else Live), cn_stream := st\<rparr>"
  have v: "sv_conns (put_stream s c st v) = (sv_conns v)(s := Some ?c)"
    "sv_bc (put_stream s c st v) = set_sub s (st_sub st) (sv_bc v)" by (simp_all add: put_stream_def)
  have e: "entitled_frame enc T ?c f = entitled_frame enc T c f" for f
    by (rule same_client_entitled) (simp add: same_client_def)
  have "has_queue c" using assms(3) by (auto simp: has_queue_def)
  with frames_okD [OF assms(1,2)] assms(4-7) have "frames_fit enc T (st_sub st) ?c"
    by (auto simp: frames_fit_def e)
  then show ?thesis by (intro frames_move [OF assms(1) v(1)]) (auto simp: v)
qed

lemma tx_out_ctl2: "tx_out (write_items [Ctl f, Ctl g] ev st) = tx_out st"
  by (cases ev) (auto simp: tx_out_def write_items_def take_Cons')

lemma open_stream_frames:
  assumes "frames_ok enc T v" and "sv_conns v s = Some c" and "cn_pc c = Opening"
  shows "frames_ok enc T (open_stream ev s c v)"
proof -
  let ?st = "write_items [Ctl preludeFrame, Ctl (initial_frame (sv_cfg v) (cn_hs c))] ev (stream_now s c v)"
  have "frames_ok enc T (put_stream s c st v)" if "st = ?st \<or> st = fail_write t ?st" for st t
    using assms that
    by (intro put_stream_frames) (auto simp: stream_now_def tx_out_ctl2 Drop_startLSN)
  then show ?thesis unfolding open_stream_def Let_def by (auto split: write_ev.split)
qed

lemma serve_stream_frames:
  assumes "frames_ok enc T v" and "sv_conns v s = Some c" and "cn_pc c = Live" and "own_event ev"
  shows "frames_ok enc T (serve_stream ev s c v)"
  unfolding serve_stream_def Let_def using stream_step_frames [OF assms(4), where st = "stream_now s c v"] assms(1-3)
  by (intro put_stream_frames) (simp_all add: stream_now_def)

text \<open>The deferred calls leave the frames alone.\<close>

lemma frames_same:
  assumes "frames_ok enc T v" and "sv_conns v s = Some c" and "has_queue c"
    and "sv_conns v' = (sv_conns v)(s := Some c')" and "\<And>t. bc_heap (sv_bc v') t = bc_heap (sv_bc v) t"
    and "same_client c c'" "cn_stream c' = cn_stream c" "Opening \<le> cn_pc c'"
  shows "frames_ok enc T v'"
proof -
  have "cn_startLSN c' = cn_startLSN c" using assms(6) by (simp add: same_client_def)
  then have "frames_fit enc T (bc_heap (sv_bc v) s) c'"
    using frames_okD [OF assms(1,2)] assms(3,7,8)
    by (simp add: frames_fit_def same_client_entitled [OF assms(6)])
  then show ?thesis by (intro frames_move [OF assms(1,4)]) (auto simp: assms(5))
qed

lemma deregister_stream_frames:
  assumes "frames_ok enc T v" and "sv_conns v s = Some c" and "cn_pc c = Ending"
  shows "frames_ok enc T (deregister_stream s c v)"
  by (rule frames_same [OF assms(1,2), of _ "c\<lparr>cn_pc := Deregistered\<rparr>"])
    (simp_all add: deregister_stream_def Deregister_facts same_client_def has_queue_def assms(3))

lemma count_disconnect_frames:
  assumes "frames_ok enc T v" and "sv_conns v s = Some c" and "cn_pc c = Deregistered"
  shows "frames_ok enc T (count_disconnect s c v)"
  by (rule frames_same [OF assms(1,2), of _ "c\<lparr>cn_pc := Releasing\<rparr>"])
    (simp_all add: count_disconnect_def same_client_def has_queue_def assms(3))

lemma release_places_frames: "frames_ok enc T v \<Longrightarrow> frames_ok enc T (release_places s c v)"
  by (auto simp: frames_ok_def release_places_def Let_def)

definition same_queue :: "'f subscriber \<Rightarrow> 'f subscriber \<Rightarrow> bool" where
  "same_queue sub sub' \<longleftrightarrow> queue sub' = queue sub \<and> sub_startLSN sub' = sub_startLSN sub \<and> sub_schema sub' = sub_schema sub"

lemma same_queue_simps [simp]: "same_queue sub sub" "same_queue sub (Drop r sub)" "same_queue sub (with_grant a sub)"
  by (simp_all add: same_queue_def Drop_def with_grant_def queue_def)

lemma refreshed_queue: "tryRefresh n as (s, sub) = (r, s', sub') \<Longrightarrow> same_queue sub sub'"
proof (induction as arbitrary: n)
  case (Cons a as)
  obtain r1 s1 sub1 where ap: "applyFetched (at_result a) (at_lsn a) (at_now a) (s, sub) = (r1, s1, sub1)"
    by (metis prod_cases3)
  from ap show ?case
  proof (cases rule: applyFetched_cases)
    case (unavailable cause)
    from unavailable ap Cons show ?thesis by (auto split: if_splits wait_ev.splits)
  qed (use ap Cons.prems in \<open>auto split: if_splits\<close>)
qed simp

lemma refresh_stream_frames:
  assumes "frames_ok enc T v" and "sv_conns v s = Some c" and "Opening \<le> cn_pc c" "cn_pc c \<le> Deregistered"
  shows "frames_ok enc T (refresh_stream as s c v)"
proof -
  obtain r a sub where t: "tryRefresh 0 as (cn_auth c, bc_heap (sv_bc v) s) = (r, a, sub)" by (metis prod_cases3)
  let ?c = "c\<lparr>cn_auth := a\<rparr>"
  have v: "sv_conns (refresh_stream as s c v) = (sv_conns v)(s := Some ?c)"
    "sv_bc (refresh_stream as s c v) = set_sub s (with_grant a sub) (sv_bc v)"
    by (simp_all add: refresh_stream_def t)
  have e: "entitled_frame enc T ?c f = entitled_frame enc T c f" for f
    by (rule same_client_entitled) (simp add: same_client_def)
  have "has_queue ?c = has_queue c" by (simp add: has_queue_def)
  with frames_okD [OF assms(1,2)] refreshed_queue [OF t] same_queue_simps(3) [of sub a]
  have "frames_fit enc T (with_grant a sub) ?c"
    by (simp add: frames_fit_def e same_queue_def)
  then show ?thesis by (intro frames_move [OF assms(1) v(1)]) (auto simp: v)
qed

text \<open>The router queues what the grant in force lets through.\<close>

lemma granted_cut:
  assumes "grant_at a (CommitLSN tx) = Some w"
  shows "sub_event sub (FilterWithLSN a) tx = cut_event (sub_schema sub) w tx"
proof -
  note flt = FilterWithLSN_grant [of a _ "CommitLSN tx", unfolded assms]
  have "granted sub (FilterWithLSN a) tx = map (\<lambda>ch. fst (Filter (Some w) ch))
      (filter (\<lambda>ch. Schema ch = sub_schema sub \<and> \<not> snd (Filter (Some w) ch)) (Changes tx))"
    unfolding granted_def flt(1) by (rule map_cong [OF refl]) (simp add: flt)
  then show ?thesis by (simp add: sub_event_def cut_event_def Let_def)
qed

lemma concerned_entitled:
  assumes "concerns tx sub flt" and "enc (sub_event sub flt tx) = (f, False)" and "tx \<in> T"
    and "stream_fits sub c" and "is_uncounted c" and "sub_schema sub = ''public''" "sub_startLSN sub = cn_startLSN c"
  shows "entitled_frame enc T c f"
proof -
  have fit: "sub_kind sub = cn_kind c" "sub_table sub = cn_table c" "sub_pk sub = cn_pk c"
    "sub_Filter sub = Some (FilterWithLSN (cn_auth c))" "grant_ok c"
    using assms(4,5) by (simp_all add: stream_fits_def)
  then have flt: "flt = FilterWithLSN (cn_auth c)" using assms(1) by (simp add: concerns_def)
  obtain ch where ch: "ch \<in> set (Changes tx)" "matchesAnchor sub ch" "\<not> snd (FilterWithLSN (cn_auth c) ch (CommitLSN tx))"
    using assms(1) by (auto simp: concerns_def anchor_granted_def flt)
  then obtain w where w: "grant_at (cn_auth c) (CommitLSN tx) = Some w"
    by (cases "grant_at (cn_auth c) (CommitLSN tx)") (simp_all add: FilterWithLSN_grant(1) Filter_def)
  then have "names_table c w" using fit(5) by (auto simp: grant_ok_def grant_at_def split: if_splits option.splits)
  moreover have "Schema ch = ''public''" "of_channel c ch"
    using matchesAnchor_schema [OF ch(2)] ch(2) assms(6) fit(1-3) by (auto simp: of_channel_def matchesAnchor_def split: if_splits)
  moreover have "\<not> snd (Filter (Some w) ch)" using ch(3) w by (simp add: FilterWithLSN_grant(1))
  moreover have "cn_startLSN c < CommitLSN tx" using assms(1,7) by (simp add: concerns_def)
  moreover have "enc (cut_event ''public'' w tx) = (f, False)"
    using assms(2,6) by (simp add: flt granted_cut [OF w])
  ultimately show ?thesis using assms(3) ch(1) unfolding entitled_frame_def by blast
qed

lemma route_frames:
  assumes "frames_ok enc T v" and "conns_ok v" and "tx \<in> T" and "\<forall>l. mset (order l) = mset l"
  shows "frames_ok enc T (v\<lparr>sv_bc := routeTx enc order tx (sv_bc v)\<rparr>)"
proof (rule frames_heap [OF assms(1)])
  fix s c
  assume c: "sv_conns v s = Some c" "has_queue c"
  let ?sub = "bc_heap (sv_bc v) s"
  have o: "\<And>l. mset (order l) = mset l" using assms(4) by blast
  have uc: "is_uncounted c" using c(2) by (simp add: has_queue_def is_uncounted_def)
  note fits = conns_okD(4) [OF assms(2) c(1)]
  have ch: "sub_schema ?sub = ''public''" "sub_startLSN ?sub = cn_startLSN c"
    using frames_okD [OF assms(1) c(1)] c(2) by (simp_all add: frames_fit_def)
  have "f \<in> set (queue ?sub) \<or> entitled_frame enc T c f"
    if f: "f \<in> set (queue (dispatch (bc_cfg (sv_bc v)) enc tx ?sub))" for f
  proof (cases rule: dispatch_cases [of tx ?sub "bc_cfg (sv_bc v)" enc])
    case (delivered flt frame)
    have "entitled_frame enc T c frame"
      by (rule concerned_entitled [where sub = ?sub and flt = flt and tx = tx]) (rule delivered(1,2) assms(3) fits uc ch)+
    with f delivered(5) show ?thesis by (auto simp: queue_Send)
  qed (use f in simp_all)
  then show "sub_schema (bc_heap (routeTx enc order tx (sv_bc v)) s) = sub_schema ?sub
      \<and> sub_startLSN (bc_heap (routeTx enc order tx (sv_bc v)) s) = sub_startLSN ?sub
      \<and> (\<forall>f \<in> set (queue (bc_heap (routeTx enc order tx (sv_bc v)) s)). f \<in> set (queue ?sub) \<or> entitled_frame enc T c f)"
    by (simp add: routeTx_eq [OF o])
qed

lemma shutdown_frames: "frames_ok enc T v \<Longrightarrow> frames_ok enc T (v\<lparr>sv_bc := Shutdown (sv_bc v)\<rparr>)"
  by (rule frames_heap) (simp_all add: Shutdown_def Let_def fold_drop_heap, simp_all add: Drop_def queue_def)

lemma frames_ok_step:
  "sv_step enc T v v' \<Longrightarrow> service_ok v \<Longrightarrow> frames_ok enc T v \<Longrightarrow> frames_ok enc T v'"
  by (induction rule: sv_step.induct)
    (blast intro: accept_frames ask_backend_frames admit_user_frames start_stream_frames open_stream_frames
      serve_stream_frames deregister_stream_frames count_disconnect_frames release_places_frames
      refresh_stream_frames shutdown_frames route_frames [unfolded] dest: service_ok_def [THEN iffD1])+

lemma frames_ok_star:
  "(sv_step enc T)\<^sup>*\<^sup>* v v' \<Longrightarrow> service_ok v \<Longrightarrow> frames_ok enc T v \<Longrightarrow> frames_ok enc T v'"
  by (induction rule: rtranclp_induct) (auto intro: frames_ok_step service_ok_star)

subsection \<open>What clients are sent\<close>


end
