(* ===== verification/App_Process.thy ===== *)
theory App_Process
  imports App_Lifecycle
begin

text \<open>
  \<open>cmd/cdc-sse/main.go\<close>: the process from its flags to its exit status. The environment, the
  database, how the tasks of the application end and whether the shutdown meets its deadline are
  inputs. \<open>Fatal\<close> of the logger exits with status 1 and runs no deferred function.
\<close>

record process_env =
  pe_healthcheck :: bool \<comment> \<open>the flag \<open>-healthcheck\<close>\<close>
  pe_get :: "string \<Rightarrow> int option" \<comment> \<open>an HTTP client with a timeout of 2 s\<close>
  pe_WALERA_ADDR :: string
  pe_environ :: "string list"
  pe_connect :: "string \<Rightarrow> bool" \<comment> \<open>\<open>walconn.NewAdminConn\<close> succeeds\<close>
  pe_db :: boot_db
  pe_hostname :: "string option"
  pe_pid :: int
  pe_ends :: "(Runnable \<times> task_end) list" \<comment> \<open>the tasks that ended by themselves, in order\<close>
  pe_signal :: bool \<comment> \<open>SIGINT or SIGTERM has come\<close>
  pe_in_time :: bool \<comment> \<open>\<open>Shutdown\<close> returns before \<open>Shutdown.Deadline\<close>\<close>

datatype process_end = Running | Exited int

record process =
  ps_end :: process_end
  ps_admin_open :: bool
  ps_boot :: boot
  ps_served :: "AppConfig option" \<comment> \<open>the configuration \<open>Run\<close> was started with\<close>

definition new_process :: process where
  "new_process = \<lparr>ps_end = Running, ps_admin_open = False, ps_boot = \<lparr>executed = [], boot_notes = []\<rparr>,
     ps_served = None\<rparr>"

text \<open>\<open>Fatal\<close>, \<open>closeAdminConnOnErr\<close> and the end of \<open>App.Shutdown\<close>, which closes the admin connection.\<close>

definition fatal :: "process \<Rightarrow> process" where
  "fatal p = p\<lparr>ps_end := Exited 1\<rparr>"

definition closeAdminConnOnErr :: "process \<Rightarrow> process" where
  "closeAdminConnOnErr p = p\<lparr>ps_admin_open := False\<rparr>"

definition App_Shutdown :: "bool \<Rightarrow> process \<Rightarrow> process" where
  "App_Shutdown in_time p =
     (if in_time then p\<lparr>ps_admin_open := False\<rparr> else p\<lparr>ps_end := Exited 1\<rparr>)"

definition main_process :: "'u env_lib \<Rightarrow> process_env \<Rightarrow> process" where
  "main_process L e =
     (let p0 = new_process in
      if pe_healthcheck e then p0\<lparr>ps_end := Exited (runHealthcheckProbe (pe_get e) (pe_WALERA_ADDR e))\<rparr>
      else
        (case LoadFromEnv L (pe_environ e) of
           Inl errs \<Rightarrow> fatal p0
         | Inr cfg \<Rightarrow>
             (if \<not> pe_connect e (PostgresDSN (cfg_WAL cfg)) then fatal p0
              else
                (let p1 = p0\<lparr>ps_admin_open := True\<rparr> in
                 case prepareDatabase (pe_db e) cfg (pe_hostname e) (pe_pid e) (ps_boot p1) of
                   (Some err, b) \<Rightarrow> fatal (closeAdminConnOnErr (p1\<lparr>ps_boot := b\<rparr>))
                 | (None, b) \<Rightarrow>
                     (let p2 = p1\<lparr>ps_boot := b, ps_served := Some cfg\<rparr> in
                      if \<not> App_Run (pe_ends e) (pe_signal e) then p2
                      else
                        (let p3 = App_Shutdown (pe_in_time e) p2
                         in if ps_end p3 = Running then p3\<lparr>ps_end := Exited 0\<rparr> else p3))))))"

lemma App_Run_signal: "App_Run rs True"
  by simp

text \<open>Startup: a valid configuration, the database reachable and prepared.\<close>

definition starts_with :: "'u env_lib \<Rightarrow> process_env \<Rightarrow> AppConfig \<Rightarrow> bool" where
  "starts_with L e cfg \<longleftrightarrow>
     LoadFromEnv L (pe_environ e) = Inr cfg \<and> pe_connect e (PostgresDSN (cfg_WAL cfg))
     \<and> fst (prepareDatabase (pe_db e) cfg (pe_hostname e) (pe_pid e) (ps_boot new_process)) = None"


end
