(* ===== verification/Scenario_Service.thy ===== *)
theory Scenario_Service
  imports Scenario_Http Service_Frames App_Process
begin

text \<open>
  The deployment of \<open>Scenario\<close> as a running service and as a process: the configuration of
  \<open>Scenario_Http\<close> is loaded and wired, the request for account 7 is admitted and registered, and
  the process ends on a signal. The properties of the running service and of the process are
  instantiated on it.
\<close>

subsection \<open>A stream is opened\<close>

definition ex_service :: "int option service" where
  "ex_service = service_start (InitializeApp ex_config 10 (\<lambda>_. ex_sub) :: (int option, string) app)"

lemma ex_service_handler:
  "sv_handler ex_service = \<lparr>h_cors = http_CORSOrigins (cfg_HTTP ex_config), h_authClient = New_client (cfg_Auth ex_config),
     h_limits = New_limits limits_Defaults,
     h_corsAllowHeaders = buildAllowHeaders (ForwardedHeaders (cfg_Auth ex_config))\<rparr>"
  by (simp add: ex_service_def service_start_def InitializeApp_def wireDataPlane_def wireHTTP_def wireAuth_def
      NewHandler_def Let_def ex_config_def default_config_def)

lemma ex_service_conns: "sv_conns ex_service = (\<lambda>_. None)"
  by (simp add: ex_service_def service_start_def)

lemma ex_serves: "\<exists>k tbl pkey ch p hs w' r' h'. serveStream ex_world ex_request (sv_handler ex_service) fresh_response
    = Stream k tbl pkey ch p hs w' r' h' \<and> k = KindExact \<and> tbl = ''accounts'' \<and> pkey = ''7'' \<and> p = 10
    \<and> hs_authMap hs = Some ex_grant \<and> hs_userID hs = ''u1''"
proof -
  have valid: "validTableName ''accounts''" by code_simp
  have bearer: "bearer_token ex_request = ''tok''"
    by (simp add: bearer_token_def ex_request_def header_Get_def header_Values_def canonical_auth cut_prefix_def)
  have given: "header_Get ''X-Request-ID'' (r_Header ex_request) = []"
    by (simp add: ex_request_def header_Get_def header_Values_def canonical_auth)
  have parse: "ParseWhitelist ex_unmarshal (take maxResponseBytes ''granted'') =
      Inr \<lparr>UserID = ''u1'', wl_Tables = [(''accounts'', [''id'', ''name''])], TTLSeconds = 60,
        RefreshLSN = 0, InitialData = []\<rparr>"
    by (simp add: ParseWhitelist_def ex_unmarshal_def maxResponseBytes_def)
  have req: "r_table ex_request = ''accounts''" "r_pk ex_request = ''7''" "r_since_lsn ex_request = []"
    by (simp_all add: ex_request_def)
  show ?thesis
    by (simp add: serveStream_def serveExact_def req valid parseSinceLSN_def runHandshakeAndWriter_def runHandshake_def
        AcquireGlobal_def AcquirePerUser_def load_or_store_def ex_service_handler New_limits_def
        limits_Defaults_def authenticate_def Let_def bearer given OpenSession_def doAndDecode_def
        ex_world_def parse ex_grant_def)
qed

text \<open>The stream of account 7 is registered, with the grant of \<open>Scenario\<close> and room in its queue.\<close>

abbreviation ex_step :: "int option service \<Rightarrow> int option service \<Rightarrow> bool" where
  "ex_step \<equiv> sv_step ex_enc {ex_tx}"

lemma ex_filter_same:
  assumes "AuthMap a = Some ex_grant" "PrevWhitelist a = None"
  shows "FilterWithLSN a = FilterWithLSN ex_auth"
  using assms by (simp add: FilterWithLSN_def ex_auth_def New_auth_sub_def fun_eq_iff)

lemma ex_service_bc: "bc_closed (sv_bc ex_service) = False" "bc_cfg (set_sub s sub (sv_bc ex_service)) = router_Defaults"
  by (simp_all add: ex_service_def service_start_def InitializeApp_def wireDataPlane_def wireHTTP_def wireAuth_def
      New_broadcaster_def Let_def ex_config_def default_config_def set_sub_def)

lemma Register_cfg: "bc_cfg (Register s b) = bc_cfg b"
  by (auto simp: Register_def register_check_def register_add_eq drop_sub_def split: kind.splits)

lemma ex_service_cfg: "sse_Router (sv_cfg ex_service) = router_Defaults"
  by (simp add: ex_service_def service_start_def InitializeApp_def wireDataPlane_def wireHTTP_def wireAuth_def
      Let_def ex_config_def default_config_def)

lemma ex_opened:
  "\<exists>v c. ex_step\<^sup>*\<^sup>* ex_service v \<and> sv_conns v 0 = Some c \<and> cn_pc c = Opening \<and> hs_userID (cn_hs c) = ''u1''
     \<and> bc_cfg (sv_bc v) = router_Defaults
     \<and> (let sub = bc_heap (sv_bc v) 0 in sub_kind sub = KindExact \<and> sub_schema sub = ''public'' \<and> sub_table sub = ''accounts''
        \<and> sub_pk sub = ''7'' \<and> sub_startLSN sub = 10 \<and> \<not> sub_done sub \<and> sub_Filter sub = Some (FilterWithLSN ex_auth)
        \<and> queue sub = [] \<and> can_send sub)"
proof -
  obtain k tbl pkey ch p hs w' r' h' where st: "serveStream ex_world ex_request (sv_handler ex_service) fresh_response
      = Stream k tbl pkey ch p hs w' r' h'" and k: "k = KindExact" "tbl = ''accounts''" "pkey = ''7''" "p = 10"
      "hs_authMap hs = Some ex_grant" "hs_userID hs = ''u1''" using ex_serves by blast
  have "sv_conns ex_service 0 = None" by (simp add: ex_service_conns)
  from serve_in_steps [OF this, where W = ex_world and r = ex_request and w = fresh_response and enc = ex_enc and T = "{ex_tx}"] st
  obtain c where c: "ex_step\<^sup>*\<^sup>* ex_service (set_conn 0 c (ex_service\<lparr>sv_handler := h'\<rparr>))"
      "cn_pc c = Admitted" "cn_kind c = k" "cn_table c = tbl" "cn_pk c = pkey" "cn_startLSN c = p" "cn_hs c = hs" by auto
  let ?v = "set_conn 0 c (ex_service\<lparr>sv_handler := h'\<rparr>)"
  let ?v' = "start_stream ex_world fresh_response ''0'' 0 0 c ?v"
  have "ex_step ?v ?v'" by (rule sv_step.starts) (simp_all add: c(2))
  then have star: "ex_step\<^sup>*\<^sup>* ex_service ?v'" using c(1) by (rule rtranclp.rtrancl_into_rtrancl [rotated])
  obtain sub0 :: "int option subscriber" and a w1 where h: "headersAndPreamble ex_world (sv_cfg ?v) (cn_table c) (cn_pk c)
      (cn_channel c) (cn_kind c) (cn_startLSN c) (cn_hs c) (cn_req c) fresh_response ''0'' 0 = (sub0, a, w1)" by (metis prod.exhaust)
  define sub where "sub = WireSendFunc (queue_cap (sse_Router (sv_cfg ?v)) sub0) sub0"
  have heap: "bc_heap (sv_bc ?v') 0 = sub" "\<exists>c'. sv_conns ?v' 0 = Some c' \<and> cn_pc c' = Opening \<and> hs_userID (cn_hs c') = ''u1''"
    "bc_cfg (sv_bc ?v') = router_Defaults"
    unfolding start_stream_def h Let_def prod.case sub_def [symmetric]
    by (simp_all add: Register_heap ex_service_bc c(7) k(6) Register_cfg)
  have grant: "AuthMap a = Some ex_grant" "PrevWhitelist a = None"
    using h by (auto simp: headersAndPreamble_def Let_def New_auth_sub_def c(7) k(5))
  have "sub_kind sub = KindExact \<and> sub_schema sub = ''public'' \<and> sub_table sub = ''accounts''
        \<and> sub_pk sub = ''7'' \<and> sub_startLSN sub = 10 \<and> \<not> sub_done sub \<and> sub_Filter sub = Some (FilterWithLSN a)
        \<and> queue sub = [] \<and> can_send sub"
    using h by (auto simp: headersAndPreamble_def Let_def sub_def WireSendFunc_def with_grant_def NewSubscriber_def
        queue_def can_send_def queue_cap_def ex_service_cfg router_Defaults_def c k(1-4))
  with ex_filter_same [OF grant] have "let sub = bc_heap (sv_bc ?v') 0 in sub_kind sub = KindExact \<and> sub_schema sub = ''public''
        \<and> sub_table sub = ''accounts'' \<and> sub_pk sub = ''7'' \<and> sub_startLSN sub = 10 \<and> \<not> sub_done sub
        \<and> sub_Filter sub = Some (FilterWithLSN ex_auth) \<and> queue sub = [] \<and> can_send sub"
    by (simp add: heap(1) Let_def)
  with star heap(2,3) show ?thesis by blast
qed

text \<open>The transaction of \<open>Scenario\<close> is routed: its frame is in the queue.\<close>

lemma ex_routed:
  "\<exists>v c. ex_step\<^sup>*\<^sup>* ex_service v \<and> sv_conns v 0 = Some c \<and> cn_pc c = Opening \<and> hs_userID (cn_hs c) = ''u1''
     \<and> registered (sv_bc v) 0 \<and> queue (bc_heap (sv_bc v) 0) = [''5'']"
proof -
  obtain v c where v: "ex_step\<^sup>*\<^sup>* ex_service v" "sv_conns v 0 = Some c" "cn_pc c = Opening" "hs_userID (cn_hs c) = ''u1''"
      "bc_cfg (sv_bc v) = router_Defaults"
    and sub: "sub_kind (bc_heap (sv_bc v) 0) = KindExact" "sub_schema (bc_heap (sv_bc v) 0) = ''public''"
      "sub_table (bc_heap (sv_bc v) 0) = ''accounts''" "sub_pk (bc_heap (sv_bc v) 0) = ''7''"
      "sub_startLSN (bc_heap (sv_bc v) 0) = 10" "\<not> sub_done (bc_heap (sv_bc v) 0)"
      "sub_Filter (bc_heap (sv_bc v) 0) = Some (FilterWithLSN ex_auth)" "queue (bc_heap (sv_bc v) 0) = []"
      "can_send (bc_heap (sv_bc v) 0)"
    using ex_opened by (auto simp: Let_def)
  have ok: "conns_ok v" using reachable_books(1) [OF ex_loads v(1) [unfolded ex_service_def]] by (simp add: service_ok_def)
  have reg: "registered (sv_bc v) 0" using conns_okD(2) [OF ok] v(2,3) by (simp add: is_registered_def)
  let ?v = "v\<lparr>sv_bc := routeTx ex_enc id ex_tx (sv_bc v)\<rparr>"
  have "ex_step v ?v" by (rule sv_step.routes) simp_all
  with v(1) have star: "ex_step\<^sup>*\<^sup>* ex_service ?v" by (rule rtranclp.rtrancl_into_rtrancl)
  have gr: "granted (bc_heap (sv_bc v) 0) (FilterWithLSN ex_auth) ex_tx =
      [ex_change\<lparr>Data := Some [(''id'', GInt 7), (''name'', GStr ''ann'')]\<rparr>]"
    by (simp add: granted_def ex_filter sub)
  have con: "concerns ex_tx (bc_heap (sv_bc v) 0) (FilterWithLSN ex_auth)"
    by (simp add: concerns_def hasMultipleAnchorRoots_def anchor_granted_def matchesAnchor_def ex_filter sub)
  have "eligible (sv_bc v) ex_tx 0"
    by (rule anchor_eligible [OF conns_okD(1) [OF ok] reg, where flt = "FilterWithLSN ex_auth"]) (use con in \<open>simp add: concerns_def\<close>)
  then have "queue (bc_heap (routeTx ex_enc id ex_tx (sv_bc v)) 0) = [''5'']"
    using dispatch_concerned [OF con, of "bc_cfg (sv_bc v)" ex_enc]
    by (subst routeTx_eq) (simp_all add: gr v(5) router_Defaults_def ex_enc_def sub_event_def ex_itoa sub queue_Send)
  moreover have "registered (routeTx ex_enc id ex_tx (sv_bc v)) 0"
    using reg by (subst routeTx_eq) (simp_all add: registered_def shutdown_subs_def)
  ultimately show ?thesis using star v(2-4) sub(8) by (intro exI [of _ ?v] exI [of _ c]) simp
qed

theorem service_books_exact_witness:
  "\<exists>v. ex_step\<^sup>*\<^sup>* ex_service v \<and> 0 \<in> {s. registered (sv_bc v) s} \<and>
     globalSem (sv_limits v) = card (handlers (\<lambda>_. True) v) \<and> 0 < globalSem (sv_limits v)"
proof -
  obtain v c where v: "ex_step\<^sup>*\<^sup>* ex_service v" "sv_conns v 0 = Some c" "cn_pc c = Opening"
    using ex_opened by blast
  note books = service_books_exact [OF ex_loads v(1) [unfolded ex_service_def]]
  have "0 \<in> handlers is_registered v" "0 \<in> handlers (\<lambda>_. True) v"
    using v(2,3) by (simp_all add: handlers_def is_registered_def)
  moreover from this(2) have "0 < card (handlers (\<lambda>_. True) v)" using books card_gt_0_iff by blast
  moreover have "{s. registered (sv_bc v) s} = handlers is_registered v"
    "globalSem (sv_limits v) = card (handlers (\<lambda>_. True) v)" using books by blast+
  ultimately show ?thesis using v(1) by (intro exI [of _ v]) simp
qed



theorem service_can_drain_witness:
  "\<exists>v v'. ex_step\<^sup>*\<^sup>* ex_service v \<and> sv_conns v 0 \<noteq> None \<and>
     ex_step\<^sup>*\<^sup>* v v' \<and> globalSem (sv_limits v') = 0"
proof -
  obtain v c where v: "ex_step\<^sup>*\<^sup>* ex_service v" "sv_conns v 0 = Some c" "cn_pc c = Opening"
    using ex_opened by blast
  from service_can_drain [OF ex_loads v(1) [unfolded ex_service_def]] v show ?thesis by blast
qed


subsection \<open>The process\<close>

definition ex_ready_db :: boot_db where
  "ex_ready_db = ex_db\<lparr>db_publication := \<lambda>_. Row False\<rparr>"

definition ex_process :: process_env where
  "ex_process =
     \<lparr>pe_healthcheck = False, pe_get = \<lambda>_. None, pe_WALERA_ADDR = [], pe_environ = ex_environ,
      pe_connect = \<lambda>_. True, pe_db = ex_ready_db, pe_hostname = None, pe_pid = 1,
      pe_ends = [(hd buildRunnables, EndError)], pe_signal = False, pe_in_time = True\<rparr>"

lemma ex_ready: "fst (prepareDatabase ex_ready_db ex_config None 1 b) = None"
proof -
  have "prereqs_ok ex_ready_db" using ex_prereqs by (simp add: prereqs_ok_def ex_ready_db_def ex_db_def)
  then have pre: "verifyPGPrereqs ex_ready_db = None" "verifyReplicationRole ex_ready_db = None"
    by (simp_all add: prereqs_iff)
  have "fst (bootstrapPublication ex_ready_db pub tables b) = None" for pub tables
    by (simp add: bootstrapPublication_def lookupPublication_def publicationHasSchemas_def ex_ready_db_def ex_db_def)
  then show ?thesis
    by (simp add: prepareDatabase_def pre Let_def split: prod.splits option.splits)
      (metis fst_conv option.distinct(1))
qed


end
